(* ===== verification/MG_Prelude.thy ===== *)
theory MG_Prelude
  imports
    Main
    "HOL-Library.Word"
    "HOL-Library.Char_ord"
    "HOL-Library.List_Lexorder"
    "HOL-Library.Sublist"
begin

text \<open>
  Shared vocabulary of the development.

  \<^item> \<^bold>\<open>Machine integers.\<close> \<open>u64\<close> is a 64-bit word. \<open>usize\<close> is a natural number whose
    arithmetic is written with the checked, saturating or wrapping operation the source uses;
    the supported targets (Linux and macOS, 64 bit) fix its width.
  \<^item> \<^bold>\<open>Results.\<close> Rust's \<open>Result<T, E>\<close> is \<open>'e + 'a\<close>, the error on the left.
  \<^item> \<^bold>\<open>Effects.\<close> Stateful fallible code is a function from the state to a result and the
    state after it. \<open>bindE\<close> is the question mark operator, \<open>wp\<close> its weakest precondition.
  \<^item> \<^bold>\<open>Ordered maps.\<close> Rust's \<open>BTreeMap\<close> is an association list with strictly increasing
    keys; a locale states the contract its clients rely on.
\<close>

named_theorems wp_simps \<open>weakest preconditions of the model's operations\<close>
named_theorems keeps_intros \<open>operations that keep a reflexive and transitive relation\<close>
named_theorems limit_simps \<open>unfolding of the bounded-resource checks\<close>

section \<open>Machine integers\<close>

type_synonym usize = nat
type_synonym u64 = "64 word"

definition usize_max :: usize where
  "usize_max = 2 ^ 64 - 1"

lemma usize_max_code [code]: "usize_max = 18446744073709551615"
  by (simp add: usize_max_def)

definition usize_checked_add :: "usize \<Rightarrow> usize \<Rightarrow> usize option" where
  "usize_checked_add a b = (if a + b \<le> usize_max then Some (a + b) else None)"

definition usize_checked_sub :: "usize \<Rightarrow> usize \<Rightarrow> usize option" where
  "usize_checked_sub a b = (if b \<le> a then Some (a - b) else None)"

definition usize_checked_mul :: "usize \<Rightarrow> usize \<Rightarrow> usize option" where
  "usize_checked_mul a b = (if a * b \<le> usize_max then Some (a * b) else None)"

definition usize_saturating_add :: "usize \<Rightarrow> usize \<Rightarrow> usize" where
  "usize_saturating_add a b = min (a + b) usize_max"

definition u64_checked_add :: "u64 \<Rightarrow> u64 \<Rightarrow> u64 option" where
  "u64_checked_add a b = (if unat a + unat b < 2 ^ 64 then Some (a + b) else None)"

definition u64_saturating_add :: "u64 \<Rightarrow> u64 \<Rightarrow> u64" where
  "u64_saturating_add a b = (if unat a + unat b < 2 ^ 64 then a + b else - 1)"

lemma usize_checked_add_Some [simp]:
  "usize_checked_add a b = Some c \<longleftrightarrow> c = a + b \<and> a + b \<le> usize_max"
  by (auto simp: usize_checked_add_def)

lemma usize_checked_add_None [simp]:
  "usize_checked_add a b = None \<longleftrightarrow> usize_max < a + b"
  by (auto simp: usize_checked_add_def)

lemma usize_checked_sub_Some [simp]:
  "usize_checked_sub a b = Some c \<longleftrightarrow> b \<le> a \<and> c = a - b"
  by (auto simp: usize_checked_sub_def)

lemma usize_checked_sub_None [simp]:
  "usize_checked_sub a b = None \<longleftrightarrow> a < b"
  by (auto simp: usize_checked_sub_def)

lemma usize_checked_mul_Some [simp]:
  "usize_checked_mul a b = Some c \<longleftrightarrow> c = a * b \<and> a * b \<le> usize_max"
  by (auto simp: usize_checked_mul_def)

lemma usize_checked_mul_None [simp]:
  "usize_checked_mul a b = None \<longleftrightarrow> usize_max < a * b"
  by (auto simp: usize_checked_mul_def)

lemma unat_u64_less: "unat (n :: u64) < 2 ^ 64"
  using unsigned_less [of n, where 'a = nat] by simp

lemma unat_u64_eq [simp]: "unat (m :: u64) = unat n \<longleftrightarrow> m = n"
  by (simp add: word_unat_eq_iff)

lemma unat_u64_add:
  fixes a b :: u64
  assumes "unat a + unat b < 2 ^ 64"
  shows "unat (a + b) = unat a + unat b"
  using assms by (simp add: unat_word_ariths)

lemma u64_checked_add_Some:
  "u64_checked_add a b = Some c \<Longrightarrow> unat c = unat a + unat b"
  by (auto simp: u64_checked_add_def unat_u64_add split: if_splits)

lemma u64_checked_add_one:
  assumes "u64_checked_add a 1 = Some c"
  shows "a < c"
proof -
  from assms have "unat c = Suc (unat a)"
    by (auto dest: u64_checked_add_Some)
  then show ?thesis by (simp add: word_less_nat_alt)
qed

section \<open>Results\<close>

type_synonym ('e, 'a) result = "'e + 'a"

definition bind_res :: "('e, 'a) result \<Rightarrow> ('a \<Rightarrow> ('e, 'b) result) \<Rightarrow> ('e, 'b) result" where
  "bind_res r f = (case r of Inl e \<Rightarrow> Inl e | Inr a \<Rightarrow> f a)"

definition map_err :: "('e \<Rightarrow> 'f) \<Rightarrow> ('e, 'a) result \<Rightarrow> ('f, 'a) result" where
  "map_err g r = (case r of Inl e \<Rightarrow> Inl (g e) | Inr a \<Rightarrow> Inr a)"

definition ok_or :: "'e \<Rightarrow> 'a option \<Rightarrow> ('e, 'a) result" where
  "ok_or e o' = (case o' of None \<Rightarrow> Inl e | Some a \<Rightarrow> Inr a)"

definition guard_res :: "bool \<Rightarrow> 'e \<Rightarrow> ('e, unit) result" where
  "guard_res ok e = (if ok then Inr () else Inl e)"

lemma bind_res_simps [simp]:
  "bind_res (Inl e) f = Inl e" "bind_res (Inr a) f = f a"
  by (simp_all add: bind_res_def)

lemma bind_res_Inr_iff [simp]:
  "bind_res r f = Inr b \<longleftrightarrow> (\<exists>a. r = Inr a \<and> f a = Inr b)"
  by (auto simp: bind_res_def split: sum.splits)

lemma bind_res_Inl_iff:
  "bind_res r f = Inl e \<longleftrightarrow> r = Inl e \<or> (\<exists>a. r = Inr a \<and> f a = Inl e)"
  by (auto simp: bind_res_def split: sum.splits)

lemma map_err_Inr [simp]: "map_err g r = Inr a \<longleftrightarrow> r = Inr a"
  by (auto simp: map_err_def split: sum.splits)

lemma map_err_Inl_iff: "map_err g r = Inl e \<longleftrightarrow> (\<exists>d. r = Inl d \<and> e = g d)"
  by (auto simp: map_err_def split: sum.splits)

lemma ok_or_Inr [simp]: "ok_or e x = Inr a \<longleftrightarrow> x = Some a"
  by (auto simp: ok_or_def split: option.splits)

lemma ok_or_Inl [simp]: "ok_or e x = Inl d \<longleftrightarrow> x = None \<and> d = e"
  by (auto simp: ok_or_def split: option.splits)

lemma guard_res_Inr [simp]: "guard_res ok e = Inr u \<longleftrightarrow> ok"
  by (auto simp: guard_res_def)

lemma guard_res_Inl [simp]: "guard_res ok e = Inl d \<longleftrightarrow> \<not> ok \<and> d = e"
  by (auto simp: guard_res_def)

section \<open>Stateful fallible operations\<close>

type_synonym ('s, 'e, 'a) op = "'s \<Rightarrow> ('e, 'a) result \<times> 's"

definition ret :: "'a \<Rightarrow> ('s, 'e, 'a) op" where
  "ret a s = (Inr a, s)"

definition fail :: "'e \<Rightarrow> ('s, 'e, 'a) op" where
  "fail e s = (Inl e, s)"

definition lift_res :: "('e, 'a) result \<Rightarrow> ('s, 'e, 'a) op" where
  "lift_res r s = (r, s)"

definition get :: "('s \<Rightarrow> 'a) \<Rightarrow> ('s, 'e, 'a) op" where
  "get f s = (Inr (f s), s)"

definition modify :: "('s \<Rightarrow> 's) \<Rightarrow> ('s, 'e, unit) op" where
  "modify f s = (Inr (), f s)"

definition bindE :: "('s, 'e, 'a) op \<Rightarrow> ('a \<Rightarrow> ('s, 'e, 'b) op) \<Rightarrow> ('s, 'e, 'b) op" where
  "bindE m f s = (case m s of (Inl e, t) \<Rightarrow> (Inl e, t) | (Inr a, t) \<Rightarrow> f a t)"

text \<open>The two branches of a \<open>match\<close> on the awaited result, keeping the state after the call.\<close>

definition catchE :: "('s, 'e, 'a) op \<Rightarrow> ('e \<Rightarrow> ('s, 'f, 'b) op) \<Rightarrow> ('a \<Rightarrow> ('s, 'f, 'b) op) \<Rightarrow> ('s, 'f, 'b) op" where
  "catchE m h f s = (case m s of (Inl e, t) \<Rightarrow> h e t | (Inr a, t) \<Rightarrow> f a t)"

definition wp :: "('s, 'e, 'a) op \<Rightarrow> ('a \<Rightarrow> 's \<Rightarrow> bool) \<Rightarrow> ('e \<Rightarrow> 's \<Rightarrow> bool) \<Rightarrow> 's \<Rightarrow> bool" where
  "wp m Q E s = (case m s of (Inr a, t) \<Rightarrow> Q a t | (Inl e, t) \<Rightarrow> E e t)"

lemma wp_ret [simp, wp_simps]: "wp (ret a) Q E s = Q a s"
  by (simp add: wp_def ret_def)

lemma wp_fail [simp, wp_simps]: "wp (fail e) Q E s = E e s"
  by (simp add: wp_def fail_def)

lemma wp_lift_res [simp, wp_simps]:
  "wp (lift_res r) Q E s = (case r of Inl e \<Rightarrow> E e s | Inr a \<Rightarrow> Q a s)"
  by (simp add: wp_def lift_res_def split: sum.splits)

lemma wp_get [simp, wp_simps]: "wp (get f) Q E s = Q (f s) s"
  by (simp add: wp_def get_def)

lemma wp_modify [simp, wp_simps]: "wp (modify f) Q E s = Q () (f s)"
  by (simp add: wp_def modify_def)

lemma wp_bindE [simp, wp_simps]: "wp (bindE m f) Q E s = wp m (\<lambda>a. wp (f a) Q E) E s"
  by (simp add: wp_def bindE_def split: prod.splits sum.splits)

lemma wp_catchE [simp, wp_simps]:
  "wp (catchE m h f) Q E s = wp m (\<lambda>a. wp (f a) Q E) (\<lambda>e. wp (h e) Q E) s"
  by (simp add: wp_def catchE_def split: prod.splits sum.splits)

lemma wp_if [simp, wp_simps]:
  "wp (if b then m else n) Q E s = (if b then wp m Q E s else wp n Q E s)"
  by simp

lemma wp_mono:
  assumes "wp m Q E s"
    and "\<And>a t. Q a t \<Longrightarrow> Q' a t" and "\<And>e t. E e t \<Longrightarrow> E' e t"
  shows "wp m Q' E' s"
  using assms by (auto simp: wp_def split: prod.splits sum.splits)

lemma wp_conj:
  "wp m (\<lambda>a t. Q a t \<and> Q' a t) (\<lambda>e t. E e t \<and> E' e t) s \<longleftrightarrow> wp m Q E s \<and> wp m Q' E' s"
  by (auto simp: wp_def split: prod.splits sum.splits)

lemma wp_Inr: "wp m Q E s \<Longrightarrow> m s = (Inr a, t) \<Longrightarrow> Q a t"
  by (simp add: wp_def)

lemma wp_Inl: "wp m Q E s \<Longrightarrow> m s = (Inl e, t) \<Longrightarrow> E e t"
  by (simp add: wp_def)

lemma wpI:
  assumes "\<And>a t. m s = (Inr a, t) \<Longrightarrow> Q a t" and "\<And>e t. m s = (Inl e, t) \<Longrightarrow> E e t"
  shows "wp m Q E s"
  using assms by (auto simp: wp_def split: prod.splits sum.splits)

lemma wp_seq:
  assumes "wp m Q' X' s" and "\<And>a t. Q' a t \<Longrightarrow> wp (f a) Q X t" and "\<And>e t. X' e t \<Longrightarrow> X e t"
  shows "wp (bindE m f) Q X s"
  unfolding wp_bindE using assms by (rule wp_mono)

subsection \<open>Bounded retry loops\<close>

text \<open>
  \<open>for _ in 0..MAX { body }\<close> where the body either continues with the next attempt or
  returns, and what follows the loop reports exhaustion.
\<close>

datatype 'a flow = Again | Done 'a

fun retry :: "nat \<Rightarrow> ('s, 'e, 'a flow) op \<Rightarrow> ('s, 'e, 'a) op \<Rightarrow> ('s, 'e, 'a) op" where
  "retry 0 body exhausted = exhausted"
| "retry (Suc n) body exhausted =
     bindE body (\<lambda>r. case r of Again \<Rightarrow> retry n body exhausted | Done a \<Rightarrow> ret a)"

lemma wp_retry:
  assumes inv: "I s"
    and body: "\<And>t. I t \<Longrightarrow>
      wp body (\<lambda>r u. case r of Again \<Rightarrow> I u | Done a \<Rightarrow> Q a u) E t"
    and out: "\<And>t. I t \<Longrightarrow> wp exhausted Q E t"
  shows "wp (retry n body exhausted) Q E s"
  using inv
proof (induction n arbitrary: s)
  case 0
  then show ?case by (simp add: out)
next
  case (Suc n)
  have "wp body (\<lambda>r u. case r of Again \<Rightarrow> I u | Done a \<Rightarrow> Q a u) E s"
    using Suc.prems by (rule body)
  then have "wp body (\<lambda>r. wp (case r of Again \<Rightarrow> retry n body exhausted | Done a \<Rightarrow> ret a) Q E) E s"
    by (rule wp_mono) (auto split: flow.splits intro: Suc.IH)
  then show ?case by simp
qed

text \<open>The same with an invariant that knows how many attempts are left.\<close>

lemma wp_retry_counted:
  assumes inv: "I n s"
    and body: "\<And>m t. I (Suc m) t \<Longrightarrow>
      wp body (\<lambda>r u. case r of Again \<Rightarrow> I m u | Done a \<Rightarrow> Q a u) E t"
    and out: "\<And>t. I 0 t \<Longrightarrow> wp exhausted Q E t"
  shows "wp (retry n body exhausted) Q E s"
  using inv
proof (induction n arbitrary: s)
  case 0
  then show ?case by (simp add: out)
next
  case (Suc n)
  show ?case
    by (simp, rule wp_mono [OF body [OF Suc.prems]]) (auto split: flow.splits intro: Suc.IH)
qed

section \<open>Relations every operation keeps\<close>

definition keeps :: "('s \<Rightarrow> 's \<Rightarrow> bool) \<Rightarrow> ('s, 'e, 'a) op \<Rightarrow> bool" where
  "keeps R m \<longleftrightarrow> (\<forall>s. R s (snd (m s)))"

lemma keepsI: "(\<And>s. R s (snd (m s))) \<Longrightarrow> keeps R m"
  by (simp add: keeps_def)

lemma keepsD: "keeps R m \<Longrightarrow> R s (snd (m s))"
  by (simp add: keeps_def)

lemma keeps_run: "keeps R m \<Longrightarrow> m s = (r, t) \<Longrightarrow> R s t"
  by (metis keepsD snd_conv)

text \<open>
  A reflexive and transitive relation between the state before and after is kept by a
  composition as soon as its parts keep it. The interference relation, the growth of the
  effect log and the stickiness of cancellation are all of this kind.
\<close>

locale step_relation =
  fixes R :: "'s \<Rightarrow> 's \<Rightarrow> bool"
  assumes refl: "R s s"
    and trans: "R s t \<Longrightarrow> R t u \<Longrightarrow> R s u"
begin

lemma keeps_ret: "keeps R (ret a)"
  by (simp add: keeps_def ret_def refl)

lemma keeps_fail: "keeps R (fail e)"
  by (simp add: keeps_def fail_def refl)

lemma keeps_lift_res: "keeps R (lift_res r)"
  by (simp add: keeps_def lift_res_def refl)

lemma keeps_get: "keeps R (get f)"
  by (simp add: keeps_def get_def refl)

lemma keeps_modify: "(\<And>s. R s (f s)) \<Longrightarrow> keeps R (modify f)"
  by (simp add: keeps_def modify_def)

lemma keeps_bindE:
  assumes "keeps R m" and "\<And>a. keeps R (f a)"
  shows "keeps R (bindE m f)"
proof (rule keepsI)
  fix s
  obtain r t where m: "m s = (r, t)" by fastforce
  with assms(1) have st: "R s t" by (rule keeps_run)
  show "R s (snd (bindE m f s))"
  proof (cases r)
    case (Inl e)
    with m st show ?thesis by (simp add: bindE_def)
  next
    case (Inr a)
    have "R t (snd (f a t))" using assms(2) by (rule keepsD)
    with st have "R s (snd (f a t))" by (rule trans)
    with m Inr show ?thesis by (simp add: bindE_def)
  qed
qed

text \<open>Sequencing that accumulates the relation from a fixed initial state.\<close>

lemma wp_seq_acc:
  assumes "keeps R m" and "R s0 s"
    and "\<And>a t. R s0 t \<Longrightarrow> wp (f a) Q X t" and "\<And>e t. R s0 t \<Longrightarrow> X e t"
  shows "wp (bindE m f) Q X s"
proof (rule wp_seq)
  show "wp m (\<lambda>_. R s0) (\<lambda>_. R s0) s"
    using assms(1,2) trans by (auto simp: keeps_def wp_def split: prod.splits sum.splits) (metis snd_conv)+
qed (use assms in auto)

lemma keeps_catchE:
  assumes "keeps R m" and "\<And>e. keeps R (h e)" and "\<And>a. keeps R (f a)"
  shows "keeps R (catchE m h f)"
proof (rule keepsI)
  fix s
  obtain r t where m: "m s = (r, t)" by fastforce
  with assms(1) have st: "R s t" by (rule keeps_run)
  have "R t (snd (h e t))" for e using assms(2) by (rule keepsD)
  moreover have "R t (snd (f a t))" for a using assms(3) by (rule keepsD)
  ultimately show "R s (snd (catchE m h f s))"
    using m st by (auto simp: catchE_def split: sum.splits intro: trans)
qed

lemma keeps_if: "keeps R m \<Longrightarrow> keeps R n \<Longrightarrow> keeps R (if b then m else n)"
  by simp

lemma keeps_option:
  "keeps R m \<Longrightarrow> (\<And>a. keeps R (f a)) \<Longrightarrow> keeps R (case x of None \<Rightarrow> m | Some a \<Rightarrow> f a)"
  by (cases x) simp_all

lemma keeps_sum:
  "(\<And>e. keeps R (h e)) \<Longrightarrow> (\<And>a. keeps R (f a)) \<Longrightarrow>
   keeps R (case x of Inl e \<Rightarrow> h e | Inr a \<Rightarrow> f a)"
  by (cases x) simp_all

lemma keeps_prod: "(\<And>a b. keeps R (f a b)) \<Longrightarrow> keeps R (case x of (a, b) \<Rightarrow> f a b)"
  by (cases x) simp

lemma keeps_retry:
  assumes "keeps R body" and "keeps R exhausted"
  shows "keeps R (retry n body exhausted)"
proof (induction n)
  case 0
  then show ?case by (simp add: assms(2))
next
  case (Suc n)
  have "keeps R (case r of Again \<Rightarrow> retry n body exhausted | Done a \<Rightarrow> ret a)" for r
    by (cases r) (simp_all add: Suc keeps_ret)
  then show ?case by (simp add: keeps_bindE assms(1))
qed

lemmas keeps_rules =
  keeps_ret keeps_fail keeps_lift_res keeps_get keeps_bindE keeps_catchE keeps_if
  keeps_option keeps_sum keeps_prod keeps_retry

end

section \<open>Ordered maps\<close>

text \<open>
  The contract of \<open>BTreeMap\<close> as its clients use it: what a lookup returns after an insert
  or a removal, and that both keep the representation invariant.
\<close>

locale ordered_map =
  fixes empty :: "'m"
    and lookup :: "'m \<Rightarrow> 'k \<Rightarrow> 'v option"
    and insert :: "'k \<Rightarrow> 'v \<Rightarrow> 'm \<Rightarrow> 'm"
    and remove :: "'k \<Rightarrow> 'm \<Rightarrow> 'm"
    and invar :: "'m \<Rightarrow> bool"
  assumes invar_empty: "invar empty"
    and invar_insert: "invar m \<Longrightarrow> invar (insert k v m)"
    and invar_remove: "invar m \<Longrightarrow> invar (remove k m)"
    and lookup_empty: "lookup empty j = None"
    and lookup_insert: "invar m \<Longrightarrow> lookup (insert k v m) j = (if j = k then Some v else lookup m j)"
    and lookup_remove: "invar m \<Longrightarrow> lookup (remove k m) j = (if j = k then None else lookup m j)"
begin

lemma lookup_insert_same: "invar m \<Longrightarrow> lookup (insert k v m) k = Some v"
  by (simp add: lookup_insert)

lemma remove_insert_lookup:
  "invar m \<Longrightarrow> lookup m k = None \<Longrightarrow> lookup (remove k (insert k v m)) j = lookup m j"
  by (simp add: lookup_remove lookup_insert invar_insert)

lemma insert_remove_lookup:
  "invar m \<Longrightarrow> lookup m k = Some v \<Longrightarrow> lookup (insert k v (remove k m)) j = lookup m j"
  by (simp add: lookup_remove lookup_insert invar_remove)

end

type_synonym ('k, 'v) btree = "('k \<times> 'v) list"

fun bt_insert :: "'k::linorder \<Rightarrow> 'v \<Rightarrow> ('k, 'v) btree \<Rightarrow> ('k, 'v) btree" where
  "bt_insert k v [] = [(k, v)]"
| "bt_insert k v ((j, w) # m) =
     (if k < j then (k, v) # (j, w) # m
      else if k = j then (k, v) # m
      else (j, w) # bt_insert k v m)"

definition bt_lookup :: "('k, 'v) btree \<Rightarrow> 'k \<Rightarrow> 'v option" where
  "bt_lookup m k = map_of m k"

definition bt_remove :: "'k \<Rightarrow> ('k, 'v) btree \<Rightarrow> ('k, 'v) btree" where
  "bt_remove k m = filter (\<lambda>e. fst e \<noteq> k) m"

definition bt_values :: "('k, 'v) btree \<Rightarrow> 'v list" where
  "bt_values m = map snd m"

definition bt_invar :: "('k::linorder, 'v) btree \<Rightarrow> bool" where
  "bt_invar m \<longleftrightarrow> sorted_wrt (<) (map fst m)"

lemma fst_set_bt_insert: "fst ` set (bt_insert k v m) = insert k (fst ` set m)"
  by (induction k v m rule: bt_insert.induct) auto

lemma bt_invar_insert: "bt_invar m \<Longrightarrow> bt_invar (bt_insert k v m)"
proof (induction k v m rule: bt_insert.induct)
  case (1 k v)
  then show ?case by (simp add: bt_invar_def)
next
  case (2 k v j w m)
  have set: "set (map fst (bt_insert k v m)) = insert k (set (map fst m))"
    using fst_set_bt_insert [of k v m] by simp
  from 2 show ?case
    by (auto simp: bt_invar_def set simp del: set_map dest: less_trans)
qed

lemma bt_invar_remove: "bt_invar m \<Longrightarrow> bt_invar (bt_remove k m)"
  by (simp add: bt_invar_def bt_remove_def sorted_wrt_map sorted_wrt_filter)

lemma bt_lookup_insert:
  "bt_invar m \<Longrightarrow> bt_lookup (bt_insert k v m) j = (if j = k then Some v else bt_lookup m j)"
  by (induction k v m rule: bt_insert.induct) (auto simp: bt_lookup_def bt_invar_def)

lemma bt_lookup_remove: "bt_lookup (bt_remove k m) j = (if j = k then None else bt_lookup m j)"
  by (induction m) (auto simp: bt_lookup_def bt_remove_def)

lemma bt_insert_less: "\<forall>x\<in>set m. k < fst x \<Longrightarrow> bt_insert k v m = (k, v) # m"
  by (cases m) auto

lemma bt_insert_remove: "bt_invar m \<Longrightarrow> bt_insert k v (bt_remove k m) = bt_insert k v m"
proof (induction k v m rule: bt_insert.induct)
  case (2 k v j w m)
  have j: "\<forall>x\<in>set m. j < fst x" and m: "bt_invar m" using 2(2) by (auto simp: bt_invar_def)
  have less: "bt_remove k m = m" if "k \<le> j"
    using j that unfolding bt_remove_def by (intro filter_True) auto
  consider "k < j" | "k = j" | "j < k" by fastforce
  then show ?case
  proof cases
    case 1
    with less show ?thesis by (auto simp: bt_remove_def)
  next
    case 2
    with less j show ?thesis by (simp add: bt_remove_def bt_insert_less)
  next
    case 3
    with 2(1) m show ?thesis by (auto simp: bt_remove_def)
  qed
qed (simp add: bt_remove_def)

interpretation bt: ordered_map "[]" bt_lookup bt_insert bt_remove bt_invar
proof unfold_locales
  show "bt_invar []" by (simp add: bt_invar_def)
next
  fix j :: "'a::linorder"
  show "bt_lookup [] j = (None :: 'b option)" by (simp add: bt_lookup_def)
qed (simp_all add: bt_invar_insert bt_invar_remove bt_lookup_insert bt_lookup_remove)

lemma bt_lookup_NilI [simp]: "bt_lookup [] k = None"
  by (simp add: bt_lookup_def)

end
