(* ===== verification/Ids.thy ===== *)
theory Ids
  imports MG_Prelude
begin

text \<open>
  Validated identifiers (\<open>crates/machine-god-core/src/id.rs\<close>).

  A Rust string is its UTF-8 bytes, so \<open>str::len\<close> is \<^const>\<open>length\<close>. The macro
  \<open>identifier!\<close> stamps out six newtypes with a private field: the only way to obtain a value
  is \<open>new\<close>, which \<open>FromStr\<close>, \<open>TryFrom\<close> and \<open>Deserialize\<close> all call. The
  decimal rendering used by \<open>format!\<close> is here as well, because turn identifiers are built
  from it.
\<close>

section \<open>Validation\<close>

definition MAX_ID_BYTES :: usize where
  "MAX_ID_BYTES = 128"

record invalid_id =
  iid_kind :: string
  iid_reason :: string

definition is_ascii_digit :: "char \<Rightarrow> bool" where
  "is_ascii_digit c \<longleftrightarrow> CHR ''0'' \<le> c \<and> c \<le> CHR ''9''"

definition is_ascii_alphanumeric :: "char \<Rightarrow> bool" where
  "is_ascii_alphanumeric c \<longleftrightarrow> is_ascii_digit c
     \<or> (CHR ''A'' \<le> c \<and> c \<le> CHR ''Z'') \<or> (CHR ''a'' \<le> c \<and> c \<le> CHR ''z'')"

definition identifier_byte :: "char \<Rightarrow> bool" where
  "identifier_byte c \<longleftrightarrow> is_ascii_alphanumeric c \<or> c \<in> set ''-_.:''"

definition reason_empty :: string where
  "reason_empty = ''must not be empty''"

definition reason_long :: string where
  "reason_long = ''must be at most 128 bytes''"

definition quoted :: "char \<Rightarrow> string" where
  "quoted c = [CHR 0x27, c, CHR 0x27]"

definition reason_alphabet :: string where
  "reason_alphabet = ''must contain only ASCII letters, digits, '' @ quoted (CHR ''-'') @ '', '' @
     quoted (CHR ''_'') @ '', '' @ quoted (CHR ''.'') @ '', or '' @ quoted (CHR '':'')"

definition validate_identifier :: "string \<Rightarrow> string \<Rightarrow> (invalid_id, unit) result" where
  "validate_identifier value kind =
     (if value = [] then Inl \<lparr>iid_kind = kind, iid_reason = reason_empty\<rparr>
      else if length value > MAX_ID_BYTES then Inl \<lparr>iid_kind = kind, iid_reason = reason_long\<rparr>
      else if \<not> list_all identifier_byte value
        then Inl \<lparr>iid_kind = kind, iid_reason = reason_alphabet\<rparr>
      else Inr ())"

definition display_invalid_id :: "invalid_id \<Rightarrow> string" where
  "display_invalid_id e = ''invalid '' @ iid_kind e @ '': '' @ iid_reason e"

section \<open>The identifier types\<close>

datatype session_id = SessionId (session_id_str: string)
datatype session_incarnation_id = SessionIncarnationId (session_incarnation_id_str: string)
datatype turn_id = TurnId (turn_id_str: string)
datatype tool_call_id = ToolCallId (tool_call_id_str: string)
datatype permission_request_id = PermissionRequestId (permission_request_id_str: string)
datatype tool_name = ToolName (tool_name_str: string)

definition identifier_new :: "string \<Rightarrow> (string \<Rightarrow> 'id) \<Rightarrow> string \<Rightarrow> (invalid_id, 'id) result" where
  "identifier_new kind mk value = bind_res (validate_identifier value kind) (\<lambda>_. Inr (mk value))"

definition session_id_new :: "string \<Rightarrow> (invalid_id, session_id) result" where
  "session_id_new = identifier_new ''session ID'' SessionId"

definition session_incarnation_id_new :: "string \<Rightarrow> (invalid_id, session_incarnation_id) result" where
  "session_incarnation_id_new = identifier_new ''session incarnation ID'' SessionIncarnationId"

definition turn_id_new :: "string \<Rightarrow> (invalid_id, turn_id) result" where
  "turn_id_new = identifier_new ''turn ID'' TurnId"

definition tool_call_id_new :: "string \<Rightarrow> (invalid_id, tool_call_id) result" where
  "tool_call_id_new = identifier_new ''tool-call ID'' ToolCallId"

definition permission_request_id_new :: "string \<Rightarrow> (invalid_id, permission_request_id) result" where
  "permission_request_id_new = identifier_new ''permission-request ID'' PermissionRequestId"

definition tool_name_new :: "string \<Rightarrow> (invalid_id, tool_name) result" where
  "tool_name_new = identifier_new ''tool name'' ToolName"

text \<open>The derived \<open>Ord\<close> of the newtypes used as map keys: bytewise lexicographic.\<close>

instantiation session_id :: linorder
begin

definition less_eq_session_id :: "session_id \<Rightarrow> session_id \<Rightarrow> bool" where
  "less_eq_session_id a b \<longleftrightarrow> session_id_str a \<le> session_id_str b"

definition less_session_id :: "session_id \<Rightarrow> session_id \<Rightarrow> bool" where
  "less_session_id a b \<longleftrightarrow> session_id_str a < session_id_str b"

instance
  by standard (auto simp: less_eq_session_id_def less_session_id_def session_id.expand)

end

instantiation tool_name :: linorder
begin

definition less_eq_tool_name :: "tool_name \<Rightarrow> tool_name \<Rightarrow> bool" where
  "less_eq_tool_name a b \<longleftrightarrow> tool_name_str a \<le> tool_name_str b"

definition less_tool_name :: "tool_name \<Rightarrow> tool_name \<Rightarrow> bool" where
  "less_tool_name a b \<longleftrightarrow> tool_name_str a < tool_name_str b"

instance
  by standard (auto simp: less_eq_tool_name_def less_tool_name_def tool_name.expand)

end

section \<open>Decimal rendering\<close>

definition digit_char :: "nat \<Rightarrow> char" where
  "digit_char d = char_of (48 + d)"

fun show_nat :: "nat \<Rightarrow> string" where
  "show_nat n = (if n < 10 then [digit_char n] else show_nat (n div 10) @ [digit_char (n mod 10)])"

declare show_nat.simps [simp del]

fun read_digits :: "string \<Rightarrow> nat \<Rightarrow> nat" where
  "read_digits [] acc = acc"
| "read_digits (c # cs) acc = read_digits cs (10 * acc + (of_char c - 48))"

definition turn_id_text :: "u64 \<Rightarrow> string" where
  "turn_id_text n = ''turn-'' @ show_nat (unat n)"

section \<open>Lemmas\<close>

definition valid_identifier :: "string \<Rightarrow> bool" where
  "valid_identifier s \<longleftrightarrow> s \<noteq> [] \<and> length s \<le> 128 \<and> list_all identifier_byte s"

lemma validate_identifier_Inr [simp]:
  "validate_identifier s k = Inr u \<longleftrightarrow> valid_identifier s"
  by (auto simp: validate_identifier_def valid_identifier_def MAX_ID_BYTES_def)

lemma identifier_new_Inr:
  "identifier_new k mk s = Inr v \<longleftrightarrow> valid_identifier s \<and> v = mk s"
  by (auto simp: identifier_new_def)

lemmas id_new_simps =
  session_id_new_def session_incarnation_id_new_def turn_id_new_def tool_call_id_new_def
  permission_request_id_new_def tool_name_new_def identifier_new_Inr

lemma of_char_digit [simp]: "d < 10 \<Longrightarrow> of_char (digit_char d) = 48 + (d :: nat)"
  by (simp add: digit_char_def)

lemma is_ascii_digit_digit_char [simp]: "d < 10 \<Longrightarrow> is_ascii_digit (digit_char d)"
  by (simp add: is_ascii_digit_def less_eq_char_def)

lemma show_nat_digits: "list_all is_ascii_digit (show_nat n)"
proof (induction n rule: show_nat.induct)
  case (1 n)
  then show ?case by (subst show_nat.simps) simp
qed

lemma show_nat_not_Nil [simp]: "show_nat n \<noteq> []"
  by (subst show_nat.simps) simp

lemma read_digits_append:
  "read_digits (xs @ ys) acc = read_digits ys (read_digits xs acc)"
  by (induction xs arbitrary: acc) auto

lemma read_show_nat: "read_digits (show_nat n) 0 = n"
proof (induction n rule: show_nat.induct)
  case (1 n)
  show ?case
  proof (cases "n < 10")
    case True
    then show ?thesis by (subst show_nat.simps) simp
  next
    case False
    with 1 have "read_digits (show_nat (n div 10)) 0 = n div 10" by simp
    with False show ?thesis
      by (subst show_nat.simps) (simp add: read_digits_append)
  qed
qed

lemma show_nat_inj [simp]: "show_nat m = show_nat n \<longleftrightarrow> m = n"
  by (metis read_show_nat)

lemma length_show_nat: "n < 10 ^ Suc k \<Longrightarrow> length (show_nat n) \<le> Suc k"
proof (induction k arbitrary: n)
  case 0
  then show ?case by (subst show_nat.simps) simp
next
  case (Suc k)
  show ?case
  proof (cases "n < 10")
    case True
    then show ?thesis by (subst show_nat.simps) simp
  next
    case False
    from Suc.prems have "n div 10 < 10 ^ Suc k"
      by (simp add: less_mult_imp_div_less mult.commute)
    then have "length (show_nat (n div 10)) \<le> Suc k" by (rule Suc.IH)
    with False show ?thesis by (subst show_nat.simps) simp
  qed
qed

lemma turn_id_text_valid: "valid_identifier (turn_id_text n)"
proof -
  have "unat n < 10 ^ Suc 19" using unat_u64_less [of n] by simp
  then have "length (show_nat (unat n)) \<le> Suc 19" by (rule length_show_nat)
  moreover have "list_all identifier_byte (show_nat (unat n))"
    using show_nat_digits [of "unat n"]
    by (auto simp: list_all_iff identifier_byte_def is_ascii_alphanumeric_def)
  moreover have "list_all identifier_byte ''turn-''"
    by (simp add: identifier_byte_def is_ascii_alphanumeric_def is_ascii_digit_def less_eq_char_def)
  ultimately show ?thesis by (simp add: valid_identifier_def turn_id_text_def)
qed

lemma turn_id_text_inj [simp]: "turn_id_text m = turn_id_text n \<longleftrightarrow> m = n"
  by (simp add: turn_id_text_def)

lemma turn_id_new_text [simp]: "turn_id_new (turn_id_text n) = Inr (TurnId (turn_id_text n))"
  by (simp add: id_new_simps turn_id_text_valid)

section \<open>Properties\<close>

text \<open>
  C40. Turn identifiers: the text built from any 64-bit turn sequence is a valid identifier, so
  \<open>TurnId::new\<close> on it never fails, and two different sequences give two different turn
  identifiers.
\<close>

theorem turn_ids_valid_and_distinct:
  "turn_id_new (turn_id_text n) = Inr (TurnId (turn_id_text n))
   \<and> (turn_id_new (turn_id_text m) = turn_id_new (turn_id_text n) \<longleftrightarrow> m = n)"
  by simp

end
