(* ===== verification/Errors.thy ===== *)
theory Errors
  imports Ids
begin

text \<open>
  Structured errors and their rendering (\<open>crates/machine-god-core/src/error.rs\<close>), with the
  redaction of component errors (\<open>session.rs\<close>). The macro \<open>component_error!\<close>
  is one record with the error category as its type parameter.
\<close>

section \<open>Component errors\<close>

datatype provider_error_kind =
    PAuthentication | PRateLimited | PInvalidRequest | PUnavailable | PTransport | PProtocol
  | PCancelled | POther

datatype tool_error_kind =
    TInvalidInput | TPermissionDenied | TUnavailable | TExecution | TCancelled | TOther

datatype session_store_error_kind = SNotFound | SConflict | SCorrupt | SUnavailable | SOther

record 'k component_error =
  ce_kind :: 'k
  ce_code :: string
  ce_message :: string
  ce_retryable :: bool

type_synonym provider_error = "provider_error_kind component_error"
type_synonym tool_error = "tool_error_kind component_error"
type_synonym session_store_error = "session_store_error_kind component_error"

definition component_error_new :: "'k \<Rightarrow> string \<Rightarrow> string \<Rightarrow> bool \<Rightarrow> 'k component_error" where
  "component_error_new k c m r = \<lparr>ce_kind = k, ce_code = c, ce_message = m, ce_retryable = r\<rparr>"

definition display_component_error :: "'k component_error \<Rightarrow> string" where
  "display_component_error e = ce_code e @ '': '' @ ce_message e"

record permission_error =
  perr_code :: string
  perr_message :: string

definition display_permission_error :: "permission_error \<Rightarrow> string" where
  "display_permission_error e = perr_code e @ '': '' @ perr_message e"

record event_sink_error =
  sink_code :: string
  sink_message :: string

definition display_event_sink_error :: "event_sink_error \<Rightarrow> string" where
  "display_event_sink_error e = sink_code e @ '': '' @ sink_message e"

section \<open>Engine construction and operation errors\<close>

definition MAX_SAFE_JSON_DEPTH :: usize where
  "MAX_SAFE_JSON_DEPTH = 64"

datatype build_error =
    MissingProvider
  | MissingSessionStore
  | MissingPermissionHandler
  | DuplicateTool string
  | JsonDepthLimitExceedsSafeMaximum
  | ToolCatalogTooLarge
  | ToolCatalogJsonDepthExceeded
  | ToolCatalogJsonNodeLimitExceeded

definition display_build_error :: "build_error \<Rightarrow> string" where
  "display_build_error e = (case e of
       MissingProvider \<Rightarrow>
         ''a model provider is required''
     | MissingSessionStore \<Rightarrow>
         ''a session store is required''
     | MissingPermissionHandler \<Rightarrow>
         ''a permission handler is required''
     | DuplicateTool name \<Rightarrow>
         ''duplicate tool registration: '' @ name
     | JsonDepthLimitExceedsSafeMaximum \<Rightarrow>
         ''configured JSON depth limit exceeds the hard safety maximum of '' @ show_nat MAX_SAFE_JSON_DEPTH @ '' containers''
     | ToolCatalogTooLarge \<Rightarrow>
         ''serialized tool catalog exceeds the configured byte limit''
     | ToolCatalogJsonDepthExceeded \<Rightarrow>
         ''tool input schema exceeds the configured JSON depth limit''
     | ToolCatalogJsonNodeLimitExceeded \<Rightarrow>
         ''tool input schemas exceed the configured JSON node limit'')"

datatype engine_error =
    HostClosed
  | SessionBusy
  | SessionIncarnationConflict
  | Provider provider_error
  | Store session_store_error
  | Permission permission_error
  | EventSink event_sink_error
  | Protocol string

definition display_engine_error :: "engine_error \<Rightarrow> string" where
  "display_engine_error e = (case e of
       HostClosed \<Rightarrow>
         ''the engine host is closed''
     | SessionBusy \<Rightarrow>
         ''the session already has an active turn''
     | SessionIncarnationConflict \<Rightarrow>
         ''the session ID is already active with a different incarnation''
     | Provider d \<Rightarrow>
         ''provider failed: '' @ display_component_error d
     | Store d \<Rightarrow>
         ''session store failed: '' @ display_component_error d
     | Permission d \<Rightarrow>
         ''permission handler failed: '' @ display_permission_error d
     | EventSink d \<Rightarrow>
         ''event sink failed: '' @ display_event_sink_error d
     | Protocol m \<Rightarrow>
         ''protocol violation: '' @ m)"

section \<open>Redaction\<close>

text \<open>Component-supplied code and message are dropped; the category and the retry hint stay.\<close>

definition redact_store_error :: "session_store_error \<Rightarrow> session_store_error" where
  "redact_store_error e =
     component_error_new (ce_kind e) ''store_failed'' ''session store failed'' (ce_retryable e)"

definition redact_event_sink_error :: "event_sink_error \<Rightarrow> event_sink_error" where
  "redact_event_sink_error e = \<lparr>sink_code = ''event_sink_failed'', sink_message = ''event sink failed''\<rparr>"

section \<open>Turn failures\<close>

record turn_failure =
  tf_component :: string
  tf_code :: string
  tf_message :: string
  tf_retryable :: bool

definition failure_protocol :: "string \<Rightarrow> string \<Rightarrow> turn_failure" where
  "failure_protocol c m =
     \<lparr>tf_component = ''protocol'', tf_code = c, tf_message = m, tf_retryable = False\<rparr>"

definition failure_limit :: "string \<Rightarrow> string \<Rightarrow> turn_failure" where
  "failure_limit c m =
     \<lparr>tf_component = ''limits'', tf_code = c, tf_message = m, tf_retryable = False\<rparr>"

definition failure_provider :: "provider_error \<Rightarrow> turn_failure" where
  "failure_provider e = \<lparr>tf_component = ''provider'', tf_code = ''provider_failed'',
     tf_message = ''model provider failed'', tf_retryable = ce_retryable e\<rparr>"

definition failure_missing_stop :: turn_failure where
  "failure_missing_stop = \<lparr>tf_component = ''provider'', tf_code = ''missing_stop'',
     tf_message = ''provider stream ended without a terminal stop'', tf_retryable = False\<rparr>"

definition failure_store :: "session_store_error \<Rightarrow> turn_failure" where
  "failure_store e = \<lparr>tf_component = ''store'', tf_code = ''store_failed'',
     tf_message = ''session store failed'', tf_retryable = ce_retryable e\<rparr>"

definition failure_permission :: "permission_error \<Rightarrow> turn_failure" where
  "failure_permission e = \<lparr>tf_component = ''permission'', tf_code = ''permission_failed'',
     tf_message = ''permission policy failed'', tf_retryable = False\<rparr>"

section \<open>Lemmas\<close>

text \<open>
  Two component errors that agree on their category and retry hint are indistinguishable
  after redaction, whatever text the component put into them.
\<close>

lemma redact_store_error_eq_iff:
  "redact_store_error e = redact_store_error e' \<longleftrightarrow>
   ce_kind e = ce_kind e' \<and> ce_retryable e = ce_retryable e'"
  by (simp add: redact_store_error_def component_error_new_def)

lemma redact_store_error_idem [simp]:
  "redact_store_error (redact_store_error e) = redact_store_error e"
  by (simp add: redact_store_error_def component_error_new_def)

lemma ce_kind_redact [simp]: "ce_kind (redact_store_error e) = ce_kind e"
  by (simp add: redact_store_error_def component_error_new_def)

lemma redact_event_sink_error_const: "redact_event_sink_error e = redact_event_sink_error e'"
  by (simp add: redact_event_sink_error_def)

end
