(* ===== verification/Json_Bounds.thy ===== *)
theory Json_Bounds
  imports MG_Prelude
begin

text \<open>
  JSON values and the resource bounds on them
  (\<open>crates/machine-god-core/src/json_bounds.rs\<close>, and the lexical depth preflight of
  \<open>json.rs\<close>).

  \<open>serde_json::Value\<close> is \<open>json\<close>; numbers keep their source token
  (\<open>arbitrary_precision\<close>) and objects are sorted association lists. The validator and
  the destructor of the source are iterative, with an explicit stack of partially consumed
  child iterators; they are modelled as such and proved equal to structural recursion, from
  which the contract of the validator follows in closed form. The byte stream that
  \<open>serde_json::to_writer\<close> produces for a value is a parameter: the chunks it writes and
  the error, if any, that the serializer itself reports after them.
\<close>

section \<open>Values\<close>

datatype json =
    JNull
  | JBool bool
  | JNumber string
  | JString string
  | JArray "json list"
  | JObject "(string \<times> json) list"

fun json_children :: "json \<Rightarrow> json list option" where
  "json_children (JArray xs) = Some xs"
| "json_children (JObject kvs) = Some (map snd kvs)"
| "json_children _ = None"

text \<open>Number of values in a tree and deepest nesting of containers.\<close>

fun json_nodes :: "json \<Rightarrow> nat" where
  "json_nodes (JArray xs) = Suc (sum_list (map json_nodes xs))"
| "json_nodes (JObject kvs) = Suc (sum_list (map (\<lambda>kv. json_nodes (snd kv)) kvs))"
| "json_nodes _ = 1"

fun json_depth :: "json \<Rightarrow> nat" where
  "json_depth (JArray xs) = Suc (Max (set (0 # map json_depth xs)))"
| "json_depth (JObject kvs) = Suc (Max (set (0 # map (\<lambda>kv. json_depth (snd kv)) kvs)))"
| "json_depth _ = 0"

abbreviation forest_nodes :: "json list \<Rightarrow> nat" where
  "forest_nodes vs \<equiv> sum_list (map json_nodes vs)"

lemma json_nodes_children:
  "json_nodes v = (case json_children v of None \<Rightarrow> 1 | Some cs \<Rightarrow> Suc (forest_nodes cs))"
  by (cases v) (simp_all add: comp_def)

lemma json_depth_children:
  "json_depth v = (case json_children v of None \<Rightarrow> 0 | Some cs \<Rightarrow> Suc (Max (set (0 # map json_depth cs))))"
  by (cases v) (simp_all add: comp_def image_image)

lemma json_nodes_pos [simp]: "0 < json_nodes v"
  by (cases v) simp_all

lemma json_depth_le_iff:
  "json_depth v \<le> d \<longleftrightarrow> (case json_children v of None \<Rightarrow> True
     | Some cs \<Rightarrow> 0 < d \<and> (\<forall>c \<in> set cs. json_depth c \<le> d - 1))"
  by (subst json_depth_children) (cases d; auto split: option.splits)

section \<open>The validation budget\<close>

datatype json_limit_violation = Depth | Nodes

record json_validation_budget =
  vb_nodes :: usize
  vb_max_nodes :: usize
  vb_max_container_depth :: usize

record json_frame =
  fr_container_depth :: usize
  fr_children :: "json list"

definition budget_new :: "usize \<Rightarrow> usize \<Rightarrow> json_validation_budget" where
  "budget_new max_nodes max_depth =
     \<lparr>vb_nodes = 0, vb_max_nodes = max_nodes, vb_max_container_depth = max_depth\<rparr>"

text \<open>
  The two nested loops of \<open>JsonValidationBudget::validate\<close>: \<open>validate_visit\<close> is one
  round of the outer loop with a current value, \<open>validate_next\<close> the inner loop that
  advances the topmost child iterator and pops exhausted frames.
\<close>

definition frame_weight :: "json_frame \<Rightarrow> nat" where
  "frame_weight f = Suc (3 * forest_nodes (fr_children f))"

definition charge_node ::
  "json_validation_budget \<Rightarrow> (json_limit_violation, json_validation_budget) result" where
  "charge_node b =
     (case usize_checked_add (vb_nodes b) 1 of
        None \<Rightarrow> Inl Nodes
      | Some n \<Rightarrow> Inr (b\<lparr>vb_nodes := n\<rparr>))"

definition push_frame ::
  "json_validation_budget \<Rightarrow> json \<Rightarrow> usize \<Rightarrow> json_frame list \<Rightarrow>
   (json_limit_violation, json_frame list) result" where
  "push_frame b v parent_depth frames =
     (case json_children v of
        None \<Rightarrow> Inr frames
      | Some cs \<Rightarrow>
          (case usize_checked_add parent_depth 1 of
             None \<Rightarrow> Inl Depth
           | Some d \<Rightarrow>
               if d > vb_max_container_depth b then Inl Depth
               else Inr (\<lparr>fr_container_depth = d, fr_children = cs\<rparr> # frames)))"

lemma push_frame_weight:
  assumes "push_frame b v d frames = Inr frames'"
  shows "sum_list (map frame_weight frames') + 2 \<le> sum_list (map frame_weight frames) + 3 * json_nodes v"
  using assms json_nodes_children [of v]
  by (auto simp: push_frame_def frame_weight_def split: option.splits if_splits)

function (sequential)
  validate_visit :: "json_validation_budget \<Rightarrow> json \<Rightarrow> usize \<Rightarrow> json_frame list \<Rightarrow>
    (json_limit_violation, unit) result \<times> json_validation_budget" and
  validate_next :: "json_validation_budget \<Rightarrow> json_frame list \<Rightarrow>
    (json_limit_violation, unit) result \<times> json_validation_budget" where
  "validate_visit b v parent_depth frames =
     (case charge_node b of
        Inl e \<Rightarrow> (Inl e, b)
      | Inr b' \<Rightarrow>
          if vb_nodes b' > vb_max_nodes b' then (Inl Nodes, b')
          else (case push_frame b' v parent_depth frames of
                  Inl e \<Rightarrow> (Inl e, b')
                | Inr frames' \<Rightarrow> validate_next b' frames'))"
| "validate_next b [] = (Inr (), b)"
| "validate_next b (f # fs) =
     (case fr_children f of
        c # cs \<Rightarrow> validate_visit b c (fr_container_depth f) (f\<lparr>fr_children := cs\<rparr> # fs)
      | [] \<Rightarrow> validate_next b fs)"
  by pat_completeness auto

termination
  by (relation "measure (\<lambda>x. case x of
        Inl (b, v, d, fs) \<Rightarrow> 3 * json_nodes v + sum_list (map frame_weight fs)
      | Inr (b, fs) \<Rightarrow> Suc (sum_list (map frame_weight fs)))")
    (auto simp: frame_weight_def dest!: push_frame_weight)

definition budget_validate ::
  "json_validation_budget \<Rightarrow> json \<Rightarrow> (json_limit_violation, unit) result \<times> json_validation_budget" where
  "budget_validate b root = validate_visit b root 0 []"

fun budget_validate_all ::
  "json_validation_budget \<Rightarrow> json list \<Rightarrow> (json_limit_violation, unit) result \<times> json_validation_budget" where
  "budget_validate_all b [] = (Inr (), b)"
| "budget_validate_all b (root # roots) =
     (case budget_validate b root of
        (Inl e, b') \<Rightarrow> (Inl e, b')
      | (Inr _, b') \<Rightarrow> budget_validate_all b' roots)"

definition validate_json_roots ::
  "usize \<Rightarrow> usize \<Rightarrow> json list \<Rightarrow> (json_limit_violation, unit) result" where
  "validate_json_roots max_nodes max_depth roots =
     fst (budget_validate_all (budget_new max_nodes max_depth) roots)"

section \<open>Iterative destruction\<close>

text \<open>
  \<open>drop_json_value_iterative\<close> has no result; the model returns the values in the order in
  which the loop takes them apart.
\<close>

function (sequential)
  drop_visit :: "json \<Rightarrow> json list list \<Rightarrow> json list" and
  drop_next :: "json list list \<Rightarrow> json list" where
  "drop_visit v frames =
     v # drop_next (case json_children v of None \<Rightarrow> frames | Some cs \<Rightarrow> cs # frames)"
| "drop_next [] = []"
| "drop_next (f # fs) = (case f of c # cs \<Rightarrow> drop_visit c (cs # fs) | [] \<Rightarrow> drop_next fs)"
  by pat_completeness auto

termination
proof (relation "measure (\<lambda>x. case x of
        Inl (v, fs) \<Rightarrow> 3 * json_nodes v + sum_list (map (\<lambda>f. Suc (3 * forest_nodes f)) fs)
      | Inr fs \<Rightarrow> Suc (sum_list (map (\<lambda>f. Suc (3 * forest_nodes f)) fs)))", goal_cases)
  case (2 v frames)
  then show ?case
    using json_nodes_children [of v] by (auto split: option.splits)
qed auto

definition drop_json_value_iterative :: "json \<Rightarrow> json list" where
  "drop_json_value_iterative root = drop_visit root []"

section \<open>Counting serialized bytes\<close>

text \<open>What \<open>to_writer\<close> writes, chunk by chunk, and the error it reports after the last one.\<close>

record serialization =
  ser_chunks :: "string list"
  ser_error :: "string option"

record json_byte_counter =
  bc_bytes :: usize
  bc_limit :: usize
  bc_exceeded :: bool

datatype serialize_error = CountOverflowed | LimitExceeded | SerializerFailed string

definition display_serialize_error :: "serialize_error \<Rightarrow> string" where
  "display_serialize_error e = (case e of
       CountOverflowed \<Rightarrow> ''serialized JSON byte count overflowed''
     | LimitExceeded \<Rightarrow> ''serialized JSON exceeded its byte limit''
     | SerializerFailed t \<Rightarrow> t)"

definition counter_write ::
  "json_byte_counter \<Rightarrow> string \<Rightarrow> (serialize_error, usize) result \<times> json_byte_counter" where
  "counter_write c buffer =
     (case usize_checked_add (bc_bytes c) (length buffer) of
        None \<Rightarrow> (Inl CountOverflowed, c)
      | Some next \<Rightarrow>
          if next > bc_limit c then (Inl LimitExceeded, c\<lparr>bc_exceeded := True\<rparr>)
          else (Inr (length buffer), c\<lparr>bc_bytes := next\<rparr>))"

fun write_chunks ::
  "json_byte_counter \<Rightarrow> string list \<Rightarrow> (serialize_error, unit) result \<times> json_byte_counter" where
  "write_chunks c [] = (Inr (), c)"
| "write_chunks c (buf # bufs) =
     (case counter_write c buf of
        (Inl e, c') \<Rightarrow> (Inl e, c')
      | (Inr _, c') \<Rightarrow> write_chunks c' bufs)"

definition to_writer ::
  "json_byte_counter \<Rightarrow> serialization \<Rightarrow> (serialize_error, unit) result \<times> json_byte_counter" where
  "to_writer c s =
     (case write_chunks c (ser_chunks s) of
        (Inl e, c') \<Rightarrow> (Inl e, c')
      | (Inr _, c') \<Rightarrow> (case ser_error s of Some t \<Rightarrow> Inl (SerializerFailed t) | None \<Rightarrow> Inr (), c'))"

definition serialized_json_size_bounded ::
  "serialization \<Rightarrow> usize \<Rightarrow> (serialize_error, usize option) result" where
  "serialized_json_size_bounded s limit =
     (case to_writer \<lparr>bc_bytes = 0, bc_limit = limit, bc_exceeded = False\<rparr> s of
        (r, c) \<Rightarrow>
          if bc_exceeded c then Inr None
          else (case r of Inl e \<Rightarrow> Inl e | Inr _ \<Rightarrow> Inr (Some (bc_bytes c))))"

definition ser_size :: "serialization \<Rightarrow> nat" where
  "ser_size s = sum_list (map length (ser_chunks s))"

section \<open>The lexical depth preflight\<close>

record scan_state =
  sc_depth :: usize
  sc_quoted :: bool
  sc_escaped :: bool

definition scan_byte :: "usize \<Rightarrow> scan_state \<Rightarrow> char \<Rightarrow> scan_state option" where
  "scan_byte maximum s byte =
     (if sc_quoted s then
        (if sc_escaped s then Some (s\<lparr>sc_escaped := False\<rparr>)
         else if byte = CHR 0x5C then Some (s\<lparr>sc_escaped := True\<rparr>)
         else if byte = CHR 0x22 then Some (s\<lparr>sc_quoted := False\<rparr>)
         else Some s)
      else if byte = CHR 0x22 then Some (s\<lparr>sc_quoted := True\<rparr>)
      else if byte = CHR ''['' \<or> byte = CHR ''{'' then
        (case usize_checked_add (sc_depth s) 1 of
           None \<Rightarrow> None
         | Some d \<Rightarrow> if d \<le> maximum then Some (s\<lparr>sc_depth := d\<rparr>) else None)
      else if byte = CHR '']'' \<or> byte = CHR ''}'' then Some (s\<lparr>sc_depth := sc_depth s - 1\<rparr>)
      else Some s)"

fun scan_bytes :: "usize \<Rightarrow> scan_state \<Rightarrow> string \<Rightarrow> scan_state option" where
  "scan_bytes maximum s [] = Some s"
| "scan_bytes maximum s (b # bs) =
     (case scan_byte maximum s b of None \<Rightarrow> None | Some s' \<Rightarrow> scan_bytes maximum s' bs)"

definition check_container_depth :: "string \<Rightarrow> usize \<Rightarrow> bool" where
  "check_container_depth bytes maximum =
     (scan_bytes maximum \<lparr>sc_depth = 0, sc_quoted = False, sc_escaped = False\<rparr> bytes \<noteq> None)"

definition number_is_zero :: "string \<Rightarrow> bool" where
  "number_is_zero token =
     list_all (\<lambda>b. b \<in> set ''-.0'') (takeWhile (\<lambda>b. b \<noteq> CHR ''e'' \<and> b \<noteq> CHR ''E'') token)"


section \<open>Correctness of the iterative validator\<close>

abbreviation frames_nodes :: "json_frame list \<Rightarrow> nat" where
  "frames_nodes fs \<equiv> sum_list (map (\<lambda>f. forest_nodes (fr_children f)) fs)"

definition frames_depth_ok :: "usize \<Rightarrow> json_frame list \<Rightarrow> bool" where
  "frames_depth_ok maxd fs \<longleftrightarrow>
     (\<forall>f \<in> set fs. \<forall>c \<in> set (fr_children f). fr_container_depth f + json_depth c \<le> maxd)"

text \<open>
  What the loop promises from a state with \<open>n\<close> values still to visit: it accepts exactly
  when they fit, it charges each of them once, and each violation it reports is real.
\<close>

definition loop_promise ::
  "json_validation_budget \<Rightarrow> nat \<Rightarrow> bool \<Rightarrow>
   (json_limit_violation, unit) result \<times> json_validation_budget \<Rightarrow> bool" where
  "loop_promise b n depth_ok out \<longleftrightarrow>
     (case out of
        (Inr _, b') \<Rightarrow> vb_nodes b + n \<le> vb_max_nodes b \<and> depth_ok \<and> b' = b\<lparr>vb_nodes := vb_nodes b + n\<rparr>
      | (Inl Nodes, _) \<Rightarrow> vb_max_nodes b < vb_nodes b + n
      | (Inl Depth, _) \<Rightarrow> \<not> depth_ok)"

lemma loop_promise_charge:
  assumes "loop_promise (b\<lparr>vb_nodes := Suc (vb_nodes b)\<rparr>) n ok out"
  shows "loop_promise b (Suc n) ok out"
  using assms
  by (auto simp: loop_promise_def split: prod.splits sum.splits json_limit_violation.splits)

lemma depth_step:
  assumes "json_children v = Some cs"
  shows "d + json_depth v \<le> m \<longleftrightarrow> Suc d \<le> m \<and> (\<forall>c \<in> set cs. Suc d + json_depth c \<le> m)"
proof -
  have "json_depth v = Suc (Max (set (0 # map json_depth cs)))"
    using assms by (simp add: json_depth_children)
  moreover have "d + Suc (Max (set (0 # map json_depth cs))) \<le> m \<longleftrightarrow>
      Suc d \<le> m \<and> Max (set (0 # map json_depth cs)) \<le> m - Suc d" by arith
  moreover have "Max (set (0 # map json_depth cs)) \<le> m - Suc d \<longleftrightarrow>
      (\<forall>c \<in> set cs. json_depth c \<le> m - Suc d)" by simp
  moreover have "Suc d \<le> m \<Longrightarrow> json_depth c \<le> m - Suc d \<longleftrightarrow> Suc d + json_depth c \<le> m" for c by arith
  ultimately show ?thesis by auto
qed

lemma scalar_depth: "json_children v = None \<Longrightarrow> json_depth v = 0"
  by (simp add: json_depth_children)


lemma validate_loop_promise:
  "vb_max_nodes b \<le> usize_max \<Longrightarrow> vb_max_container_depth b \<le> usize_max \<Longrightarrow>
   d \<le> vb_max_container_depth b \<Longrightarrow>
   \<forall>f \<in> set fs. fr_container_depth f \<le> vb_max_container_depth b \<Longrightarrow>
   loop_promise b (json_nodes v + frames_nodes fs)
     (d + json_depth v \<le> vb_max_container_depth b \<and> frames_depth_ok (vb_max_container_depth b) fs)
     (validate_visit b v d fs)"
  "vb_max_nodes b \<le> usize_max \<Longrightarrow> vb_max_container_depth b \<le> usize_max \<Longrightarrow>
   vb_nodes b \<le> vb_max_nodes b \<Longrightarrow>
   \<forall>f \<in> set fs. fr_container_depth f \<le> vb_max_container_depth b \<Longrightarrow>
   loop_promise b (frames_nodes fs) (frames_depth_ok (vb_max_container_depth b) fs)
     (validate_next b fs)"
proof (induction b v d fs and b fs rule: validate_visit_validate_next.induct)
  case (1 b v d fs)
  let ?b' = "b\<lparr>vb_nodes := Suc (vb_nodes b)\<rparr>"
  let ?ok = "d + json_depth v \<le> vb_max_container_depth b \<and> frames_depth_ok (vb_max_container_depth b) fs"
  show ?case
  proof (cases "vb_max_nodes b < Suc (vb_nodes b)")
    case True
    then have "vb_max_nodes b < vb_nodes b + (json_nodes v + frames_nodes fs)"
      using json_nodes_pos [of v] by linarith
    with True show ?thesis
      by (auto simp: loop_promise_def charge_node_def split: option.splits)
  next
    case False
    with 1(2) have charge: "charge_node b = Inr ?b'"
      by (auto simp: charge_node_def split: option.splits)
    show ?thesis
    proof (cases "push_frame ?b' v d fs")
      case (Inl e)
      then obtain cs where cs: "json_children v = Some cs" and e: "e = Depth"
        and deep: "vb_max_container_depth b < Suc d"
        using 1(3) by (auto simp: push_frame_def split: option.splits if_splits)
      from cs deep have "\<not> ?ok" by (simp add: depth_step)
      with Inl e charge False show ?thesis
        by (simp add: loop_promise_def)
    next
      case (Inr fs')
      have "loop_promise ?b' (frames_nodes fs') (frames_depth_ok (vb_max_container_depth b) fs')
          (validate_next ?b' fs')"
        using 1(1) [OF charge _ Inr] False 1(2-) Inr
        by (auto simp: push_frame_def split: option.splits if_splits)
      then have "loop_promise b (Suc (frames_nodes fs')) (frames_depth_ok (vb_max_container_depth b) fs')
          (validate_next ?b' fs')" by (rule loop_promise_charge)
      moreover have "Suc (frames_nodes fs') = json_nodes v + frames_nodes fs"
        using Inr json_nodes_children [of v]
        by (auto simp: push_frame_def split: option.splits if_splits)
      moreover have "frames_depth_ok (vb_max_container_depth b) fs' \<longleftrightarrow> ?ok"
        using Inr 1(4) by (auto simp: push_frame_def frames_depth_ok_def scalar_depth depth_step
            split: option.splits if_splits)
      ultimately show ?thesis using charge False Inr by simp
    qed
  qed
next
  case (2 b)
  then show ?case by (simp add: loop_promise_def frames_depth_ok_def)
next
  case (3 b f fs)
  show ?case
  proof (cases "fr_children f")
    case Nil
    with 3 show ?thesis by (simp add: frames_depth_ok_def)
  next
    case (Cons c cs)
    with 3 have "loop_promise b (json_nodes c + frames_nodes (f\<lparr>fr_children := cs\<rparr> # fs))
       (fr_container_depth f + json_depth c \<le> vb_max_container_depth b \<and>
        frames_depth_ok (vb_max_container_depth b) (f\<lparr>fr_children := cs\<rparr> # fs))
       (validate_visit b c (fr_container_depth f) (f\<lparr>fr_children := cs\<rparr> # fs))" by simp
    moreover have "fr_container_depth f + json_depth c \<le> vb_max_container_depth b \<and>
        frames_depth_ok (vb_max_container_depth b) (f\<lparr>fr_children := cs\<rparr> # fs) \<longleftrightarrow>
        frames_depth_ok (vb_max_container_depth b) (f # fs)"
      using Cons by (auto simp: frames_depth_ok_def)
    ultimately show ?thesis using Cons by (simp add: add.assoc)
  qed
qed

lemma budget_validate_promise:
  assumes "vb_max_nodes b \<le> usize_max" and "vb_max_container_depth b \<le> usize_max"
  shows "loop_promise b (json_nodes v) (json_depth v \<le> vb_max_container_depth b) (budget_validate b v)"
  using validate_loop_promise(1) [of b 0 "[]" v] assms
  by (simp add: budget_validate_def frames_depth_ok_def)

lemma budget_validate_all_promise:
  assumes "vb_max_nodes b \<le> usize_max" and "vb_max_container_depth b \<le> usize_max"
    and "vb_nodes b \<le> vb_max_nodes b"
  shows "loop_promise b (forest_nodes vs) (\<forall>v \<in> set vs. json_depth v \<le> vb_max_container_depth b)
    (budget_validate_all b vs)"
  using assms
proof (induction vs arbitrary: b)
  case Nil
  then show ?case by (simp add: loop_promise_def)
next
  case (Cons v vs)
  obtain r b' where out: "budget_validate b v = (r, b')" by fastforce
  have one: "loop_promise b (json_nodes v) (json_depth v \<le> vb_max_container_depth b) (r, b')"
    using budget_validate_promise [OF Cons.prems(1,2), of v] out by simp
  show ?case
  proof (cases r)
    case (Inl e)
    with one out show ?thesis by (cases e) (auto simp: loop_promise_def)
  next
    case (Inr u)
    with one have b': "b' = b\<lparr>vb_nodes := vb_nodes b + json_nodes v\<rparr>"
      and fit: "json_depth v \<le> vb_max_container_depth b"
      and room: "vb_nodes b + json_nodes v \<le> vb_max_nodes b" by (auto simp: loop_promise_def)
    have "loop_promise b' (forest_nodes vs) (\<forall>v \<in> set vs. json_depth v \<le> vb_max_container_depth b')
        (budget_validate_all b' vs)"
      using Cons.prems b' room by (intro Cons.IH) simp_all
    with b' fit out Inr show ?thesis
      by (auto simp: loop_promise_def split: prod.splits sum.splits json_limit_violation.splits)
  qed
qed

lemma validate_json_roots_Inr:
  assumes "max_nodes \<le> usize_max" and "max_depth \<le> usize_max"
  shows "validate_json_roots max_nodes max_depth roots = Inr () \<longleftrightarrow>
    forest_nodes roots \<le> max_nodes \<and> (\<forall>v \<in> set roots. json_depth v \<le> max_depth)"
  using budget_validate_all_promise [of "budget_new max_nodes max_depth" roots] assms
  by (auto simp: validate_json_roots_def budget_new_def loop_promise_def
      split: prod.splits sum.splits json_limit_violation.splits)

section \<open>The iterative destructor\<close>

text \<open>Structural recursion over the same tree, parents before children.\<close>

fun preorder :: "json \<Rightarrow> json list" where
  "preorder (JArray xs) = JArray xs # concat (map preorder xs)"
| "preorder (JObject kvs) = JObject kvs # concat (map (\<lambda>kv. preorder (snd kv)) kvs)"
| "preorder v = [v]"

lemma preorder_children:
  "preorder v = v # (case json_children v of None \<Rightarrow> [] | Some cs \<Rightarrow> concat (map preorder cs))"
  by (cases v) (simp_all add: comp_def)

lemma drop_loop:
  "drop_visit v fs = preorder v @ concat (map (\<lambda>f. concat (map preorder f)) fs)"
  "drop_next fs = concat (map (\<lambda>f. concat (map preorder f)) fs)"
proof (induction v fs and fs rule: drop_visit_drop_next.induct)
  case (1 v frames)
  then show ?case by (subst preorder_children) (simp split: option.splits)
next
  case 2
  then show ?case by simp
next
  case (3 f fs)
  then show ?case by (cases f) simp_all
qed

lemma length_preorder: "length (preorder v) = json_nodes v"
  by (induction v rule: preorder.induct)
    (auto simp: length_concat comp_def intro!: arg_cong [where f = sum_list] map_cong)

section \<open>Counting bytes\<close>

lemma write_chunks_within:
  assumes "bc_limit c \<le> usize_max" and "bc_bytes c + sum_list (map length bufs) \<le> bc_limit c"
  shows "write_chunks c bufs = (Inr (), c\<lparr>bc_bytes := bc_bytes c + sum_list (map length bufs)\<rparr>)"
  using assms
  by (induction c bufs rule: write_chunks.induct)
    (auto simp: counter_write_def usize_checked_add_def add.assoc)

lemma write_chunks_beyond:
  assumes "bc_bytes c \<le> bc_limit c" and "bc_limit c < bc_bytes c + sum_list (map length bufs)"
  shows "\<exists>e c'. write_chunks c bufs = (Inl e, c') \<and> (e = CountOverflowed \<or> bc_exceeded c')
    \<and> (bc_bytes c + sum_list (map length bufs) \<le> usize_max \<longrightarrow> bc_exceeded c')"
  using assms
  by (induction c bufs rule: write_chunks.induct)
    (auto simp: counter_write_def usize_checked_add_def add.assoc)

text \<open>
  The counter reports the exact serialized size when it is within the limit and
  \<open>None\<close> when it is not; only a count that leaves \<open>usize\<close> is an error of its own.
\<close>

lemma serialized_size_within:
  assumes "limit \<le> usize_max" and "ser_size s \<le> limit"
  shows "serialized_json_size_bounded s limit =
    (case ser_error s of Some t \<Rightarrow> Inl (SerializerFailed t) | None \<Rightarrow> Inr (Some (ser_size s)))"
  using write_chunks_within [of "\<lparr>bc_bytes = 0, bc_limit = limit, bc_exceeded = False\<rparr>" "ser_chunks s"] assms
  by (simp add: serialized_json_size_bounded_def to_writer_def ser_size_def split: option.splits)

lemma serialized_size_beyond:
  assumes "limit < ser_size s"
  shows "serialized_json_size_bounded s limit \<in> {Inr None, Inl CountOverflowed}"
    and "ser_size s \<le> usize_max \<Longrightarrow> serialized_json_size_bounded s limit = Inr None"
  using write_chunks_beyond [of "\<lparr>bc_bytes = 0, bc_limit = limit, bc_exceeded = False\<rparr>" "ser_chunks s"] assms
  by (auto simp: serialized_json_size_bounded_def to_writer_def ser_size_def split: if_splits)

lemma serialized_size_Some:
  assumes "limit \<le> usize_max"
  shows "serialized_json_size_bounded s limit = Inr (Some n) \<longleftrightarrow>
    ser_error s = None \<and> n = ser_size s \<and> ser_size s \<le> limit"
  using serialized_size_within [OF assms, of s] serialized_size_beyond(1) [of limit s]
  by (cases "ser_size s \<le> limit") (auto split: option.splits)

section \<open>The lexical preflight\<close>

text \<open>The same scan without a bound: the nesting reached after a prefix of the text.\<close>

definition scan_free :: "scan_state \<Rightarrow> char \<Rightarrow> scan_state" where
  "scan_free s b = (if sc_quoted s then
        (if sc_escaped s then s\<lparr>sc_escaped := False\<rparr>
         else if b = CHR 0x5C then s\<lparr>sc_escaped := True\<rparr>
         else if b = CHR 0x22 then s\<lparr>sc_quoted := False\<rparr> else s)
      else if b = CHR 0x22 then s\<lparr>sc_quoted := True\<rparr>
      else if b = CHR ''['' \<or> b = CHR ''{'' then s\<lparr>sc_depth := Suc (sc_depth s)\<rparr>
      else if b = CHR '']'' \<or> b = CHR ''}'' then s\<lparr>sc_depth := sc_depth s - 1\<rparr> else s)"

abbreviation scan_start :: scan_state where
  "scan_start \<equiv> \<lparr>sc_depth = 0, sc_quoted = False, sc_escaped = False\<rparr>"

lemma scan_byte_free:
  assumes "maximum \<le> usize_max" and "sc_depth s \<le> maximum"
  shows "scan_byte maximum s b =
    (if sc_depth (scan_free s b) \<le> maximum then Some (scan_free s b) else None)"
  using assms by (auto simp: scan_byte_def scan_free_def usize_checked_add_def)

lemma scan_bytes_free:
  assumes "maximum \<le> usize_max" and "sc_depth s \<le> maximum"
  shows "scan_bytes maximum s bs \<noteq> None \<longleftrightarrow>
    (\<forall>p. prefix p bs \<longrightarrow> sc_depth (foldl scan_free s p) \<le> maximum)"
  using assms(2)
proof (induction bs arbitrary: s)
  case Nil
  then show ?case by simp
next
  case (Cons b bs)
  have "(\<forall>p. prefix p (b # bs) \<longrightarrow> sc_depth (foldl scan_free s p) \<le> maximum) \<longleftrightarrow>
     (\<forall>p. prefix p bs \<longrightarrow> sc_depth (foldl scan_free (scan_free s b) p) \<le> maximum)"
    using Cons.prems by (auto simp: prefix_Cons)
  moreover have "(\<forall>p. prefix p bs \<longrightarrow> sc_depth (foldl scan_free (scan_free s b) p) \<le> maximum) \<Longrightarrow>
     sc_depth (scan_free s b) \<le> maximum"
    by (drule spec [of _ "[]"]) simp
  ultimately show ?case
    using Cons scan_byte_free [OF assms(1) Cons.prems, of b] by auto
qed

section \<open>Properties\<close>

text \<open>
  C30. The iterative validator is exact: over all roots together it accepts exactly the forests with
  at most \<open>max_nodes\<close> values and no container nested deeper than \<open>max_depth\<close>, and each
  violation it reports is a real one.
\<close>

theorem validate_json_roots_exact:
  assumes "max_nodes \<le> usize_max" and "max_depth \<le> usize_max"
  shows "case validate_json_roots max_nodes max_depth roots of
      Inr _ \<Rightarrow> forest_nodes roots \<le> max_nodes \<and> (\<forall>v \<in> set roots. json_depth v \<le> max_depth)
    | Inl Nodes \<Rightarrow> max_nodes < forest_nodes roots
    | Inl Depth \<Rightarrow> (\<exists>v \<in> set roots. max_depth < json_depth v)"
  using budget_validate_all_promise [of "budget_new max_nodes max_depth" roots] assms
  by (auto simp: validate_json_roots_def budget_new_def loop_promise_def not_le
      split: prod.splits sum.splits json_limit_violation.splits)

theorem validate_json_roots_exact_witness:
  "case validate_json_roots 3 1 [JArray [JNull, JObject []]] of
      Inr _ \<Rightarrow> forest_nodes [JArray [JNull, JObject []]] \<le> 3
        \<and> (\<forall>v \<in> set [JArray [JNull, JObject []]]. json_depth v \<le> 1)
    | Inl Nodes \<Rightarrow> 3 < forest_nodes [JArray [JNull, JObject []]]
    | Inl Depth \<Rightarrow> (\<exists>v \<in> set [JArray [JNull, JObject []]]. 1 < json_depth v)"
  using validate_json_roots_exact [of 3 1 "[JArray [JNull, JObject []]]"]
  by (simp add: usize_max_def)

text \<open>
  C35. The iterative destructor takes every value of the tree apart exactly once, parents before
  children, in the order of structural recursion.
\<close>

theorem drop_json_value_iterative_preorder:
  "drop_json_value_iterative v = preorder v \<and> length (drop_json_value_iterative v) = json_nodes v"
  using drop_loop(1) [of v "[]"] by (simp add: drop_json_value_iterative_def length_preorder del: drop_visit.simps)

text \<open>
  C34. The byte counter is exact: a value within the limit gets its exact serialized size or the
  serializer's own error; a value beyond it gets \<open>None\<close>, however early the writer stopped,
  unless the count itself leaves \<open>usize\<close>.
\<close>

theorem serialized_json_size_bounded_exact:
  assumes "limit \<le> usize_max"
  shows "ser_size s \<le> limit \<and> serialized_json_size_bounded s limit =
      (case ser_error s of Some t \<Rightarrow> Inl (SerializerFailed t) | None \<Rightarrow> Inr (Some (ser_size s)))
    \<or> limit < ser_size s \<and> ser_size s \<le> usize_max \<and> serialized_json_size_bounded s limit = Inr None
    \<or> usize_max < ser_size s \<and> serialized_json_size_bounded s limit \<in> {Inr None, Inl CountOverflowed}"
  using serialized_size_within [OF assms, of s] serialized_size_beyond [of limit s] assms
  by (meson not_le order.strict_trans1)

theorem serialized_json_size_bounded_exact_witness:
  "serialized_json_size_bounded \<lparr>ser_chunks = [''ab'', ''c''], ser_error = None\<rparr> 2 = Inr None"
  using serialized_json_size_bounded_exact [of 2 "\<lparr>ser_chunks = [''ab'', ''c''], ser_error = None\<rparr>"]
  by (simp add: ser_size_def usize_max_def)

text \<open>
  C36. The lexical preflight accepts a text exactly when no prefix of it nests brackets outside
  strings deeper than the maximum.
\<close>

theorem check_container_depth_iff:
  assumes "maximum \<le> usize_max"
  shows "check_container_depth bytes maximum \<longleftrightarrow>
    (\<forall>p. prefix p bytes \<longrightarrow> sc_depth (foldl scan_free scan_start p) \<le> maximum)"
  using scan_bytes_free [OF assms, of scan_start bytes] by (simp add: check_container_depth_def)

theorem check_container_depth_iff_witness:
  "\<not> check_container_depth ''[[]]'' 1 \<and>
   \<not> (\<forall>p. prefix p ''[[]]'' \<longrightarrow> sc_depth (foldl scan_free scan_start p) \<le> 1)"
  using check_container_depth_iff [of 1 "''[[]]''"]
  by (simp add: check_container_depth_def scan_byte_def usize_checked_add_def usize_max_def)

end
