(* ===== verification/Model_Types.thy ===== *)
theory Model_Types
  imports Errors Json_Bounds
begin

text \<open>
  The provider-neutral data model: messages and model events (\<open>model.rs\<close>), capabilities and
  permission decisions (\<open>permission.rs\<close>), tool descriptions, prepared calls and execution
  results (\<open>tool.rs\<close>), turn events (\<open>event.rs\<close>) and the durable session record
  (\<open>session.rs\<close>), all under \<open>crates/machine-god-core/src/\<close>.

  A tool is a trait object: code the host supplies. The model keeps the identity of its
  allocation (\<open>tool_ref\<close>); what the object does is a parameter of the operations that call
  it. The same holds for the captured registrations of turn-local tools, which the source
  compares with \<open>Arc::ptr_eq\<close>.
\<close>

section \<open>Messages\<close>

datatype role = System | User | Assistant | ToolRole

record tool_call =
  tc_id :: tool_call_id
  tc_name :: tool_name
  tc_arguments :: json

record tool_output =
  to_content :: json
  to_is_error :: bool

datatype content_block =
    Text string
  | Json json
  | ToolCall tool_call
  | ToolResult tool_call_id tool_output

record message =
  m_role :: role
  m_content :: "content_block list"

definition message_text :: "role \<Rightarrow> string \<Rightarrow> message" where
  "message_text r t = \<lparr>m_role = r, m_content = [Text t]\<rparr>"

type_synonym metadata = "(string, json) btree"

text \<open>A temperature is kept as its IEEE bit pattern: the engine only forwards it.\<close>

record inference_options =
  io_model :: "string option"
  io_max_output_tokens :: "32 word option"
  io_temperature :: "32 word option"
  io_metadata :: metadata

record tool_spec =
  ts_name :: tool_name
  ts_description :: string
  ts_input_schema :: json

record model_request =
  mr_session_id :: session_id
  mr_session_incarnation_id :: session_incarnation_id
  mr_turn_id :: turn_id
  mr_messages :: "message list"
  mr_tools :: "tool_spec list"
  mr_options :: inference_options

datatype stop_reason =
    StopCompleted | StopToolCalls | StopMaxOutputTokens | StopContentFilter | StopCancelled
  | StopOther string

record token_usage =
  tu_input_tokens :: u64
  tu_output_tokens :: u64
  tu_cached_input_tokens :: u64

definition usage_default :: token_usage where
  "usage_default = \<lparr>tu_input_tokens = 0, tu_output_tokens = 0, tu_cached_input_tokens = 0\<rparr>"

datatype model_event =
    TextDelta string
  | ReasoningDelta string
  | ModelToolCall tool_call
  | Usage token_usage
  | Stop stop_reason

section \<open>Permissions\<close>

datatype filesystem_access =
    FsRead | FsMetadata | FsWrite | FsEdit | FsCreate | FsDelete | FsEnumerate
  | FsEnumerateRecursive | FsSearchContent

record network_target =
  nt_scheme :: string
  nt_host :: string
  nt_port :: "16 word option"

record process_environment =
  pe_profile :: string
  pe_sha256 :: string

datatype process_input = InputNull | InputPipe

datatype capability =
    CapTool tool_name tool_call_id json
  | CapFilesystem filesystem_access string
  | CapFilesystemRename string string
  | CapFilesystemCopy string string
  | CapOpenFile string
  | CapProcess string "string list" string process_environment process_input
  | CapNetwork network_target
  | CapVision "string list" network_target
  | CapCustom string json

datatype permission_risk = RiskLow | RiskMedium | RiskHigh | RiskCritical

record permission_request =
  pr_id :: permission_request_id
  pr_session_id :: session_id
  pr_session_incarnation_id :: session_incarnation_id
  pr_turn_id :: turn_id
  pr_capability :: capability
  pr_risk :: permission_risk
  pr_reason :: string

datatype permission_grant_scope = GrantOnce | GrantTurn | GrantSession

datatype permission_decision = Allow permission_grant_scope | Deny string

text \<open>An authorization may carry a one-shot execution admission, named by its allocation.\<close>

record permission_authorization =
  pa_decision :: permission_decision
  pa_admission :: "nat option"

definition authorization_new :: "permission_decision \<Rightarrow> permission_authorization" where
  "authorization_new d = \<lparr>pa_decision = d, pa_admission = None\<rparr>"

definition with_admission :: "permission_authorization \<Rightarrow> nat \<Rightarrow> permission_authorization" where
  "with_admission a adm = a\<lparr>pa_admission := Some adm\<rparr>"

text \<open>The default \<open>authorize_invocation\<close>: the decision of \<open>authorize\<close>, without a guard.\<close>

definition default_authorize_invocation ::
  "(permission_error, permission_decision) result \<Rightarrow> (permission_error, permission_authorization) result" where
  "default_authorize_invocation r = bind_res r (\<lambda>d. Inr (authorization_new d))"

section \<open>Tools\<close>

type_synonym tool_ref = nat

record tool_context =
  tctx_session_id :: session_id
  tctx_session_incarnation_id :: session_incarnation_id
  tctx_turn_id :: turn_id
  tctx_call_id :: tool_call_id

datatype tool_execution_cancellation = Cancellable | CompletionWinsAfterFirstPoll

datatype prepared_tool_authorization = PermissionRequired capability | NoAuthorityRequired

record prepared_tool_call =
  pt_authorization :: prepared_tool_authorization
  pt_arguments :: json
  pt_execution_cancellation :: tool_execution_cancellation

definition prepared_new :: "capability \<Rightarrow> json \<Rightarrow> prepared_tool_call" where
  "prepared_new cap args =
     \<lparr>pt_authorization = PermissionRequired cap, pt_arguments = args,
      pt_execution_cancellation = Cancellable\<rparr>"

definition prepared_without_authority :: "json \<Rightarrow> prepared_tool_call" where
  "prepared_without_authority args =
     \<lparr>pt_authorization = NoAuthorityRequired, pt_arguments = args,
      pt_execution_cancellation = Cancellable\<rparr>"

definition completion_wins_after_first_poll :: "prepared_tool_call \<Rightarrow> prepared_tool_call" where
  "completion_wins_after_first_poll p =
     p\<lparr>pt_execution_cancellation := CompletionWinsAfterFirstPoll\<rparr>"

definition require_tool_permission ::
  "prepared_tool_call \<Rightarrow> tool_name \<Rightarrow> tool_call_id \<Rightarrow> prepared_tool_call" where
  "require_tool_permission p name call_id =
     (case pt_authorization p of
        NoAuthorityRequired \<Rightarrow>
          p\<lparr>pt_authorization := PermissionRequired (CapTool name call_id (pt_arguments p))\<rparr>
      | PermissionRequired _ \<Rightarrow> p)"

definition prepared_capability :: "prepared_tool_call \<Rightarrow> capability option" where
  "prepared_capability p =
     (case pt_authorization p of PermissionRequired c \<Rightarrow> Some c | NoAuthorityRequired \<Rightarrow> None)"

text \<open>The default \<open>Tool::prepare\<close>: the policy sees the call itself.\<close>

definition default_prepare :: "tool_call \<Rightarrow> (tool_error, prepared_tool_call) result" where
  "default_prepare call =
     Inr (prepared_new (CapTool (tc_name call) (tc_id call) (tc_arguments call)) (tc_arguments call))"

text \<open>Dropping a prepared call takes these JSON trees apart iteratively.\<close>

definition capability_json_value :: "capability \<Rightarrow> json option" where
  "capability_json_value c =
     (case c of CapTool _ _ arguments \<Rightarrow> Some arguments | CapCustom _ details \<Rightarrow> Some details | _ \<Rightarrow> None)"

definition prepared_drop :: "prepared_tool_call \<Rightarrow> json list" where
  "prepared_drop p =
     (case pt_authorization p of
        PermissionRequired cap \<Rightarrow>
          (case capability_json_value cap of None \<Rightarrow> [] | Some v \<Rightarrow> drop_json_value_iterative v)
      | NoAuthorityRequired \<Rightarrow> []) @ drop_json_value_iterative (pt_arguments p)"

definition tool_output_success :: "json \<Rightarrow> tool_output" where
  "tool_output_success content = \<lparr>to_content = content, to_is_error = False\<rparr>"

record turn_tool_registration =
  reg_ptr :: nat
  reg_spec :: tool_spec
  reg_tool :: tool_ref

record tool_execution =
  te_output :: tool_output
  te_persisted_output :: "tool_output option"
  te_next_round_tool :: "turn_tool_registration option"
  te_finish_turn :: bool

definition execution_output :: "tool_output \<Rightarrow> tool_execution" where
  "execution_output out = \<lparr>te_output = out, te_persisted_output = None,
     te_next_round_tool = None, te_finish_turn = False\<rparr>"

definition execution_with_next_round_tool ::
  "tool_output \<Rightarrow> turn_tool_registration \<Rightarrow> tool_execution" where
  "execution_with_next_round_tool out reg = \<lparr>te_output = out, te_persisted_output = None,
     te_next_round_tool = Some reg, te_finish_turn = False\<rparr>"

definition execution_with_persisted_output :: "tool_output \<Rightarrow> tool_output \<Rightarrow> tool_execution" where
  "execution_with_persisted_output out persisted = \<lparr>te_output = out,
     te_persisted_output = Some persisted, te_next_round_tool = None, te_finish_turn = False\<rparr>"

definition execution_finish_turn :: "tool_execution \<Rightarrow> tool_execution" where
  "execution_finish_turn e = e\<lparr>te_finish_turn := True\<rparr>"

record tool_output_limits =
  tol_max_serialized_bytes :: usize
  tol_max_json_nodes :: usize

record tool_input_limits =
  til_max_argument_bytes :: usize
  til_max_argument_nodes :: usize
  til_max_prepared_argument_bytes :: usize
  til_max_prepared_argument_nodes :: usize

text \<open>The default \<open>execute_for_turn\<close> wraps an ordinary result.\<close>

definition default_execute_for_turn ::
  "(tool_error, tool_output) result \<Rightarrow> (tool_error, tool_execution) result" where
  "default_execute_for_turn r = bind_res r (\<lambda>out. Inr (execution_output out))"

section \<open>Turn events\<close>

datatype turn_event =
    Started
  | Model model_event
  | PermissionRequested permission_request
  | PermissionResolved permission_request_id permission_decision
  | ToolStarted tool_call
  | ToolDenied tool_call_id tool_name
  | ToolFinished tool_call_id tool_output
  | Completed stop_reason token_usage
  | Failed string string string bool

record engine_event =
  ev_session_id :: session_id
  ev_session_incarnation_id :: session_incarnation_id
  ev_turn_id :: turn_id
  ev_sequence :: u64
  ev_payload :: turn_event

definition failure_into_event :: "turn_failure \<Rightarrow> turn_event" where
  "failure_into_event f = Failed (tf_component f) (tf_code f) (tf_message f) (tf_retryable f)"

section \<open>The durable session record\<close>

record session_record =
  sr_id :: session_id
  sr_incarnation_id :: session_incarnation_id
  sr_revision :: u64
  sr_next_turn_sequence :: u64
  sr_messages :: "message list"
  sr_metadata :: metadata

definition initial_turn_sequence :: u64 where
  "initial_turn_sequence = 1"

definition session_record_empty :: "session_id \<Rightarrow> session_incarnation_id \<Rightarrow> session_record" where
  "session_record_empty i inc = \<lparr>sr_id = i, sr_incarnation_id = inc, sr_revision = 0,
     sr_next_turn_sequence = initial_turn_sequence, sr_messages = [], sr_metadata = []\<rparr>"

record prompt =
  p_text :: string
  p_options :: inference_options

section \<open>Draining owned JSON\<close>

text \<open>
  \<open>JsonOwnerGuard\<close> empties a value it still owns before it is dropped, so that no
  recursive destructor sees an unchecked tree. Each instance of \<open>DrainJsonValues\<close> returns
  the emptied value and the trees it took apart; \<open>mem::take\<close> leaves \<open>null\<close>, and
  an emptied map leaves no entry.
\<close>

definition drain_metadata :: "metadata \<Rightarrow> metadata \<times> json list" where
  "drain_metadata m = ([], bt_values m)"

definition drain_options :: "inference_options \<Rightarrow> inference_options \<times> json list" where
  "drain_options opts = (opts\<lparr>io_metadata := []\<rparr>, bt_values (io_metadata opts))"

definition drain_prompt :: "prompt \<Rightarrow> prompt \<times> json list" where
  "drain_prompt p = (case drain_options (p_options p) of (opts, vs) \<Rightarrow> (p\<lparr>p_options := opts\<rparr>, vs))"

fun drain_block :: "content_block \<Rightarrow> content_block \<times> json list" where
  "drain_block (Json v) = (Json JNull, [v])"
| "drain_block (ToolCall c) = (ToolCall (c\<lparr>tc_arguments := JNull\<rparr>), [tc_arguments c])"
| "drain_block (ToolResult i out) = (ToolResult i (out\<lparr>to_content := JNull\<rparr>), [to_content out])"
| "drain_block (Text t) = (Text t, [])"

definition drain_message :: "message \<Rightarrow> message \<times> json list" where
  "drain_message m =
     (m\<lparr>m_content := map (fst \<circ> drain_block) (m_content m)\<rparr>,
      concat (map (snd \<circ> drain_block) (m_content m)))"

definition drain_session_record :: "session_record \<Rightarrow> session_record \<times> json list" where
  "drain_session_record r =
     (r\<lparr>sr_metadata := [], sr_messages := map (fst \<circ> drain_message) (sr_messages r)\<rparr>,
      bt_values (sr_metadata r) @ concat (map (snd \<circ> drain_message) (sr_messages r)))"

definition drain_model_event :: "model_event \<Rightarrow> model_event \<times> json list" where
  "drain_model_event e =
     (case e of ModelToolCall c \<Rightarrow> (ModelToolCall (c\<lparr>tc_arguments := JNull\<rparr>), [tc_arguments c])
      | _ \<Rightarrow> (e, []))"

definition drain_tool_output :: "tool_output \<Rightarrow> tool_output \<times> json list" where
  "drain_tool_output out = (out\<lparr>to_content := JNull\<rparr>, [to_content out])"

definition drain_tool_execution :: "tool_execution \<Rightarrow> tool_execution \<times> json list" where
  "drain_tool_execution e =
     (e\<lparr>te_output := (te_output e)\<lparr>to_content := JNull\<rparr>,
        te_persisted_output := map_option (\<lambda>out. out\<lparr>to_content := JNull\<rparr>) (te_persisted_output e)\<rparr>,
      to_content (te_output e) #
      (case te_persisted_output e of None \<Rightarrow> [] | Some out \<Rightarrow> [to_content out]))"

section \<open>The JSON trees a value owns\<close>

text \<open>The values the record validator visits, in its order.\<close>

fun block_roots :: "content_block \<Rightarrow> json list" where
  "block_roots (Json v) = [v]"
| "block_roots (ToolCall c) = [tc_arguments c]"
| "block_roots (ToolResult i out) = [to_content out]"
| "block_roots (Text t) = []"

definition message_roots :: "message \<Rightarrow> json list" where
  "message_roots m = concat (map block_roots (m_content m))"

definition record_roots :: "session_record \<Rightarrow> json list" where
  "record_roots r = bt_values (sr_metadata r) @ concat (map message_roots (sr_messages r))"

lemma drain_block_roots:
  "snd (drain_block b) = block_roots b" "set (block_roots (fst (drain_block b))) \<subseteq> {JNull}"
  by (cases b; simp)+

lemma drain_message_roots:
  "snd (drain_message m) = message_roots m" "set (message_roots (fst (drain_message m))) \<subseteq> {JNull}"
  using drain_block_roots(2)
  by (auto simp: drain_message_def message_roots_def drain_block_roots(1) comp_def)

lemma drain_session_record_roots:
  "snd (drain_session_record r) = record_roots r"
  "set (record_roots (fst (drain_session_record r))) \<subseteq> {JNull}"
  using drain_message_roots(2)
  by (auto simp: drain_session_record_def record_roots_def drain_message_roots(1) comp_def bt_values_def)

lemma prepared_capability_require:
  "prepared_capability (require_tool_permission p name call_id) =
     (case prepared_capability p of
        None \<Rightarrow> Some (CapTool name call_id (pt_arguments p)) | Some c \<Rightarrow> Some c)"
  by (simp add: prepared_capability_def require_tool_permission_def
      split: prepared_tool_authorization.splits)

end
