(* ===== verification/Engine_Limits.thy ===== *)
theory Engine_Limits
  imports Model_Types
begin

text \<open>
  Resource bounds (\<open>EngineLimits\<close> in \<open>engine.rs\<close>) and the pure checks of a turn
  (\<open>session.rs\<close>): validation of arguments, prepared calls, results, transcripts and
  records, token accounting, truncation of denial reasons, and the identity of permission
  requests.

  Two third-party functions are parameters: the serializer (\<open>serializer\<close>, the bytes
  \<open>serde_json\<close> writes for a value) and SHA-256 (\<open>sha256\<close>).
\<close>

section \<open>Limits\<close>

record engine_limits =
  max_model_rounds :: usize
  max_model_events_per_turn :: usize
  max_tool_calls_per_turn :: usize
  max_tool_calls_per_round :: usize
  max_json_depth :: usize
  max_json_nodes :: usize
  max_assistant_text_bytes :: usize
  max_reasoning_bytes :: usize
  max_stop_detail_bytes :: usize
  max_prompt_bytes :: usize
  max_session_metadata_bytes :: usize
  max_inference_options_bytes :: usize
  max_transcript_messages :: usize
  max_transcript_bytes :: usize
  max_tool_catalog_bytes :: usize
  max_tool_argument_bytes :: usize
  max_cumulative_complete_tool_argument_bytes :: usize
  max_cumulative_complete_tool_argument_nodes :: usize
  max_serialized_tool_result_bytes :: usize
  max_cumulative_tool_result_bytes :: usize
  max_cumulative_complete_tool_result_bytes :: usize
  max_permission_denial_reason_bytes :: usize

definition limits_default :: engine_limits where
  "limits_default = \<lparr>
     max_model_rounds = 8,
     max_model_events_per_turn = 4096,
     max_tool_calls_per_turn = 16,
     max_tool_calls_per_round = 4,
     max_json_depth = MAX_SAFE_JSON_DEPTH,
     max_json_nodes = 65536,
     max_assistant_text_bytes = 1024 * 1024,
     max_reasoning_bytes = 1024 * 1024,
     max_stop_detail_bytes = 1024,
     max_prompt_bytes = 256 * 1024,
     max_session_metadata_bytes = 256 * 1024,
     max_inference_options_bytes = 64 * 1024,
     max_transcript_messages = 4096,
     max_transcript_bytes = 8 * 1024 * 1024,
     max_tool_catalog_bytes = 1024 * 1024,
     max_tool_argument_bytes = 64 * 1024,
     max_cumulative_complete_tool_argument_bytes = 256 * 1024,
     max_cumulative_complete_tool_argument_nodes = 65536,
     max_serialized_tool_result_bytes = 64 * 1024,
     max_cumulative_tool_result_bytes = 256 * 1024,
     max_cumulative_complete_tool_result_bytes = 256 * 1024,
     max_permission_denial_reason_bytes = 4 * 1024\<rparr>"

text \<open>Every field is a \<open>NonZeroUsize\<close>; the checks below use that it fits \<open>usize\<close>.\<close>

definition limits_wf :: "engine_limits \<Rightarrow> bool" where
  "limits_wf l \<longleftrightarrow> list_all (\<lambda>f. 0 < f l \<and> f l \<le> usize_max)
     [max_model_rounds, max_model_events_per_turn, max_tool_calls_per_turn,
      max_tool_calls_per_round, max_json_depth, max_json_nodes, max_assistant_text_bytes,
      max_reasoning_bytes, max_stop_detail_bytes, max_prompt_bytes, max_session_metadata_bytes,
      max_inference_options_bytes, max_transcript_messages, max_transcript_bytes,
      max_tool_catalog_bytes, max_tool_argument_bytes,
      max_cumulative_complete_tool_argument_bytes, max_cumulative_complete_tool_argument_nodes,
      max_serialized_tool_result_bytes, max_cumulative_tool_result_bytes,
      max_cumulative_complete_tool_result_bytes, max_permission_denial_reason_bytes]"

definition budget_of_limits :: "engine_limits \<Rightarrow> json_validation_budget" where
  "budget_of_limits l = budget_new (max_json_nodes l) (max_json_depth l)"

section \<open>Failures of the pure checks\<close>

definition fail_json_depth :: turn_failure where
  "fail_json_depth = failure_limit ''json_depth_limit''
     ''JSON value exceeded the configured container depth limit''"

definition fail_json_nodes :: turn_failure where
  "fail_json_nodes = failure_limit ''json_node_limit''
     ''JSON values exceeded the configured node limit''"

definition json_limit_failure :: "json_limit_violation \<Rightarrow> turn_failure" where
  "json_limit_failure v = (case v of Depth \<Rightarrow> fail_json_depth | Nodes \<Rightarrow> fail_json_nodes)"

definition fail_argument_serialization :: turn_failure where
  "fail_argument_serialization = failure_protocol ''tool_argument_serialization''
     ''tool arguments could not be serialized''"

definition fail_argument_size :: turn_failure where
  "fail_argument_size = failure_limit ''tool_argument_size_limit''
     ''tool arguments exceeded the configured serialized size limit''"

definition fail_prepared_serialization :: "serialize_error \<Rightarrow> turn_failure" where
  "fail_prepared_serialization e = failure_protocol ''tool_argument_serialization''
     (''prepared tool arguments could not be serialized: '' @ display_serialize_error e)"

definition fail_prepared_size :: turn_failure where
  "fail_prepared_size = failure_limit ''tool_argument_size_limit''
     ''prepared tool arguments exceeded the configured serialized size limit''"

definition fail_capability_serialization :: "serialize_error \<Rightarrow> turn_failure" where
  "fail_capability_serialization e = failure_protocol ''tool_argument_serialization''
     (''prepared tool capability could not be serialized: '' @ display_serialize_error e)"

definition fail_capability_size :: turn_failure where
  "fail_capability_size = failure_limit ''tool_argument_size_limit''
     ''prepared tool capability exceeded the configured serialized size limit''"

definition fail_transcript_messages :: turn_failure where
  "fail_transcript_messages = failure_limit ''transcript_message_limit''
     ''transcript exceeded the configured message limit''"

definition fail_transcript_serialization :: turn_failure where
  "fail_transcript_serialization = failure_protocol ''transcript_serialization''
     ''transcript could not be serialized''"

definition fail_transcript_size :: turn_failure where
  "fail_transcript_size = failure_limit ''transcript_size_limit''
     ''transcript exceeded the configured serialized byte limit''"

definition fail_metadata_serialization :: turn_failure where
  "fail_metadata_serialization = failure_protocol ''session_metadata_serialization''
     ''session metadata could not be serialized''"

definition fail_metadata_size :: turn_failure where
  "fail_metadata_size = failure_limit ''session_metadata_size_limit''
     ''session metadata exceeded the configured serialized byte limit''"

definition fail_options_serialization :: turn_failure where
  "fail_options_serialization = failure_protocol ''inference_options_serialization''
     ''inference options could not be serialized''"

definition fail_options_size :: turn_failure where
  "fail_options_size = failure_limit ''inference_options_size_limit''
     ''inference options exceeded the configured serialized byte limit''"

definition fail_complete_not_enabled :: turn_failure where
  "fail_complete_not_enabled = failure_protocol ''complete_tool_result_not_enabled''
     ''tool returned a durable representation without complete-output admission''"

definition fail_complete_status :: turn_failure where
  "fail_complete_status = failure_protocol ''complete_tool_result_status_mismatch''
     ''complete and persisted tool results disagree on error status''"

definition fail_complete_serialization :: "serialize_error \<Rightarrow> turn_failure" where
  "fail_complete_serialization e = failure_protocol ''tool_result_serialization''
     (''complete tool result could not be serialized: '' @ display_serialize_error e)"

definition fail_complete_size :: turn_failure where
  "fail_complete_size = failure_limit ''complete_tool_result_size_limit''
     ''complete tool result exceeded its explicit serialized size limit''"

definition fail_cumulative_complete_size :: turn_failure where
  "fail_cumulative_complete_size = failure_limit ''cumulative_complete_tool_result_size_limit''
     ''turn exceeded the complete tool result size limit''"

definition fail_tool_stop_without_calls :: turn_failure where
  "fail_tool_stop_without_calls = failure_protocol ''tool_stop_without_calls''
     ''tool-calls stop requires at least one tool call''"

definition fail_calls_with_incompatible_stop :: turn_failure where
  "fail_calls_with_incompatible_stop = failure_protocol ''calls_with_incompatible_stop''
     ''tool calls require a tool-calls stop reason''"

definition fail_stop_detail :: turn_failure where
  "fail_stop_detail = failure_limit ''stop_detail_size_limit''
     ''provider stop detail exceeded the configured byte limit''"

definition fail_usage_input :: turn_failure where
  "fail_usage_input = failure_protocol ''usage_overflow'' ''input token usage overflowed''"

definition fail_usage_output :: turn_failure where
  "fail_usage_output = failure_protocol ''usage_overflow'' ''output token usage overflowed''"

definition fail_usage_cached :: turn_failure where
  "fail_usage_cached = failure_protocol ''usage_overflow'' ''cached input token usage overflowed''"

section \<open>What is serialized\<close>

datatype serializable =
    SerValue json
  | SerMessages "message list"
  | SerMetadata metadata
  | SerOptions inference_options
  | SerToolOutput tool_output
  | SerCapability capability
  | SerCatalog "tool_spec list"

type_synonym serializer = "serializable \<Rightarrow> serialization"

text \<open>A size check with its two error values: the serializer failed, or the limit is exceeded.\<close>

definition check_size ::
  "serializer \<Rightarrow> serializable \<Rightarrow> usize \<Rightarrow> (serialize_error \<Rightarrow> turn_failure) \<Rightarrow> turn_failure \<Rightarrow>
   (turn_failure, usize) result" where
  "check_size ser v limit failed exceeded =
     bind_res (map_err failed (serialized_json_size_bounded (ser v) limit)) (ok_or exceeded)"

section \<open>Checks on arguments and prepared calls\<close>

definition validate_json_value :: "json \<Rightarrow> engine_limits \<Rightarrow> (turn_failure, unit) result" where
  "validate_json_value v l =
     map_err json_limit_failure (validate_json_roots (max_json_nodes l) (max_json_depth l) [v])"

definition validate_tool_arguments ::
  "serializer \<Rightarrow> json \<Rightarrow> engine_limits \<Rightarrow> (turn_failure, usize \<times> usize) result" where
  "validate_tool_arguments ser args l =
     (case budget_validate (budget_of_limits l) args of
        (Inl e, _) \<Rightarrow> Inl (json_limit_failure e)
      | (Inr _, budget) \<Rightarrow>
          bind_res (check_size ser (SerValue args) (max_tool_argument_bytes l)
              (\<lambda>_. fail_argument_serialization) fail_argument_size)
            (\<lambda>bytes. Inr (bytes, vb_nodes budget)))"

definition add_complete_input_budget ::
  "usize \<Rightarrow> usize \<Rightarrow> usize \<Rightarrow> turn_failure \<Rightarrow> (turn_failure, usize) result" where
  "add_complete_input_budget used added limit e =
     (case usize_checked_add used added of
        None \<Rightarrow> Inl e
      | Some total' \<Rightarrow> if total' \<le> limit then Inr total' else Inl e)"

definition PREPARED_CAPABILITY_ENVELOPE_BYTES :: usize where
  "PREPARED_CAPABILITY_ENVELOPE_BYTES = 1024"

definition prepared_limits :: "engine_limits \<Rightarrow> tool_input_limits option \<Rightarrow> engine_limits" where
  "prepared_limits l input =
     (case input of None \<Rightarrow> l
      | Some i \<Rightarrow> l\<lparr>max_tool_argument_bytes := til_max_prepared_argument_bytes i,
                   max_json_nodes := til_max_prepared_argument_nodes i\<rparr>)"

definition validate_prepared_capability ::
  "serializer \<Rightarrow> capability \<Rightarrow> engine_limits \<Rightarrow> bool \<Rightarrow> (turn_failure, unit) result" where
  "validate_prepared_capability ser cap l explicit_input =
     bind_res (case capability_json_value cap of
                 None \<Rightarrow> Inr () | Some v \<Rightarrow> validate_json_value v l)
       (\<lambda>_. bind_res (check_size ser (SerCapability cap)
              (usize_saturating_add (max_tool_argument_bytes l)
                 (if explicit_input then 0 else PREPARED_CAPABILITY_ENVELOPE_BYTES))
              fail_capability_serialization fail_capability_size)
          (\<lambda>_. Inr ()))"

definition validate_prepared_tool_call ::
  "serializer \<Rightarrow> prepared_tool_call \<Rightarrow> engine_limits \<Rightarrow> tool_input_limits option \<Rightarrow> (turn_failure, unit) result" where
  "validate_prepared_tool_call ser p limits input =
     (let l = prepared_limits limits input in
      bind_res (validate_json_value (pt_arguments p) l)
        (\<lambda>_. bind_res (check_size ser (SerValue (pt_arguments p)) (max_tool_argument_bytes l)
               fail_prepared_serialization fail_prepared_size)
          (\<lambda>_. case pt_authorization p of
                 NoAuthorityRequired \<Rightarrow> Inr ()
               | PermissionRequired cap \<Rightarrow>
                   validate_prepared_capability ser cap l (input \<noteq> None))))"

section \<open>Checks on transcripts, records and options\<close>

definition validate_transcript ::
  "serializer \<Rightarrow> message list \<Rightarrow> engine_limits \<Rightarrow> (turn_failure, unit) result" where
  "validate_transcript ser ms l =
     (if length ms > max_transcript_messages l then Inl fail_transcript_messages
      else bind_res (check_size ser (SerMessages ms) (max_transcript_bytes l)
             (\<lambda>_. fail_transcript_serialization) fail_transcript_size) (\<lambda>_. Inr ()))"

definition validate_record ::
  "serializer \<Rightarrow> session_record \<Rightarrow> engine_limits \<Rightarrow> (turn_failure, unit) result" where
  "validate_record ser r l =
     bind_res (map_err json_limit_failure
                (fst (budget_validate_all (budget_of_limits l) (record_roots r))))
       (\<lambda>_. bind_res (validate_transcript ser (sr_messages r) l)
         (\<lambda>_. bind_res (check_size ser (SerMetadata (sr_metadata r)) (max_session_metadata_bytes l)
                (\<lambda>_. fail_metadata_serialization) fail_metadata_size)
           (\<lambda>_. Inr ())))"

definition validate_record_limits ::
  "serializer \<Rightarrow> session_record \<Rightarrow> engine_limits \<Rightarrow> (engine_error, unit) result" where
  "validate_record_limits ser r l = map_err (\<lambda>f. Protocol (tf_message f)) (validate_record ser r l)"

definition validate_inference_options ::
  "serializer \<Rightarrow> inference_options \<Rightarrow> engine_limits \<Rightarrow> (turn_failure, unit) result" where
  "validate_inference_options ser opts l =
     bind_res (map_err json_limit_failure
                (fst (budget_validate_all (budget_of_limits l) (bt_values (io_metadata opts)))))
       (\<lambda>_. bind_res (check_size ser (SerOptions opts) (max_inference_options_bytes l)
              (\<lambda>_. fail_options_serialization) fail_options_size)
         (\<lambda>_. Inr ()))"

section \<open>Checks on results\<close>

definition unknown_tool_result :: tool_output where
  "unknown_tool_result =
     \<lparr>to_content = JObject [(''code'', JString ''tool_result_unknown''),
                            (''message'', JString ''tool result status is unknown'')],
      to_is_error = True\<rparr>"

definition tool_error_output :: "tool_error \<Rightarrow> tool_output" where
  "tool_error_output e =
     \<lparr>to_content = JObject [(''code'', JString ''tool_error''),
                            (''message'', JString ''tool execution failed''),
                            (''retryable'', JBool (ce_retryable e))],
      to_is_error = True\<rparr>"

definition permission_denied_output :: tool_output where
  "permission_denied_output =
     \<lparr>to_content = JObject [(''code'', JString ''permission_denied''),
                            (''message'', JString ''tool execution was denied by policy'')],
      to_is_error = True\<rparr>"

definition tool_result_message :: "tool_call_id \<Rightarrow> tool_output \<Rightarrow> message" where
  "tool_result_message i out = \<lparr>m_role = ToolRole, m_content = [ToolResult i out]\<rparr>"

definition assistant_message_content :: "string \<Rightarrow> tool_call list \<Rightarrow> content_block list" where
  "assistant_message_content txt calls =
     (if txt = [] then [] else [Text txt]) @ map ToolCall calls"

definition validate_complete_tool_output ::
  "serializer \<Rightarrow> tool_output \<Rightarrow> tool_output \<Rightarrow> tool_output_limits option \<Rightarrow> engine_limits \<Rightarrow> usize \<Rightarrow>
   (turn_failure, usize) result" where
  "validate_complete_tool_output ser complete persisted output_limits l cumulative_bytes =
     bind_res (ok_or fail_complete_not_enabled output_limits) (\<lambda>ol.
     bind_res (guard_res (to_is_error complete = to_is_error persisted) fail_complete_status) (\<lambda>_.
     bind_res (validate_json_value (to_content complete) (l\<lparr>max_json_nodes := tol_max_json_nodes ol\<rparr>)) (\<lambda>_.
     bind_res (check_size ser (SerToolOutput complete) (tol_max_serialized_bytes ol)
         fail_complete_serialization fail_complete_size) (\<lambda>bytes.
     (case usize_checked_add cumulative_bytes bytes of
        None \<Rightarrow> Inl fail_cumulative_complete_size
      | Some total' \<Rightarrow>
          if total' \<le> max_cumulative_complete_tool_result_bytes l then Inr total'
          else Inl fail_cumulative_complete_size)))))"

section \<open>Stop reasons and usage\<close>

definition validate_round_stop :: "tool_call list \<Rightarrow> stop_reason \<Rightarrow> (turn_failure, unit) result" where
  "validate_round_stop calls reason =
     (if calls = [] \<and> reason = StopToolCalls then Inl fail_tool_stop_without_calls
      else if calls \<noteq> [] \<and> reason \<noteq> StopToolCalls then Inl fail_calls_with_incompatible_stop
      else Inr ())"

definition validate_stop_reason :: "stop_reason \<Rightarrow> engine_limits \<Rightarrow> (turn_failure, unit) result" where
  "validate_stop_reason reason l =
     (case reason of
        StopOther detail \<Rightarrow>
          if length detail > max_stop_detail_bytes l then Inl fail_stop_detail else Inr ()
      | _ \<Rightarrow> Inr ())"

definition checked_usage_add :: "token_usage \<Rightarrow> token_usage \<Rightarrow> (turn_failure, token_usage) result" where
  "checked_usage_add a b =
     bind_res (ok_or fail_usage_input (u64_checked_add (tu_input_tokens a) (tu_input_tokens b))) (\<lambda>i.
     bind_res (ok_or fail_usage_output (u64_checked_add (tu_output_tokens a) (tu_output_tokens b))) (\<lambda>out.
     bind_res (ok_or fail_usage_cached (u64_checked_add (tu_cached_input_tokens a) (tu_cached_input_tokens b))) (\<lambda>c.
       Inr \<lparr>tu_input_tokens = i, tu_output_tokens = out, tu_cached_input_tokens = c\<rparr>)))"

section \<open>Truncation at a character boundary\<close>

text \<open>\<open>str::is_char_boundary\<close> on UTF-8 bytes: not in the middle of a multi-byte sequence.\<close>

definition is_continuation_byte :: "char \<Rightarrow> bool" where
  "is_continuation_byte c \<longleftrightarrow> 128 \<le> (of_char c :: nat) \<and> (of_char c :: nat) < 192"

definition is_char_boundary :: "string \<Rightarrow> usize \<Rightarrow> bool" where
  "is_char_boundary txt i \<longleftrightarrow>
     i = 0 \<or> i = length txt \<or> (i < length txt \<and> \<not> is_continuation_byte (txt ! i))"

function boundary_at_or_before :: "string \<Rightarrow> usize \<Rightarrow> usize" where
  "boundary_at_or_before txt i =
     (if is_char_boundary txt i then i else boundary_at_or_before txt (i - 1))"
  by pat_completeness auto

termination
  by (relation "measure snd") (auto simp: is_char_boundary_def)

declare boundary_at_or_before.simps [simp del]

definition bounded_text :: "string \<Rightarrow> usize \<Rightarrow> string" where
  "bounded_text txt max_bytes =
     (if length txt \<le> max_bytes then txt else take (boundary_at_or_before txt max_bytes) txt)"

section \<open>Permission request identity\<close>

definition hex_digit :: "nat \<Rightarrow> char" where
  "hex_digit n = ''0123456789abcdef'' ! n"

definition hex_encode :: "string \<Rightarrow> string" where
  "hex_encode bytes =
     concat (map (\<lambda>b. [hex_digit (of_char b div 16), hex_digit (of_char b mod 16)]) bytes)"

definition u64_to_be_bytes :: "u64 \<Rightarrow> string" where
  "u64_to_be_bytes w = map (\<lambda>i. char_of (unat w div 256 ^ i mod 256)) [7, 6, 5, 4, 3, 2, 1, 0]"

definition hash_component :: "string \<Rightarrow> string" where
  "hash_component c = u64_to_be_bytes (of_nat (length c)) @ c"

definition permission_hash_domain :: string where
  "permission_hash_domain = ''machine-god:permission-request:v2'' @ [CHR 0x00]"

definition permission_hash_input ::
  "session_id \<Rightarrow> session_incarnation_id \<Rightarrow> turn_id \<Rightarrow> usize \<Rightarrow> string" where
  "permission_hash_input sid inc tid ordinal =
     permission_hash_domain @ hash_component (session_id_str sid) @
     hash_component (session_incarnation_id_str inc) @ hash_component (turn_id_str tid) @
     u64_to_be_bytes (of_nat ordinal)"

definition permission_request_id ::
  "(string \<Rightarrow> string) \<Rightarrow> session_id \<Rightarrow> session_incarnation_id \<Rightarrow> turn_id \<Rightarrow> usize \<Rightarrow>
   (turn_failure, permission_request_id) result" where
  "permission_request_id sha256 sid inc tid ordinal =
     map_err (\<lambda>e. failure_protocol ''permission_id'' (display_invalid_id e))
       (permission_request_id_new
          (''permission-sha256-'' @ hex_encode (sha256 (permission_hash_input sid inc tid ordinal))))"

section \<open>What the checks accept\<close>

lemma limits_default_wf: "limits_wf limits_default"
  by (simp add: limits_wf_def limits_default_def usize_max_def MAX_SAFE_JSON_DEPTH_def)

lemma limits_wfD:
  assumes "limits_wf l"
  shows "max_json_nodes l \<le> usize_max" "max_json_depth l \<le> usize_max"
    "max_tool_argument_bytes l \<le> usize_max" "max_transcript_bytes l \<le> usize_max"
    "max_session_metadata_bytes l \<le> usize_max" "max_inference_options_bytes l \<le> usize_max"
    "max_serialized_tool_result_bytes l \<le> usize_max" "max_tool_catalog_bytes l \<le> usize_max"
    "max_cumulative_tool_result_bytes l \<le> usize_max"
  using assms by (simp_all add: limits_wf_def)

definition ser_fits :: "serializer \<Rightarrow> serializable \<Rightarrow> usize \<Rightarrow> bool" where
  "ser_fits ser v limit \<longleftrightarrow> ser_error (ser v) = None \<and> ser_size (ser v) \<le> limit"

definition trees_fit :: "engine_limits \<Rightarrow> json list \<Rightarrow> bool" where
  "trees_fit l vs \<longleftrightarrow> forest_nodes vs \<le> max_json_nodes l \<and> (\<forall>v \<in> set vs. json_depth v \<le> max_json_depth l)"

lemma check_size_Inr:
  assumes "limit \<le> usize_max"
  shows "check_size ser v limit f g = Inr n \<longleftrightarrow> ser_fits ser v limit \<and> n = ser_size (ser v)"
  using assms by (auto simp: check_size_def serialized_size_Some ser_fits_def)

lemma budget_validate_all_Inr:
  assumes "limits_wf l"
  shows "fst (budget_validate_all (budget_of_limits l) vs) = Inr u \<longleftrightarrow> trees_fit l vs"
  using validate_json_roots_Inr [OF limits_wfD(1,2) [OF assms], of vs]
  by (simp add: validate_json_roots_def budget_of_limits_def trees_fit_def)

lemma validate_json_value_Inr:
  assumes "limits_wf l"
  shows "validate_json_value v l = Inr u \<longleftrightarrow> trees_fit l [v]"
  using validate_json_roots_Inr [OF limits_wfD(1,2) [OF assms], of "[v]"]
  by (simp add: validate_json_value_def trees_fit_def)

definition record_fits :: "serializer \<Rightarrow> engine_limits \<Rightarrow> session_record \<Rightarrow> bool" where
  "record_fits ser l r \<longleftrightarrow> trees_fit l (record_roots r)
     \<and> length (sr_messages r) \<le> max_transcript_messages l
     \<and> ser_fits ser (SerMessages (sr_messages r)) (max_transcript_bytes l)
     \<and> ser_fits ser (SerMetadata (sr_metadata r)) (max_session_metadata_bytes l)"

lemma validate_record_Inr:
  assumes "limits_wf l"
  shows "validate_record ser r l = Inr u \<longleftrightarrow> record_fits ser l r"
  using assms
  by (auto simp: validate_record_def budget_validate_all_Inr validate_transcript_def record_fits_def
      check_size_Inr limits_wfD)

lemma validate_record_limits_Inr:
  assumes "limits_wf l"
  shows "validate_record_limits ser r l = Inr u \<longleftrightarrow> record_fits ser l r"
  using assms by (simp add: validate_record_limits_def validate_record_Inr)

lemma validate_tool_arguments_Inr:
  assumes "limits_wf l"
  shows "validate_tool_arguments ser v l = Inr (bytes, nodes) \<longleftrightarrow>
    trees_fit l [v] \<and> ser_fits ser (SerValue v) (max_tool_argument_bytes l)
    \<and> bytes = ser_size (ser (SerValue v)) \<and> nodes = json_nodes v"
proof -
  have "loop_promise (budget_of_limits l) (json_nodes v) (json_depth v \<le> max_json_depth l)
      (budget_validate (budget_of_limits l) v)"
    using budget_validate_promise [of "budget_of_limits l" v] limits_wfD [OF assms]
    by (simp add: budget_of_limits_def budget_new_def)
  then show ?thesis
    using limits_wfD [OF assms]
    by (auto simp: validate_tool_arguments_def loop_promise_def trees_fit_def check_size_Inr
        budget_of_limits_def budget_new_def
        split: prod.splits sum.splits json_limit_violation.splits)
qed

text \<open>
  A prepared call that passes: its arguments and every JSON tree its capability carries are
  within the limits, and so are the serialized arguments and the serialized capability.
\<close>

lemma prepared_limits_depth [simp]: "max_json_depth (prepared_limits l i) = max_json_depth l"
  by (simp add: prepared_limits_def split: option.splits)

lemma validate_prepared_tool_call_sound:
  assumes "limits_wf (prepared_limits l input)" and "validate_prepared_tool_call ser p l input = Inr ()"
  shows "trees_fit (prepared_limits l input) [pt_arguments p]"
    and "ser_fits ser (SerValue (pt_arguments p)) (max_tool_argument_bytes (prepared_limits l input))"
    and "\<And>cap v. prepared_capability p = Some cap \<Longrightarrow> capability_json_value cap = Some v \<Longrightarrow>
           trees_fit (prepared_limits l input) [v]"
  using assms
  by (auto simp: validate_prepared_tool_call_def validate_prepared_capability_def Let_def
      validate_json_value_Inr check_size_Inr limits_wfD prepared_capability_def
      split: prepared_tool_authorization.splits option.splits)

section \<open>Token accounting\<close>

lemma checked_usage_add_Inr:
  "checked_usage_add a b = Inr c \<Longrightarrow>
   unat (tu_input_tokens c) = unat (tu_input_tokens a) + unat (tu_input_tokens b)
   \<and> unat (tu_output_tokens c) = unat (tu_output_tokens a) + unat (tu_output_tokens b)
   \<and> unat (tu_cached_input_tokens c) = unat (tu_cached_input_tokens a) + unat (tu_cached_input_tokens b)"
  by (auto simp: checked_usage_add_def dest!: u64_checked_add_Some)

lemma checked_usage_add_Inl:
  "checked_usage_add a b = Inl e \<Longrightarrow>
   2 ^ 64 \<le> unat (tu_input_tokens a) + unat (tu_input_tokens b)
   \<or> 2 ^ 64 \<le> unat (tu_output_tokens a) + unat (tu_output_tokens b)
   \<or> 2 ^ 64 \<le> unat (tu_cached_input_tokens a) + unat (tu_cached_input_tokens b)"
  by (auto simp: checked_usage_add_def bind_res_Inl_iff u64_checked_add_def split: if_splits)

section \<open>Truncation\<close>

lemma boundary_at_or_before_props:
  "boundary_at_or_before t i \<le> i \<and> is_char_boundary t (boundary_at_or_before t i)
   \<and> (\<forall>j \<le> i. is_char_boundary t j \<longrightarrow> j \<le> boundary_at_or_before t i)"
proof (induction t i rule: boundary_at_or_before.induct)
  case (1 t i)
  show ?case
  proof (cases "is_char_boundary t i")
    case True
    then show ?thesis by (simp add: boundary_at_or_before.simps [of t i])
  next
    case False
    then have IH: "boundary_at_or_before t (i - 1) \<le> i - 1"
        "is_char_boundary t (boundary_at_or_before t (i - 1))"
        "\<forall>j \<le> i - 1. is_char_boundary t j \<longrightarrow> j \<le> boundary_at_or_before t (i - 1)"
      using 1 by blast+
    have "j \<le> i - 1" if "j \<le> i" "is_char_boundary t j" for j
      using that False by (cases "j = i") auto
    with IH False show ?thesis
      by (auto simp: boundary_at_or_before.simps [of t i])
  qed
qed

lemma bounded_text_prefix: "prefix (bounded_text t n) t"
  by (simp add: bounded_text_def take_is_prefix)

lemma bounded_text_length: "length (bounded_text t n) \<le> n"
  using boundary_at_or_before_props [of t n]
  by (auto simp: bounded_text_def intro: le_trans [OF min.cobounded2])

lemma bounded_text_boundary: "is_char_boundary t (length (bounded_text t n))"
  using boundary_at_or_before_props [of t n]
  by (auto simp: bounded_text_def is_char_boundary_def min_def)

lemma bounded_text_longest:
  assumes "j \<le> n" and "is_char_boundary t j"
  shows "j \<le> length (bounded_text t n)"
  using boundary_at_or_before_props [of t n] assms
  by (auto simp: bounded_text_def is_char_boundary_def)

section \<open>Permission request identity\<close>

lemma hex_digit_identifier: "n < 16 \<Longrightarrow> identifier_byte (hex_digit n)"
proof -
  assume "n < 16"
  then have "hex_digit n \<in> set ''0123456789abcdef''"
    unfolding hex_digit_def by (intro nth_mem) simp
  moreover have "list_all identifier_byte ''0123456789abcdef''"
    by (simp add: identifier_byte_def is_ascii_alphanumeric_def is_ascii_digit_def less_eq_char_def)
  ultimately show ?thesis by (simp only: list_all_iff)
qed

lemma hex_encode_identifier: "list_all identifier_byte (hex_encode bs)"
proof (induction bs)
  case (Cons b bs)
  have "of_char b div 16 < (16 :: nat)" using nat_of_char_less_256 [of b] by (simp add: less_mult_imp_div_less)
  then show ?case using Cons by (simp add: hex_encode_def hex_digit_identifier)
qed (simp add: hex_encode_def)

lemma length_hex_encode: "length (hex_encode bs) = 2 * length bs"
  by (induction bs) (simp_all add: hex_encode_def)

lemma permission_prefix_identifier: "list_all identifier_byte ''permission-sha256-''"
  by (simp add: identifier_byte_def is_ascii_alphanumeric_def is_ascii_digit_def less_eq_char_def)

lemma permission_request_id_valid:
  assumes "\<And>x. length (sha256 x) = 32"
  shows "\<exists>v. permission_request_id sha256 sid inc tid n = Inr (PermissionRequestId v) \<and> valid_identifier v"
proof -
  have "valid_identifier (''permission-sha256-'' @ hex_encode (sha256 x))" for x
    using assms [of x] permission_prefix_identifier
    by (simp add: valid_identifier_def length_hex_encode hex_encode_identifier del: append.simps)
  then show ?thesis
    by (simp add: permission_request_id_def id_new_simps del: append.simps)
qed

definition read_be :: "string \<Rightarrow> nat" where
  "read_be bs = foldl (\<lambda>acc b. 256 * acc + of_char b) 0 bs"

lemma be_step: "256 * (n div 256 ^ Suc k) + n div 256 ^ k mod 256 = n div (256 ^ k :: nat)"
  by (simp add: div_mult2_eq mult.commute [of 256])

lemma be_fold:
  "foldl (\<lambda>acc i. 256 * acc + n div 256 ^ i mod 256) (n div 256 ^ k) (rev [0..<k]) = (n :: nat)"
proof (induction k)
  case (Suc k)
  then show ?case by (simp add: be_step del: power_Suc)
qed simp

lemma read_be_u64: "read_be (u64_to_be_bytes w) = unat w"
proof -
  have "unat w < 256 ^ 8" using unat_u64_less [of w] by simp
  then have top: "unat w div 256 ^ 8 = 0" by simp
  have upt: "[7, 6, 5, 4, 3, 2, 1, 0] = rev [0..<8 :: nat]" by (simp add: upt_rec)
  have "read_be (u64_to_be_bytes w) =
      foldl (\<lambda>acc i. 256 * acc + unat w div 256 ^ i mod 256) 0 (rev [0..<8])"
    unfolding read_be_def u64_to_be_bytes_def upt foldl_map by simp
  also have "\<dots> = unat w" using be_fold [of "unat w" 8] top by simp
  finally show ?thesis .
qed

lemma u64_to_be_bytes_inj: "u64_to_be_bytes a = u64_to_be_bytes b \<longleftrightarrow> a = b"
  by (metis read_be_u64 unat_u64_eq)

lemma length_u64_to_be_bytes [simp]: "length (u64_to_be_bytes w) = 8"
  by (simp add: u64_to_be_bytes_def)

lemma of_nat_u64_inj:
  assumes "a < 2 ^ 64" "b < 2 ^ 64" "(of_nat a :: u64) = of_nat b"
  shows "a = b"
proof -
  have "unat (of_nat a :: u64) = unat (of_nat b :: u64)" using assms(3) by simp
  with assms(1,2) show ?thesis by (simp add: unat_of_nat)
qed

text \<open>
  The bytes that are hashed determine the request: each variable-length part is preceded by
  its length, so no two requests share an input.
\<close>

lemma hash_component_inj:
  assumes "hash_component a @ x = hash_component b @ y"
    and "length a < 2 ^ 64" "length b < 2 ^ 64"
  shows "a = b \<and> x = y"
proof -
  from assms(1) have l: "u64_to_be_bytes (of_nat (length a)) = u64_to_be_bytes (of_nat (length b))"
    and r: "a @ x = b @ y"
    by (simp_all add: hash_component_def append_eq_append_conv)
  from l assms(2,3) have "length a = length b"
    by (simp add: u64_to_be_bytes_inj of_nat_u64_inj)
  with r show ?thesis by simp
qed

lemma permission_hash_input_inj:
  assumes "permission_hash_input s i t n = permission_hash_input s' i' t' n'"
    and "valid_identifier (session_id_str s)" "valid_identifier (session_id_str s')"
    and "valid_identifier (session_incarnation_id_str i)" "valid_identifier (session_incarnation_id_str i')"
    and "valid_identifier (turn_id_str t)" "valid_identifier (turn_id_str t')"
    and "n < 2 ^ 64" "n' < 2 ^ 64"
  shows "s = s' \<and> i = i' \<and> t = t' \<and> n = n'"
proof -
  have short: "length x < 2 ^ 64" if "valid_identifier x" for x
    using that by (simp add: valid_identifier_def)
  have "hash_component (session_id_str s) @ hash_component (session_incarnation_id_str i) @
      hash_component (turn_id_str t) @ u64_to_be_bytes (of_nat n) =
    hash_component (session_id_str s') @ hash_component (session_incarnation_id_str i') @
      hash_component (turn_id_str t') @ u64_to_be_bytes (of_nat n')"
    using assms(1) by (simp add: permission_hash_input_def)
  from hash_component_inj [OF this short short] assms
  have s: "session_id_str s = session_id_str s'"
    and r: "hash_component (session_incarnation_id_str i) @
      hash_component (turn_id_str t) @ u64_to_be_bytes (of_nat n) =
      hash_component (session_incarnation_id_str i') @
      hash_component (turn_id_str t') @ u64_to_be_bytes (of_nat n')" by simp_all
  from hash_component_inj [OF r short short] assms
  have i: "session_incarnation_id_str i = session_incarnation_id_str i'"
    and r': "hash_component (turn_id_str t) @ u64_to_be_bytes (of_nat n) =
      hash_component (turn_id_str t') @ u64_to_be_bytes (of_nat n')" by simp_all
  from hash_component_inj [OF r' short short] assms
  have "turn_id_str t = turn_id_str t'" and "n = n'"
    by (simp_all add: u64_to_be_bytes_inj of_nat_u64_inj)
  with s i show ?thesis
    by (simp add: session_id.expand session_incarnation_id.expand turn_id.expand)
qed

section \<open>Properties\<close>

text \<open>
  C37. A session record passes validation exactly when it fits: message and metadata trees within the
  JSON budget of the whole record, the number of messages, the serialized transcript and the
  serialized metadata within their limits.
\<close>

theorem validate_record_iff_fits:
  assumes "limits_wf l"
  shows "(validate_record ser r l = Inr () \<longleftrightarrow> record_fits ser l r)
    \<and> (validate_record_limits ser r l = Inr () \<longleftrightarrow> record_fits ser l r)"
  using assms by (simp add: validate_record_Inr validate_record_limits_Inr)

text \<open>A small record and a serializer that writes one chunk, for concrete instances.\<close>

definition sample_serializer :: serializer where
  "sample_serializer v = \<lparr>ser_chunks = [''x''], ser_error = None\<rparr>"

definition sample_record :: session_record where
  "sample_record = \<lparr>sr_id = SessionId ''s'', sr_incarnation_id = SessionIncarnationId ''i'', sr_revision = 1,
     sr_next_turn_sequence = 1, sr_messages = [message_text User ''hi''], sr_metadata = []\<rparr>"

lemma sample_record_fits: "record_fits sample_serializer limits_default sample_record"
  by (simp add: record_fits_def sample_record_def limits_default_def trees_fit_def record_roots_def
      ser_fits_def sample_serializer_def ser_size_def message_text_def message_roots_def bt_values_def)

theorem validate_record_iff_fits_witness:
  "validate_record sample_serializer sample_record limits_default = Inr ()"
  using validate_record_iff_fits [OF limits_default_wf, of sample_serializer sample_record] sample_record_fits
  by simp



text \<open>
  Token accounting never wraps: the three counters are added exactly, or the addition is refused
  because one of the sums does not fit 64 bits.
\<close>

lemma checked_usage_add_exact:
  "case checked_usage_add a b of
     Inr c \<Rightarrow> unat (tu_input_tokens c) = unat (tu_input_tokens a) + unat (tu_input_tokens b)
       \<and> unat (tu_output_tokens c) = unat (tu_output_tokens a) + unat (tu_output_tokens b)
       \<and> unat (tu_cached_input_tokens c) = unat (tu_cached_input_tokens a) + unat (tu_cached_input_tokens b)
   | Inl _ \<Rightarrow> 2 ^ 64 \<le> unat (tu_input_tokens a) + unat (tu_input_tokens b)
       \<or> 2 ^ 64 \<le> unat (tu_output_tokens a) + unat (tu_output_tokens b)
       \<or> 2 ^ 64 \<le> unat (tu_cached_input_tokens a) + unat (tu_cached_input_tokens b)"
  using checked_usage_add_Inr [of a b] checked_usage_add_Inl [of a b] by (auto split: sum.splits)

text \<open>
  C39. Truncation of host text: the result is the longest prefix of at most the given number of bytes
  that ends on a character boundary.
\<close>

theorem bounded_text_longest_boundary_prefix:
  "prefix (bounded_text t n) t \<and> length (bounded_text t n) \<le> n
   \<and> is_char_boundary t (length (bounded_text t n))
   \<and> (\<forall>j \<le> n. is_char_boundary t j \<longrightarrow> j \<le> length (bounded_text t n))"
  by (simp add: bounded_text_prefix bounded_text_length bounded_text_boundary bounded_text_longest)

theorem bounded_text_longest_boundary_prefix_witness:
  "bounded_text [CHR ''a'', CHR 0xC3, CHR 0xA9] 2 = ''a''"
proof -
  let ?t = "[CHR ''a'', CHR 0xC3, CHR 0xA9]"
  have "length (bounded_text ?t 2) \<le> 2" "prefix (bounded_text ?t 2) ?t"
    "is_char_boundary ?t (length (bounded_text ?t 2))" "1 \<le> length (bounded_text ?t 2)"
    using bounded_text_longest_boundary_prefix [of ?t 2]
    by (auto simp: is_char_boundary_def is_continuation_byte_def)
  moreover have "\<not> is_char_boundary ?t 2" by (simp add: is_char_boundary_def is_continuation_byte_def)
  ultimately have "length (bounded_text ?t 2) = 1" by (cases "length (bounded_text ?t 2) = 2") auto
  with \<open>prefix (bounded_text ?t 2) ?t\<close> show ?thesis
    by (cases "bounded_text ?t 2") (auto simp: prefix_Cons)
qed

lemma hex_digit_inj: "m < 16 \<Longrightarrow> n < 16 \<Longrightarrow> hex_digit m = hex_digit n \<longleftrightarrow> m = n"
proof -
  have "distinct ''0123456789abcdef''" by simp
  moreover assume "m < 16" "n < 16"
  ultimately show ?thesis unfolding hex_digit_def by (subst nth_eq_iff_index_eq) simp_all
qed

lemma hex_encode_inj: "hex_encode xs = hex_encode ys \<Longrightarrow> xs = ys"
proof (induction xs arbitrary: ys)
  case Nil
  then show ?case by (cases ys) (simp_all add: hex_encode_def)
next
  case (Cons x xs)
  then obtain y ys' where ys: "ys = y # ys'" by (cases ys) (simp_all add: hex_encode_def)
  have b: "of_char c div 16 < (16 :: nat)" "of_char c mod 16 < (16 :: nat)" for c :: char
    using nat_of_char_less_256 [of c] by (simp_all add: less_mult_imp_div_less)
  from Cons.prems ys have "of_char x div 16 = (of_char y div 16 :: nat)"
    "of_char x mod 16 = (of_char y mod 16 :: nat)" "hex_encode xs = hex_encode ys'"
    by (simp_all add: hex_encode_def hex_digit_inj b)
  then have "of_char x = (of_char y :: nat)" "xs = ys'" using Cons.IH by (metis div_mult_mod_eq, blast)
  with ys show ?case by simp
qed

text \<open>
  C33. Permission request identifiers: with a 32-byte digest the identifier is always valid, and two
  requests get the same one only if they belong to the same session, incarnation, turn and ordinal,
  or the digest has a collision on the two inputs.
\<close>

theorem permission_request_ids:
  assumes "\<And>x. length (sha256 x) = 32"
    and "valid_identifier (session_id_str s)" "valid_identifier (session_id_str s')"
    and "valid_identifier (session_incarnation_id_str i)" "valid_identifier (session_incarnation_id_str i')"
    and "valid_identifier (turn_id_str t)" "valid_identifier (turn_id_str t')"
    and "n \<le> usize_max" "n' \<le> usize_max"
  shows "(\<exists>v. permission_request_id sha256 s i t n = Inr (PermissionRequestId v) \<and> valid_identifier v)
    \<and> (permission_request_id sha256 s i t n = permission_request_id sha256 s' i' t' n' \<longrightarrow>
        s = s' \<and> i = i' \<and> t = t' \<and> n = n'
        \<or> permission_hash_input s i t n \<noteq> permission_hash_input s' i' t' n'
          \<and> sha256 (permission_hash_input s i t n) = sha256 (permission_hash_input s' i' t' n'))"
proof (intro conjI impI)
  have valid: "\<exists>v. permission_request_id sha256 s i t n = Inr (PermissionRequestId v) \<and> valid_identifier v"
    for s i t n using assms(1) by (rule permission_request_id_valid)
  show "\<exists>v. permission_request_id sha256 s i t n = Inr (PermissionRequestId v) \<and> valid_identifier v"
    by (rule valid)
  assume eq: "permission_request_id sha256 s i t n = permission_request_id sha256 s' i' t' n'"
  have "hex_encode (sha256 (permission_hash_input s i t n)) = hex_encode (sha256 (permission_hash_input s' i' t' n'))"
    using eq valid [of s i t n] valid [of s' i' t' n']
    by (auto simp: permission_request_id_def map_err_def id_new_simps split: sum.splits)
  then have "sha256 (permission_hash_input s i t n) = sha256 (permission_hash_input s' i' t' n')"
    by (rule hex_encode_inj)
  then show "s = s' \<and> i = i' \<and> t = t' \<and> n = n'
        \<or> permission_hash_input s i t n \<noteq> permission_hash_input s' i' t' n'
          \<and> sha256 (permission_hash_input s i t n) = sha256 (permission_hash_input s' i' t' n')"
    using permission_hash_input_inj [of s i t n s' i' t' n'] assms by (auto simp: usize_max_def)
qed

theorem permission_request_ids_witness:
  "\<exists>v. permission_request_id (\<lambda>_. replicate 32 (CHR 0x00)) (SessionId ''s'') (SessionIncarnationId ''i'')
     (TurnId ''turn-1'') 1 = Inr (PermissionRequestId v) \<and> valid_identifier v"
  using permission_request_ids [of "\<lambda>_. replicate 32 (CHR 0x00)" "SessionId ''s''" "SessionId ''s''"
      "SessionIncarnationId ''i''" "SessionIncarnationId ''i''" "TurnId ''turn-1''" "TurnId ''turn-1''" 1 2]
  by (simp add: valid_identifier_def identifier_byte_def is_ascii_alphanumeric_def is_ascii_digit_def
      less_eq_char_def usize_max_def)

end
