(* ===== verification/Session_State.thy ===== *)
theory Session_State
  imports Engine_Limits
begin

text \<open>
  The canonical in-memory session shared by every handle (\<open>SessionState\<close> in
  \<open>session.rs\<close>) and its reconciliation with the store.

  \<^bold>\<open>Sharing.\<close> The record sits behind a mutex, is replaced as a whole and is compared by the
  identity of its \<open>Arc\<close>. Other tasks and threads run between any two lock acquisitions
  and during every await: the model applies \<open>sh_yield\<close>, an arbitrary transformation of the
  shared state, at exactly those points. What the environment may do is the relation
  \<open>canon_step\<close> (and its extension \<open>rely\<close>); that each operation of the session
  itself keeps \<open>canon_step\<close> is proved here, so a system built from these operations meets
  the assumption.

  \<^bold>\<open>Gate.\<close> \<open>ss_deferrals\<close>, \<open>ss_usage\<close> and \<open>ss_terminal\<close> are the fields of
  \<open>EmissionState\<close> through which a running turn talks to its stream.

  \<^bold>\<open>Leases.\<close> The \<open>active_turn\<close> flag is set by a compare-exchange; the model also
  remembers whether the operation under study holds it.

  \<^bold>\<open>Stopping.\<close> A future can be dropped while it is pending: the operation then stops
  with \<open>Dropped\<close> at that point, like an error that nobody sees.
\<close>

section \<open>State\<close>

datatype lease = Free | Mine | Others

text \<open>
  Calls that leave the engine, and the log of what was done with them, in order: a future is
  constructed, polled, and for some calls the accepted answer is recorded.
\<close>

datatype host_call =
    CallSave session_record "u64 option"
  | CallLoad session_id
  | CallStream model_request
  | CallNextItem
  | CallPersistArguments tool_ref tool_context json
  | CallAuthorize permission_request tool_name tool_call_id json
  | CallExecute tool_ref tool_context tool_name json
  | CallEmit turn_event

datatype effect =
    Constructed host_call
  | Polled host_call
  | Saved session_record u64
  | Prepared tool_ref tool_context tool_call prepared_tool_call
  | Authorized permission_request permission_authorization
  | Admitted nat

record 'w sys =
  ss_ptr :: nat
  ss_record :: session_record
  ss_persisted :: bool
  ss_lease :: lease
  ss_reconcile :: bool
  ss_cancelled :: bool
  ss_deferrals :: nat
  ss_usage :: token_usage
  ss_terminal :: bool
  ss_fresh :: nat
  ss_world :: 'w
  ss_log :: "effect list"

text \<open>
  What the host supplies. A future is given by what one poll of it returns (\<open>None\<close> while
  it is pending); \<open>sh_polls\<close> says how often the executor polls the future that is awaited
  before it drops it, so a run observed up to any point is a run of the model.
\<close>

type_synonym ('w, 'a) future = "'w \<Rightarrow> 'a option \<times> 'w"

record 'w store_host =
  sh_yield :: "'w sys \<Rightarrow> 'w sys"
  sh_polls :: "'w \<Rightarrow> nat"
  sh_host_open :: "'w \<Rightarrow> bool"
  sh_load :: "session_id \<Rightarrow> ('w, (session_store_error, session_record option) result) future"
  sh_save :: "session_record \<Rightarrow> u64 option \<Rightarrow> ('w, (session_store_error, u64) result) future"

datatype 'e stop = Dropped | Error 'e

type_synonym ('w, 'a) session_op = "('w sys, engine_error stop, 'a) op"

definition raise :: "'e \<Rightarrow> ('s, 'e stop, 'a) op" where
  "raise e = fail (Error e)"

definition lift_err :: "('e, 'a) result \<Rightarrow> ('s, 'e stop, 'a) op" where
  "lift_err r = lift_res (map_err Error r)"

definition interleave :: "('w, 'z) store_host_scheme \<Rightarrow> ('w sys, 'e, unit) op" where
  "interleave E = modify (sh_yield E)"

definition record_effect :: "effect \<Rightarrow> ('w sys, 'e, unit) op" where
  "record_effect e = modify (\<lambda>s. s\<lparr>ss_log := ss_log s @ [e]\<rparr>)"

section \<open>Validation of loaded and saved records\<close>

definition msg_revision_positive :: string where
  "msg_revision_positive = ''stored session revision must be positive''"

definition msg_sequence_positive :: string where
  "msg_sequence_positive = ''stored next turn sequence must be positive''"

definition msg_stale_revision :: "u64 \<Rightarrow> u64 \<Rightarrow> string" where
  "msg_stale_revision r c = ''session store returned stale revision '' @ show_nat (unat r) @
     '' behind canonical revision '' @ show_nat (unat c)"

definition msg_same_revision :: string where
  "msg_same_revision = ''session store returned different records at the same revision''"

definition msg_load_bound :: string where
  "msg_load_bound = ''session load reconciliation exceeded its retry bound''"

definition msg_save_diverged :: string where
  "msg_save_diverged = ''successful save diverged from canonical record at the same revision''"

definition msg_save_bound :: string where
  "msg_save_bound = ''session save reconciliation exceeded its retry bound''"

definition msg_sequence_regressed :: "u64 \<Rightarrow> u64 \<Rightarrow> string" where
  "msg_sequence_regressed c r = ''session turn sequence regressed from '' @ show_nat (unat c) @
     '' to '' @ show_nat (unat r)"

definition msg_wrong_id :: "session_id \<Rightarrow> session_id \<Rightarrow> string" where
  "msg_wrong_id got want = ''session store returned ID '' @ session_id_str got @
     '' for requested ID '' @ session_id_str want"

definition validate_loaded :: "session_record \<Rightarrow> (engine_error, unit) result" where
  "validate_loaded r =
     (if sr_revision r = 0 then Inl (Protocol msg_revision_positive)
      else if sr_next_turn_sequence r = 0 then Inl (Protocol msg_sequence_positive)
      else Inr ())"

definition validate_sequence_progress ::
  "session_record \<Rightarrow> session_record \<Rightarrow> (engine_error, unit) result" where
  "validate_sequence_progress canonical candidate =
     (if sr_next_turn_sequence candidate < sr_next_turn_sequence canonical
      then Inl (Protocol (msg_sequence_regressed (sr_next_turn_sequence canonical)
             (sr_next_turn_sequence candidate)))
      else Inr ())"

definition validate_record_identity ::
  "session_record \<Rightarrow> session_record \<Rightarrow> (engine_error, unit) result" where
  "validate_record_identity canonical candidate =
     (if sr_id candidate \<noteq> sr_id canonical
      then Inl (Protocol (msg_wrong_id (sr_id candidate) (sr_id canonical)))
      else if sr_incarnation_id candidate \<noteq> sr_incarnation_id canonical
      then Inl SessionIncarnationConflict
      else Inr ())"

section \<open>Snapshots\<close>

text \<open>The observed \<open>Arc\<close>: its identity and the record it points to.\<close>

type_synonym record_arc = "nat \<times> session_record"

definition snapshot :: "('w, 'z) store_host_scheme \<Rightarrow> ('w sys, 'e, record_arc \<times> bool) op" where
  "snapshot E = bindE (interleave E)
     (\<lambda>_. get (\<lambda>s. ((ss_ptr s, ss_record s), ss_persisted s)))"

definition snapshot_is_current ::
  "('w, 'z) store_host_scheme \<Rightarrow> record_arc \<Rightarrow> bool \<Rightarrow> ('w sys, 'e, bool) op" where
  "snapshot_is_current E arc persisted = bindE (interleave E)
     (\<lambda>_. get (\<lambda>s. ss_ptr s = fst arc \<and> ss_persisted s = persisted))"

definition mark_missing_if_current ::
  "('w, 'z) store_host_scheme \<Rightarrow> record_arc \<Rightarrow> bool \<Rightarrow> ('w sys, 'e, unit) op" where
  "mark_missing_if_current E arc persisted = bindE (interleave E)
     (\<lambda>_. modify (\<lambda>s. if ss_ptr s = fst arc \<and> ss_persisted s = persisted
                       then s\<lparr>ss_persisted := False\<rparr> else s))"

text \<open>Storing a newly allocated \<open>Arc\<close> in the shared cell.\<close>

definition install :: "session_record \<Rightarrow> 'w sys \<Rightarrow> 'w sys" where
  "install r s = s\<lparr>ss_record := r, ss_ptr := ss_fresh s, ss_fresh := Suc (ss_fresh s)\<rparr>"

section \<open>Reconciliation\<close>

definition MAX_RECONCILE_RETRIES :: nat where
  "MAX_RECONCILE_RETRIES = 32"

definition publish_loaded ::
  "record_arc \<Rightarrow> session_record \<Rightarrow> ('w sys, 'e, unit flow) op" where
  "publish_loaded arc r s =
     (if ss_ptr s \<noteq> fst arc then (Inr Again, s)
      else (Inr (Done ()),
            (if sr_revision (snd arc) < sr_revision r then install r s else s)\<lparr>ss_persisted := True\<rparr>))"

definition reconcile_loaded_attempt ::
  "('w, 'z) store_host_scheme \<Rightarrow> session_record \<Rightarrow> ('w, unit flow) session_op" where
  "reconcile_loaded_attempt E r =
     bindE (snapshot E) (\<lambda>(arc, _).
       let canonical = snd arc in
       bindE (lift_err (validate_record_identity canonical r)) (\<lambda>_.
       bindE (lift_err (validate_sequence_progress canonical r)) (\<lambda>_.
       if sr_revision r < sr_revision canonical then
         raise (Protocol (msg_stale_revision (sr_revision r) (sr_revision canonical)))
       else if sr_revision r = sr_revision canonical \<and> r \<noteq> canonical then
         raise (Protocol msg_same_revision)
       else bindE (interleave E) (\<lambda>_. publish_loaded arc r))))"

definition reconcile_loaded ::
  "('w, 'z) store_host_scheme \<Rightarrow> session_record \<Rightarrow> ('w, unit) session_op" where
  "reconcile_loaded E r =
     bindE (lift_err (validate_loaded r)) (\<lambda>_.
       retry MAX_RECONCILE_RETRIES (reconcile_loaded_attempt E r) (raise (Protocol msg_load_bound)))"

definition publish_saved ::
  "record_arc \<Rightarrow> session_record \<Rightarrow> ('w sys, 'e, unit flow) op" where
  "publish_saved arc r s =
     (if ss_ptr s \<noteq> fst arc then (Inr Again, s)
      else (Inr (Done ()),
            if sr_revision (snd arc) < sr_revision r then (install r s)\<lparr>ss_persisted := True\<rparr>
            else if sr_revision (snd arc) = sr_revision r then s\<lparr>ss_persisted := True\<rparr>
            else s))"

definition reconcile_saved_attempt ::
  "('w, 'z) store_host_scheme \<Rightarrow> session_record \<Rightarrow> ('w, unit flow) session_op" where
  "reconcile_saved_attempt E r =
     bindE (snapshot E) (\<lambda>(arc, _).
       let canonical = snd arc in
       bindE (lift_err (validate_record_identity canonical r)) (\<lambda>_.
       bindE (lift_err (validate_sequence_progress canonical r)) (\<lambda>_.
       if sr_revision canonical = sr_revision r \<and> canonical \<noteq> r then
         raise (Protocol msg_save_diverged)
       else bindE (interleave E) (\<lambda>_. publish_saved arc r))))"

definition reconcile_saved ::
  "('w, 'z) store_host_scheme \<Rightarrow> session_record \<Rightarrow> ('w, unit) session_op" where
  "reconcile_saved E r =
     retry MAX_RECONCILE_RETRIES (reconcile_saved_attempt E r) (raise (Protocol msg_save_bound))"

section \<open>The turn lease\<close>

definition acquire_lease :: "('w, 'z) store_host_scheme \<Rightarrow> ('w, unit) session_op" where
  "acquire_lease E = bindE (interleave E) (\<lambda>_ s.
     if ss_lease s = Free then (Inr (), s\<lparr>ss_lease := Mine\<rparr>) else (Inl (Error SessionBusy), s))"

definition release_lease :: "'w sys \<Rightarrow> 'w sys" where
  "release_lease s = s\<lparr>ss_lease := Free\<rparr>"

text \<open>A lease that is a local variable is dropped on every exit of the block that owns it.\<close>

definition holding_lease ::
  "('w, 'z) store_host_scheme \<Rightarrow> ('w, 'a) session_op \<Rightarrow> ('w, 'a) session_op" where
  "holding_lease E body =
     bindE (acquire_lease E) (\<lambda>_ s. case body s of (r, t) \<Rightarrow> (r, release_lease t))"

text \<open>A lease that moves into the result is dropped on the error exits only.\<close>

definition lease_on_error :: "('w, 'a) session_op \<Rightarrow> ('w, 'a) session_op" where
  "lease_on_error body s =
     (case body s of (Inl e, t) \<Rightarrow> (Inl e, release_lease t) | (Inr a, t) \<Rightarrow> (Inr a, t))"

definition ensure_open :: "('w, 'z) store_host_scheme \<Rightarrow> ('w, unit) session_op" where
  "ensure_open E = bindE (interleave E) (\<lambda>_ s.
     if sh_host_open E (ss_world s) then (Inr (), s) else (Inl (Error HostClosed), s))"

definition reconcile_loaded_idle ::
  "('w, 'z) store_host_scheme \<Rightarrow> session_record \<Rightarrow> ('w, unit) session_op" where
  "reconcile_loaded_idle E r = holding_lease E (reconcile_loaded E r)"

section \<open>What the environment may do\<close>

text \<open>
  Two states of one session with arbitrary activity in between: the identity is the same, the
  record is the same or has a higher revision, the turn sequence did not decrease, and a new
  record came in a new allocation (so an \<open>Arc\<close> that compares equal holds the same record).
\<close>

definition arc_wf :: "'w sys \<Rightarrow> bool" where
  "arc_wf s \<longleftrightarrow> ss_ptr s < ss_fresh s"

definition canon_step :: "'w sys \<Rightarrow> 'w sys \<Rightarrow> bool" where
  "canon_step s t \<longleftrightarrow> (arc_wf s \<longrightarrow> arc_wf t
     \<and> sr_id (ss_record t) = sr_id (ss_record s)
     \<and> sr_incarnation_id (ss_record t) = sr_incarnation_id (ss_record s)
     \<and> (ss_record t = ss_record s \<or> sr_revision (ss_record s) < sr_revision (ss_record t))
     \<and> sr_next_turn_sequence (ss_record s) \<le> sr_next_turn_sequence (ss_record t)
     \<and> ss_fresh s \<le> ss_fresh t
     \<and> (ss_ptr t = ss_ptr s \<and> ss_record t = ss_record s \<or> ss_fresh s \<le> ss_ptr t))"

text \<open>
  In addition, nobody else touches a lease that is held here, pays off its debts or makes its
  calls, only the turn itself defers cancellation, and a requested cancellation stays requested.
\<close>

definition rely :: "'w sys \<Rightarrow> 'w sys \<Rightarrow> bool" where
  "rely s t \<longleftrightarrow> canon_step s t \<and> (arc_wf s \<longrightarrow>
     (ss_lease s = Mine \<longleftrightarrow> ss_lease t = Mine)
     \<and> (ss_lease s = Mine \<longrightarrow> ss_reconcile s \<longrightarrow> ss_reconcile t)
     \<and> (ss_cancelled s \<longrightarrow> ss_cancelled t)
     \<and> ss_deferrals t = ss_deferrals s
     \<and> ss_log t = ss_log s)"

definition env_canon :: "('w, 'z) store_host_scheme \<Rightarrow> bool" where
  "env_canon E \<longleftrightarrow> (\<forall>s. canon_step s (sh_yield E s))"

definition env_rely :: "('w, 'z) store_host_scheme \<Rightarrow> bool" where
  "env_rely E \<longleftrightarrow> (\<forall>s. rely s (sh_yield E s))"

lemma canon_step_refl: "canon_step s s"
  by (simp add: canon_step_def)

lemma canon_step_trans: "canon_step s t \<Longrightarrow> canon_step t u \<Longrightarrow> canon_step s u"
  by (auto simp: canon_step_def)

interpretation canon: step_relation canon_step
  by unfold_locales (rule canon_step_refl, rule canon_step_trans)

interpretation rel: step_relation rely
proof unfold_locales
  show "rely s s" for s by (simp add: rely_def canon_step_refl)
  show "rely s u" if "rely s t" and "rely t u" for s t u
  proof -
    have "arc_wf s \<Longrightarrow> arc_wf t" using that(1) by (simp add: rely_def canon_step_def)
    with that show ?thesis by (auto simp: rely_def elim: canon_step_trans)
  qed
qed

lemma canon_step_same_ptr:
  "canon_step s t \<Longrightarrow> arc_wf s \<Longrightarrow> ss_ptr t = ss_ptr s \<Longrightarrow> ss_record t = ss_record s"
  by (auto simp: canon_step_def arc_wf_def)

lemma canon_step_arc_wf: "canon_step s t \<Longrightarrow> arc_wf s \<Longrightarrow> arc_wf t"
  by (simp add: canon_step_def)

lemma canon_step_record:
  "arc_wf s \<Longrightarrow> canon_step s t \<Longrightarrow>
   sr_id (ss_record t) = sr_id (ss_record s)
   \<and> sr_incarnation_id (ss_record t) = sr_incarnation_id (ss_record s)
   \<and> sr_revision (ss_record s) \<le> sr_revision (ss_record t)
   \<and> sr_next_turn_sequence (ss_record s) \<le> sr_next_turn_sequence (ss_record t)"
  by (auto simp: canon_step_def)

lemma canon_step_install:
  "sr_id r = sr_id (ss_record s) \<Longrightarrow> sr_incarnation_id r = sr_incarnation_id (ss_record s) \<Longrightarrow>
   sr_revision (ss_record s) < sr_revision r \<Longrightarrow>
   sr_next_turn_sequence (ss_record s) \<le> sr_next_turn_sequence r \<Longrightarrow> canon_step s (install r s)"
  by (simp add: canon_step_def install_def arc_wf_def)

lemma canon_step_frame:
  "ss_ptr t = ss_ptr s \<Longrightarrow> ss_record t = ss_record s \<Longrightarrow> ss_fresh t = ss_fresh s \<Longrightarrow> canon_step s t"
  by (simp add: canon_step_def arc_wf_def)

lemma install_sel [simp]:
  "ss_record (install r s) = r" "ss_persisted (install r s) = ss_persisted s"
  "ss_lease (install r s) = ss_lease s" "ss_reconcile (install r s) = ss_reconcile s"
  "ss_cancelled (install r s) = ss_cancelled s" "ss_deferrals (install r s) = ss_deferrals s"
  "ss_world (install r s) = ss_world s" "ss_log (install r s) = ss_log s"
  by (simp_all add: install_def)

lemma canon_step_persisted [simp]:
  "canon_step s (t\<lparr>ss_persisted := b\<rparr>) = canon_step s t"
  by (simp add: canon_step_def arc_wf_def)

section \<open>Weakest preconditions of the primitives\<close>

lemma wp_raise [simp, wp_simps]: "wp (raise e) Q X s = X (Error e) s"
  by (simp add: raise_def)

lemma wp_lift_err [simp, wp_simps]:
  "wp (lift_err r) Q X s = (case r of Inl e \<Rightarrow> X (Error e) s | Inr a \<Rightarrow> Q a s)"
  by (simp add: lift_err_def map_err_def split: sum.splits)

lemma wp_interleave [simp, wp_simps]: "wp (interleave E) Q X s = Q () (sh_yield E s)"
  by (simp add: interleave_def)

lemma wp_case_prod [simp, wp_simps]:
  "wp (case p of (a, b) \<Rightarrow> f a b) Q X s = wp (f (fst p) (snd p)) Q X s"
  by (simp add: case_prod_beta)

lemma wp_snapshot [simp, wp_simps]:
  "wp (snapshot E) Q X s =
   (let u = sh_yield E s in Q ((ss_ptr u, ss_record u), ss_persisted u) u)"
  by (simp add: snapshot_def Let_def)

lemma wp_snapshot_is_current [simp, wp_simps]:
  "wp (snapshot_is_current E arc p) Q X s =
   (let u = sh_yield E s in Q (ss_ptr u = fst arc \<and> ss_persisted u = p) u)"
  by (simp add: snapshot_is_current_def Let_def)

lemma keeps_wp: "keeps R m \<longleftrightarrow> (\<forall>s. wp m (\<lambda>_. R s) (\<lambda>_. R s) s)"
proof -
  have "wp m (\<lambda>_. R s) (\<lambda>_. R s) s \<longleftrightarrow> R s (snd (m s))" for s
    by (cases "m s"; cases "fst (m s)") (simp_all add: wp_def)
  then show ?thesis by (simp add: keeps_def)
qed

lemma keeps_wpI: "keeps R m \<Longrightarrow> wp m (\<lambda>_. R s) (\<lambda>_. R s) s"
  by (simp add: keeps_wp)

lemma wp_publish_loaded [simp, wp_simps]:
  "wp (publish_loaded arc r) Q X s =
   (if ss_ptr s \<noteq> fst arc then Q Again s
    else Q (Done ())
      ((if sr_revision (snd arc) < sr_revision r then install r s else s)\<lparr>ss_persisted := True\<rparr>))"
  by (simp add: wp_def publish_loaded_def)

lemma wp_publish_saved [simp, wp_simps]:
  "wp (publish_saved arc r) Q X s =
   (if ss_ptr s \<noteq> fst arc then Q Again s
    else Q (Done ())
      (if sr_revision (snd arc) < sr_revision r then (install r s)\<lparr>ss_persisted := True\<rparr>
       else if sr_revision (snd arc) = sr_revision r then s\<lparr>ss_persisted := True\<rparr>
       else s))"
  by (simp add: wp_def publish_saved_def)

lemma validate_loaded_Inr:
  "validate_loaded r = Inr u \<longleftrightarrow> sr_revision r \<noteq> 0 \<and> sr_next_turn_sequence r \<noteq> 0"
  by (simp add: validate_loaded_def)

lemma validate_record_identity_Inr:
  "validate_record_identity c r = Inr u \<longleftrightarrow>
   sr_id r = sr_id c \<and> sr_incarnation_id r = sr_incarnation_id c"
  by (simp add: validate_record_identity_def)

lemma validate_sequence_progress_Inr:
  "validate_sequence_progress c r = Inr u \<longleftrightarrow> sr_next_turn_sequence c \<le> sr_next_turn_sequence r"
  by (auto simp: validate_sequence_progress_def)

lemmas record_checks =
  validate_loaded_Inr validate_record_identity_Inr validate_sequence_progress_Inr

section \<open>Operations under interference\<close>

text \<open>
  A relation \<open>R\<close> that the environment keeps, that implies \<open>canon_step\<close>, and that
  says no more than \<open>canon_step\<close> about steps that touch nothing but the record. The
  lemmas of this locale hold of every such relation: of \<open>canon_step\<close>, of \<open>rely\<close>,
  and of the relation of a running turn.
\<close>

locale session_env = step_relation R
  for R :: "'w sys \<Rightarrow> 'w sys \<Rightarrow> bool" +
  fixes E :: "('w, 'z) store_host_scheme"
  assumes yield: "R s (sh_yield E s)"
    and canon: "R s t \<Longrightarrow> canon_step s t"
    and frame: "canon_step s t \<Longrightarrow> ss_lease t = ss_lease s \<Longrightarrow> ss_reconcile t = ss_reconcile s \<Longrightarrow>
      ss_cancelled t = ss_cancelled s \<Longrightarrow> ss_deferrals t = ss_deferrals s \<Longrightarrow>
      ss_log t = ss_log s \<Longrightarrow> R s t"
    and vacuous: "\<not> arc_wf s \<Longrightarrow> R s t"
begin

lemma keeps_interleave: "keeps R (interleave E)"
  by (simp add: keeps_wp yield)

lemma keeps_snapshot: "keeps R (snapshot E)"
  by (simp add: keeps_wp Let_def yield)

lemma keeps_snapshot_is_current: "keeps R (snapshot_is_current E arc p)"
  by (simp add: keeps_wp Let_def yield)

lemma keeps_raise: "keeps R (raise e)"
  by (simp add: keeps_wp refl)

lemma keeps_lift_err: "keeps R (lift_err r)"
  by (simp add: lift_err_def keeps_lift_res)

lemma keeps_mark_missing: "keeps R (mark_missing_if_current E arc p)"
  unfolding mark_missing_if_current_def
  by (intro keeps_bindE keeps_interleave keeps_modify frame) (simp_all add: canon_step_frame)

lemma publish_step:
  assumes "canon_step u v" and "arc_wf u" and "ss_ptr v = ss_ptr u"
    and "sr_id r = sr_id (ss_record u)" "sr_incarnation_id r = sr_incarnation_id (ss_record u)"
    and "sr_next_turn_sequence (ss_record u) \<le> sr_next_turn_sequence r"
    and "sr_revision (ss_record u) < sr_revision r"
  shows "R v (install r v)"
proof (rule frame)
  from assms(1-3) have "ss_record v = ss_record u" by (metis canon_step_same_ptr)
  then show "canon_step v (install r v)" using assms by (intro canon_step_install) simp_all
qed simp_all

lemma persisted_step: "R v (v\<lparr>ss_persisted := b\<rparr>)"
  by (rule frame) (simp_all add: canon_step_refl)

lemma persisted_step': "R s v \<Longrightarrow> R s (v\<lparr>ss_persisted := b\<rparr>)"
  by (rule trans [OF _ persisted_step])

lemma yield2: "R s (sh_yield E (sh_yield E s))"
  by (rule trans [OF yield yield])

lemma R_arc_wf: "R s t \<Longrightarrow> arc_wf s \<Longrightarrow> arc_wf t"
  by (rule canon_step_arc_wf [OF canon])

lemma wp_reconcile_loaded_attempt:
  assumes "arc_wf s"
  shows "wp (reconcile_loaded_attempt E r)
    (\<lambda>f t. R s t \<and> (f = Again \<or> ss_record t = r \<and> ss_persisted t))
    (\<lambda>e t. R s t \<and> e \<noteq> Dropped) s"
proof -
  define u where "u = sh_yield E s"
  define v where "v = sh_yield E u"
  have uv: "canon_step u v" by (simp add: v_def canon yield)
  have su: "R s u" and sv: "R s v" by (simp_all add: u_def v_def yield yield2)
  have wf: "arc_wf u" using su assms by (rule R_arc_wf)
  have same: "ss_ptr v = ss_ptr u \<Longrightarrow> ss_record v = ss_record u"
    using uv wf by (rule canon_step_same_ptr)
  have new: "R s (install r v)" if "ss_ptr v = ss_ptr u" "sr_id r = sr_id (ss_record u)"
    "sr_incarnation_id r = sr_incarnation_id (ss_record u)"
    "sr_next_turn_sequence (ss_record u) \<le> sr_next_turn_sequence r"
    "sr_revision (ss_record u) < sr_revision r"
    using that by (intro trans [OF sv] publish_step [OF uv wf])
  show ?thesis
    by (auto simp: reconcile_loaded_attempt_def Let_def u_def [symmetric] v_def [symmetric]
        su sv same record_checks intro: new persisted_step' split: sum.splits)
qed

lemma wp_reconcile_saved_attempt:
  assumes "arc_wf s"
  shows "wp (reconcile_saved_attempt E r)
    (\<lambda>f t. R s t \<and> (f = Again \<or> sr_revision r \<le> sr_revision (ss_record t)
       \<and> (sr_revision (ss_record t) = sr_revision r \<longrightarrow> ss_record t = r \<and> ss_persisted t)))
    (\<lambda>e t. R s t \<and> e \<noteq> Dropped) s"
proof -
  define u where "u = sh_yield E s"
  define v where "v = sh_yield E u"
  have uv: "canon_step u v" by (simp add: v_def canon yield)
  have su: "R s u" and sv: "R s v" by (simp_all add: u_def v_def yield yield2)
  have wf: "arc_wf u" using su assms by (rule R_arc_wf)
  have same: "ss_ptr v = ss_ptr u \<Longrightarrow> ss_record v = ss_record u"
    using uv wf by (rule canon_step_same_ptr)
  have new: "R s (install r v)" if "ss_ptr v = ss_ptr u" "sr_id r = sr_id (ss_record u)"
    "sr_incarnation_id r = sr_incarnation_id (ss_record u)"
    "sr_next_turn_sequence (ss_record u) \<le> sr_next_turn_sequence r"
    "sr_revision (ss_record u) < sr_revision r"
    using that by (intro trans [OF sv] publish_step [OF uv wf])
  show ?thesis
    by (auto simp: reconcile_saved_attempt_def Let_def u_def [symmetric] v_def [symmetric]
        su sv same record_checks intro: new persisted_step' split: sum.splits)
qed

lemma wp_reconcile_loaded:
  assumes "arc_wf s"
  shows "wp (reconcile_loaded E r) (\<lambda>_ t. R s t \<and> ss_record t = r \<and> ss_persisted t)
    (\<lambda>e t. R s t \<and> e \<noteq> Dropped) s"
proof -
  have "wp (retry MAX_RECONCILE_RETRIES (reconcile_loaded_attempt E r) (raise (Protocol msg_load_bound)))
    (\<lambda>_ t. R s t \<and> ss_record t = r \<and> ss_persisted t) (\<lambda>e t. R s t \<and> e \<noteq> Dropped) s"
  proof (rule wp_retry [where I = "R s"])
    fix t assume "R s t"
    then show "wp (reconcile_loaded_attempt E r)
      (\<lambda>f u. case f of Again \<Rightarrow> R s u | Done _ \<Rightarrow> R s u \<and> ss_record u = r \<and> ss_persisted u)
      (\<lambda>e u. R s u \<and> e \<noteq> Dropped) t"
      using assms by (intro wp_mono [OF wp_reconcile_loaded_attempt])
        (auto intro: R_arc_wf trans split: flow.splits)
  qed (simp_all add: refl)
  then show ?thesis by (simp add: reconcile_loaded_def refl split: sum.splits)
qed

lemma wp_reconcile_saved:
  assumes "arc_wf s"
  shows "wp (reconcile_saved E r)
    (\<lambda>_ t. R s t \<and> sr_revision r \<le> sr_revision (ss_record t)
       \<and> (sr_revision (ss_record t) = sr_revision r \<longrightarrow> ss_record t = r \<and> ss_persisted t))
    (\<lambda>e t. R s t \<and> e \<noteq> Dropped) s"
  unfolding reconcile_saved_def
proof (rule wp_retry [where I = "R s"])
  fix t assume "R s t"
  then show "wp (reconcile_saved_attempt E r)
    (\<lambda>f u. case f of Again \<Rightarrow> R s u
       | Done _ \<Rightarrow> R s u \<and> sr_revision r \<le> sr_revision (ss_record u)
       \<and> (sr_revision (ss_record u) = sr_revision r \<longrightarrow> ss_record u = r \<and> ss_persisted u))
    (\<lambda>e u. R s u \<and> e \<noteq> Dropped) t"
    using assms by (intro wp_mono [OF wp_reconcile_saved_attempt])
      (auto intro: R_arc_wf trans split: flow.splits)
qed (simp_all add: refl)

lemma keeps_arc_wfI:
  assumes "\<And>s. arc_wf s \<Longrightarrow> wp m (\<lambda>_. R s) (\<lambda>_. R s) s"
  shows "keeps R m"
proof (rule keepsI)
  fix s
  show "R s (snd (m s))"
  proof (cases "arc_wf s")
    case True
    then have "wp m (\<lambda>_. R s) (\<lambda>_. R s) s" by (rule assms)
    then show ?thesis by (simp add: wp_def split: prod.splits sum.splits)
  qed (rule vacuous)
qed

lemma keeps_reconcile_loaded: "keeps R (reconcile_loaded E r)"
  by (rule keeps_arc_wfI, rule wp_mono [OF wp_reconcile_loaded]) auto

lemma keeps_reconcile_saved: "keeps R (reconcile_saved E r)"
  by (rule keeps_arc_wfI, rule wp_mono [OF wp_reconcile_saved]) auto

lemmas keeps_session_rules =
  keeps_rules keeps_interleave keeps_snapshot keeps_snapshot_is_current keeps_raise
  keeps_lift_err keeps_mark_missing keeps_reconcile_loaded keeps_reconcile_saved

end

section \<open>The contract holds of the operations themselves\<close>

lemma session_env_canon:
  assumes "env_canon E"
  shows "session_env canon_step E"
proof unfold_locales
  show "canon_step s (sh_yield E s)" for s using assms by (simp add: env_canon_def)
  show "\<not> arc_wf s \<Longrightarrow> canon_step s t" for s t :: "'a sys" by (simp add: canon_step_def)
qed

lemma session_env_rely:
  assumes "env_rely E"
  shows "session_env rely E"
proof unfold_locales
  show "rely s (sh_yield E s)" for s using assms by (simp add: env_rely_def)
  show "rely s t \<Longrightarrow> canon_step s t" for s t :: "'a sys" by (simp add: rely_def)
  show "\<not> arc_wf s \<Longrightarrow> rely s t" for s t :: "'a sys" by (simp add: rely_def canon_step_def)
qed (simp add: rely_def)

text \<open>
  A host in which another task publishes the record \<open>r\<close> it has loaded, whenever the
  operation under study can be interrupted; \<open>quiet_host\<close> has no other task.
\<close>

definition quiet_host ::
  "('w \<Rightarrow> nat) \<Rightarrow> ('w \<Rightarrow> bool) \<Rightarrow>
   (session_id \<Rightarrow> ('w, (session_store_error, session_record option) result) future) \<Rightarrow>
   (session_record \<Rightarrow> u64 option \<Rightarrow> ('w, (session_store_error, u64) result) future) \<Rightarrow> 'w store_host" where
  "quiet_host polls is_open ld sv =
     \<lparr>sh_yield = (\<lambda>s. s), sh_polls = polls, sh_host_open = is_open, sh_load = ld, sh_save = sv\<rparr>"

definition peer_host ::
  "('w, 'z) store_host_scheme \<Rightarrow> session_record \<Rightarrow> ('w, 'z) store_host_scheme" where
  "peer_host E r = E\<lparr>sh_yield := (\<lambda>s. snd (reconcile_loaded E r s))\<rparr>"

lemma env_rely_quiet: "env_rely (quiet_host polls is_open ld sv)"
  by (simp add: env_rely_def quiet_host_def rel.refl)

lemma env_rely_peer:
  assumes "env_rely E"
  shows "env_rely (peer_host E r)"
  using session_env.keeps_reconcile_loaded [OF session_env_rely [OF assms], of r]
  by (simp add: env_rely_def peer_host_def keeps_def)

lemma env_canon_peer:
  assumes "env_canon E"
  shows "env_canon (peer_host E r)"
  using session_env.keeps_reconcile_loaded [OF session_env_canon [OF assms], of r]
  by (simp add: env_canon_def peer_host_def keeps_def)

interpretation peer: session_env rely "peer_host (quiet_host polls is_open ld sv) r"
  for polls is_open ld sv r
  by (intro session_env_rely env_rely_peer env_rely_quiet)

end
