(* ===== verification/Awaiting.thy ===== *)
theory Awaiting
  imports Session_State
begin

text \<open>
  How the engine awaits the futures of its host (\<open>check_cancelled\<close> to
  \<open>next_model_item\<close> in \<open>session.rs\<close>): a \<open>poll_fn\<close> closure is run once per
  poll, other tasks run in between, and cancellation is looked at before and after a poll.
\<close>

datatype workflow_abort = AbortCancelled | AbortFailed turn_failure

type_synonym ('w, 'a) workflow_op = "('w sys, workflow_abort stop, 'a) op"

definition lift_fail :: "(turn_failure, 'a) result \<Rightarrow> ('s, workflow_abort stop, 'a) op" where
  "lift_fail r = lift_err (map_err AbortFailed r)"

definition raise_fail :: "turn_failure \<Rightarrow> ('s, workflow_abort stop, 'a) op" where
  "raise_fail f = raise (AbortFailed f)"

section \<open>Polling\<close>

definition host_poll :: "host_call \<Rightarrow> ('w, 'a) future \<Rightarrow> ('w sys, 'e, 'a option) op" where
  "host_poll c f s =
     (case f (ss_world s) of
        (r, w) \<Rightarrow> (Inr r, s\<lparr>ss_world := w, ss_log := ss_log s @ [Polled c]\<rparr>))"

fun poll_fn ::
  "('w, 'z) store_host_scheme \<Rightarrow> nat \<Rightarrow> (bool \<Rightarrow> ('w sys, 'e stop, 'a option) op) \<Rightarrow> bool \<Rightarrow>
   ('w sys, 'e stop, 'a) op" where
  "poll_fn E 0 closure first = fail Dropped"
| "poll_fn E (Suc n) closure first =
     bindE (interleave E) (\<lambda>_. bindE (closure first) (\<lambda>r.
       case r of Some a \<Rightarrow> ret a | None \<Rightarrow> poll_fn E n closure False))"

definition await_poll_fn ::
  "('w, 'z) store_host_scheme \<Rightarrow> (bool \<Rightarrow> ('w sys, 'e stop, 'a option) op) \<Rightarrow> ('w sys, 'e stop, 'a) op" where
  "await_poll_fn E closure =
     bindE (get (\<lambda>s. sh_polls E (ss_world s))) (\<lambda>n. poll_fn E n closure True)"

definition await :: "('w, 'z) store_host_scheme \<Rightarrow> host_call \<Rightarrow> ('w, 'a) future \<Rightarrow> ('w sys, 'e stop, 'a) op" where
  "await E c f = await_poll_fn E (\<lambda>_. host_poll c f)"

section \<open>Cancellation-aware awaits\<close>

definition check_cancelled :: "('w, 'z) store_host_scheme \<Rightarrow> ('w, unit) workflow_op" where
  "check_cancelled E = bindE (interleave E) (\<lambda>_ s.
     if ss_cancelled s then (Inl (Error AbortCancelled), s) else (Inr (), s))"

definition cancellable_poll ::
  "('w, 'z) store_host_scheme \<Rightarrow> host_call \<Rightarrow> ('w, 'a) future \<Rightarrow> bool \<Rightarrow> ('w, 'a option) workflow_op" where
  "cancellable_poll E c f first =
     bindE (check_cancelled E) (\<lambda>_.
     bindE (host_poll c f) (\<lambda>r.
     bindE (check_cancelled E) (\<lambda>_. ret r)))"

definition await_cancellable ::
  "('w, 'z) store_host_scheme \<Rightarrow> host_call \<Rightarrow> ('w, 'a) future \<Rightarrow> ('w, 'a) workflow_op" where
  "await_cancellable E c f = await_poll_fn E (cancellable_poll E c f)"

definition await_operation ::
  "('w, 'z) store_host_scheme \<Rightarrow> host_call \<Rightarrow> ('w, 'a) future \<Rightarrow> bool \<Rightarrow> ('w, 'a) workflow_op" where
  "await_operation E c f honor_cancellation =
     (if honor_cancellation then await_cancellable E c f else await E c f)"

definition await_record_load ::
  "('w, 'z) store_host_scheme \<Rightarrow> host_call \<Rightarrow>
   ('w, (session_store_error, session_record option) result) future \<Rightarrow> bool \<Rightarrow>
   ('w, (session_store_error, session_record option) result) workflow_op" where
  "await_record_load E c f honor_cancellation =
     (if \<not> honor_cancellation then await E c f
      else await_poll_fn E (cancellable_poll E c f))"

definition next_model_item ::
  "('w, 'z) store_host_scheme \<Rightarrow> ('w, (provider_error, model_event) result option) future \<Rightarrow>
   ('w, (provider_error, model_event) result option) workflow_op" where
  "next_model_item E f = await_poll_fn E (cancellable_poll E CallNextItem f)"

definition final_save_poll ::
  "('w, 'z) store_host_scheme \<Rightarrow> host_call \<Rightarrow> ('w, (session_store_error, u64) result) future \<Rightarrow> bool \<Rightarrow>
   ('w, (session_store_error, u64) result option) workflow_op" where
  "final_save_poll E c f first =
     bindE (if first then ret () else check_cancelled E) (\<lambda>_.
     bindE (host_poll c f) (\<lambda>r.
       case r of
         Some (Inr revision) \<Rightarrow> ret (Some (Inr revision))
       | _ \<Rightarrow> bindE (check_cancelled E) (\<lambda>_. ret r)))"

definition await_final_save ::
  "('w, 'z) store_host_scheme \<Rightarrow> session_record \<Rightarrow> u64 option \<Rightarrow>
   ('w, (session_store_error, u64) result) workflow_op" where
  "await_final_save E r expected =
     bindE (check_cancelled E) (\<lambda>_.
     bindE (record_effect (Constructed (CallSave r expected))) (\<lambda>_.
       await_poll_fn E (final_save_poll E (CallSave r expected) (sh_save E r expected))))"

section \<open>Store calls\<close>

definition note_saved ::
  "session_record \<Rightarrow> (session_store_error, u64) result \<Rightarrow>
   ('w sys, 'e, (session_store_error, u64) result) op" where
  "note_saved r res =
     (case res of Inl e \<Rightarrow> ret (Inl e)
      | Inr rv \<Rightarrow> bindE (record_effect (Saved r rv)) (\<lambda>_. ret (Inr rv)))"

definition store_save ::
  "('w, 'z) store_host_scheme \<Rightarrow> session_record \<Rightarrow> u64 option \<Rightarrow>
   ('w sys, 'e stop, (session_store_error, u64) result) op" where
  "store_save E r expected =
     bindE (record_effect (Constructed (CallSave r expected))) (\<lambda>_.
     bindE (await E (CallSave r expected) (sh_save E r expected)) (note_saved r))"

definition store_load ::
  "('w, 'z) store_host_scheme \<Rightarrow> session_id \<Rightarrow>
   ('w sys, 'e stop, (session_store_error, session_record option) result) op" where
  "store_load E i =
     bindE (record_effect (Constructed (CallLoad i))) (\<lambda>_. await E (CallLoad i) (sh_load E i))"

section \<open>What one operation may do to the shared state\<close>

text \<open>
  \<open>op_step P\<close> relates the states before and after part of an operation: the session evolves by
  \<open>canon_step\<close>, a lease that is held is not taken away, a cancellation stays requested, and
  every logged effect satisfies \<open>P\<close>. Operations that never pay off an uncertain save also
  keep \<open>turn_step P\<close>, where the debt flag stays set while the lease is held.
\<close>

definition op_step :: "(effect \<Rightarrow> bool) \<Rightarrow> 'w sys \<Rightarrow> 'w sys \<Rightarrow> bool" where
  "op_step P s t \<longleftrightarrow> canon_step s t \<and> (arc_wf s \<longrightarrow>
     (ss_lease s = Mine \<longleftrightarrow> ss_lease t = Mine)
     \<and> (ss_cancelled s \<longrightarrow> ss_cancelled t)
     \<and> (\<exists>new. ss_log t = ss_log s @ new \<and> list_all P new))"

definition turn_step :: "(effect \<Rightarrow> bool) \<Rightarrow> 'w sys \<Rightarrow> 'w sys \<Rightarrow> bool" where
  "turn_step P s t \<longleftrightarrow> op_step P s t \<and>
     (arc_wf s \<longrightarrow> ss_lease s = Mine \<longrightarrow> ss_reconcile s \<longrightarrow> ss_reconcile t)"

lemma op_step_refl: "op_step P s s"
  by (simp add: op_step_def canon_step_refl)

lemma op_step_wf: "op_step P s t \<Longrightarrow> arc_wf s \<Longrightarrow> arc_wf t"
  by (simp add: op_step_def canon_step_def)

lemma op_step_trans:
  assumes "op_step P s t" "op_step P t u"
  shows "op_step P s u"
  using assms op_step_wf [OF assms(1)] by (auto simp: op_step_def elim: canon_step_trans)

lemma op_step_rely: "rely s t \<Longrightarrow> op_step P s t"
  by (auto simp: op_step_def rely_def)

lemma op_step_mono: "op_step P s t \<Longrightarrow> (\<And>e. P e \<Longrightarrow> P' e) \<Longrightarrow> op_step P' s t"
  by (auto simp: op_step_def list.pred_mono_strong)

lemma turn_step_refl: "turn_step P s s"
  by (simp add: turn_step_def op_step_refl)

lemma turn_step_trans:
  assumes "turn_step P s t" "turn_step P t u"
  shows "turn_step P s u"
proof -
  have "arc_wf s \<Longrightarrow> arc_wf t \<and> (ss_lease s = Mine \<longrightarrow> ss_lease t = Mine)"
    using assms(1) by (auto simp: turn_step_def op_step_def canon_step_def)
  with assms show ?thesis by (auto simp: turn_step_def elim: op_step_trans)
qed

interpretation op: step_relation "op_step P" for P
  by unfold_locales (rule op_step_refl, rule op_step_trans)

interpretation tn: step_relation "turn_step P" for P
  by unfold_locales (rule turn_step_refl, rule turn_step_trans)

lemma turn_step_op: "turn_step P s t \<Longrightarrow> op_step P s t"
  by (simp add: turn_step_def)

lemma turn_step_rely: "rely s t \<Longrightarrow> turn_step P s t"
  by (simp add: turn_step_def op_step_rely) (simp add: rely_def)

locale turn_env = session_env R E
  for R :: "'w sys \<Rightarrow> 'w sys \<Rightarrow> bool" and E :: "('w, 'z) store_host_scheme" +
  fixes P :: "effect \<Rightarrow> bool"
  assumes logged: "P e \<Longrightarrow> R s (s\<lparr>ss_log := ss_log s @ [e]\<rparr>)"
    and world: "R s (s\<lparr>ss_world := w\<rparr>)"
begin

lemma keeps_record_effect: "P e \<Longrightarrow> keeps R (record_effect e)"
  by (simp add: record_effect_def keeps_modify logged)

lemma keeps_host_poll:
  assumes "P (Polled c)"
  shows "keeps R (host_poll c f)"
proof (rule keepsI)
  fix s :: "'w sys"
  obtain r w where f: "f (ss_world s) = (r, w)" by fastforce
  have "R s (s\<lparr>ss_world := w\<rparr>)" by (rule world)
  also have "R (s\<lparr>ss_world := w\<rparr>) (s\<lparr>ss_world := w, ss_log := ss_log s @ [Polled c]\<rparr>)"
    using logged [OF assms, of "s\<lparr>ss_world := w\<rparr>"] by simp
  finally (trans) show "R s (snd (host_poll c f s))" by (simp add: host_poll_def f)
qed

lemma keeps_poll_fn:
  assumes "\<And>first. keeps R (closure first)"
  shows "keeps R (poll_fn E n closure first)"
proof (induction n arbitrary: first)
  case (Suc n)
  then show ?case by (auto intro!: keeps_session_rules assms)
qed (simp add: keeps_fail)

lemma keeps_await_poll_fn:
  "(\<And>first. keeps R (closure first)) \<Longrightarrow> keeps R (await_poll_fn E closure)"
  unfolding await_poll_fn_def by (intro keeps_rules keeps_poll_fn)

lemma keeps_check_cancelled: "keeps R (check_cancelled E)"
proof -
  have "keeps R (\<lambda>s. if ss_cancelled s then (Inl (Error AbortCancelled), s) else (Inr (), s))"
    by (rule keepsI) (simp add: refl)
  then show ?thesis unfolding check_cancelled_def by (intro keeps_session_rules)
qed

lemma keeps_cancellable_poll: "P (Polled c) \<Longrightarrow> keeps R (cancellable_poll E c f first)"
  unfolding cancellable_poll_def by (intro keeps_rules keeps_check_cancelled keeps_host_poll)

lemma keeps_await: "P (Polled c) \<Longrightarrow> keeps R (await E c f)"
  unfolding await_def by (intro keeps_await_poll_fn keeps_host_poll)

lemma keeps_await_cancellable: "P (Polled c) \<Longrightarrow> keeps R (await_cancellable E c f)"
  unfolding await_cancellable_def by (intro keeps_await_poll_fn keeps_cancellable_poll)

lemma keeps_await_operation: "P (Polled c) \<Longrightarrow> keeps R (await_operation E c f h)"
  unfolding await_operation_def by (intro keeps_if keeps_await keeps_await_cancellable)

lemma keeps_await_record_load: "P (Polled c) \<Longrightarrow> keeps R (await_record_load E c f h)"
  unfolding await_record_load_def
  by (intro keeps_if keeps_await keeps_await_poll_fn keeps_cancellable_poll)

lemma keeps_next_model_item: "P (Polled CallNextItem) \<Longrightarrow> keeps R (next_model_item E f)"
  unfolding next_model_item_def by (intro keeps_await_poll_fn keeps_cancellable_poll)

lemma keeps_final_save_poll:
  assumes "P (Polled c)"
  shows "keeps R (final_save_poll E c f first)"
  unfolding final_save_poll_def
  by (intro keeps_rules keeps_check_cancelled keeps_host_poll assms)

lemma keeps_await_final_save:
  "P (Constructed (CallSave r x)) \<Longrightarrow> P (Polled (CallSave r x)) \<Longrightarrow> keeps R (await_final_save E r x)"
  unfolding await_final_save_def
  by (intro keeps_rules keeps_check_cancelled keeps_record_effect keeps_await_poll_fn keeps_final_save_poll)

lemma keeps_note_saved:
  "(\<And>rv. P (Saved r rv)) \<Longrightarrow> keeps R (note_saved r res)"
  unfolding note_saved_def by (intro keeps_rules keeps_record_effect)

lemma keeps_store_save:
  "P (Constructed (CallSave r x)) \<Longrightarrow> P (Polled (CallSave r x)) \<Longrightarrow> (\<And>rv. P (Saved r rv)) \<Longrightarrow>
   keeps R (store_save E r x)"
  unfolding store_save_def
  by (intro keeps_rules keeps_record_effect keeps_await keeps_note_saved)

lemma keeps_store_load:
  "P (Constructed (CallLoad i)) \<Longrightarrow> P (Polled (CallLoad i)) \<Longrightarrow> keeps R (store_load E i)"
  unfolding store_load_def by (intro keeps_rules keeps_record_effect keeps_await)

lemmas keeps_turn_rules =
  keeps_session_rules keeps_check_cancelled keeps_await keeps_await_cancellable
  keeps_await_operation keeps_await_record_load keeps_next_model_item keeps_await_final_save
  keeps_note_saved keeps_store_save keeps_store_load

end

lemma turn_env_op_step:
  assumes "env_rely E"
  shows "turn_env (op_step P) E P"
proof unfold_locales
  show "op_step P s (sh_yield E s)" for s
    using assms by (simp add: env_rely_def op_step_rely)
  show "op_step P s t \<Longrightarrow> canon_step s t" for s t :: "'a sys" by (simp add: op_step_def)
  show "\<not> arc_wf s \<Longrightarrow> op_step P s t" for s t :: "'a sys"
    by (simp add: op_step_def canon_step_def)
  show "P e \<Longrightarrow> op_step P s (s\<lparr>ss_log := ss_log s @ [e]\<rparr>)" for e and s :: "'a sys"
    by (simp add: op_step_def canon_step_frame)
  show "op_step P s (s\<lparr>ss_world := w\<rparr>)" for s and w :: 'a
    by (simp add: op_step_def canon_step_frame)
qed (simp add: op_step_def)

lemma turn_env_turn_step:
  assumes "env_rely E"
  shows "turn_env (turn_step P) E P"
proof unfold_locales
  show "turn_step P s (sh_yield E s)" for s
    using assms by (simp add: env_rely_def turn_step_rely)
  show "turn_step P s t \<Longrightarrow> canon_step s t" for s t :: "'a sys"
    by (simp add: turn_step_def op_step_def)
  show "\<not> arc_wf s \<Longrightarrow> turn_step P s t" for s t :: "'a sys"
    by (simp add: turn_step_def op_step_def canon_step_def)
  show "P e \<Longrightarrow> turn_step P s (s\<lparr>ss_log := ss_log s @ [e]\<rparr>)" for e and s :: "'a sys"
    by (simp add: turn_step_def op_step_def canon_step_frame)
  show "turn_step P s (s\<lparr>ss_world := w\<rparr>)" for s and w :: 'a
    by (simp add: turn_step_def op_step_def canon_step_frame)
qed (simp add: turn_step_def op_step_def)

interpretation turn_peer: turn_env "turn_step P" "peer_host (quiet_host polls is_open ld sv) r" P
  for P polls is_open ld sv r
  by (intro turn_env_turn_step env_rely_peer env_rely_quiet)

end
