(* ===== verification/Session_Ops.thy ===== *)
theory Session_Ops
  imports Awaiting Session_Context
begin

text \<open>
  The operations of a session handle (\<open>impl Session\<close> and \<open>impl SessionOperation\<close> in
  \<open>session.rs\<close>): metadata edits and revision checks under the exclusive lease, the
  reconciliation of an uncertain save, and the reservation of a turn.

  \<open>engine_config\<close> holds the immutable parts of \<open>EngineInner\<close> the operations read; the
  serializer and SHA-256 are third-party functions and stay parameters.
\<close>

record registered_tool =
  rt_spec :: tool_spec
  rt_tool :: tool_ref

record engine_config =
  ec_serializer :: serializer
  ec_limits :: engine_limits
  ec_sha256 :: "string \<Rightarrow> string"
  ec_tools :: "(tool_name, registered_tool) btree"
  ec_tool_specs :: "tool_spec list"

definition check_record :: "engine_config \<Rightarrow> session_record \<Rightarrow> ('s, engine_error stop, unit) op" where
  "check_record C r = lift_err (validate_record_limits (ec_serializer C) r (ec_limits C))"

definition lift_store :: "(session_store_error, 'a) result \<Rightarrow> ('s, engine_error stop, 'a) op" where
  "lift_store res = lift_err (map_err (\<lambda>e. Store (redact_store_error e)) res)"

definition set_reconcile :: "('w, 'z) store_host_scheme \<Rightarrow> bool \<Rightarrow> ('w sys, 'e, unit) op" where
  "set_reconcile E b = bindE (interleave E) (\<lambda>_. modify (\<lambda>s. s\<lparr>ss_reconcile := b\<rparr>))"

definition expected_revision :: "bool \<Rightarrow> u64 \<Rightarrow> u64 option" where
  "expected_revision persisted r = (if persisted then Some r else None)"

section \<open>Errors of the operations\<close>

definition metadata_revision_conflict :: engine_error where
  "metadata_revision_conflict = Store (component_error_new SConflict
     ''metadata_revision_conflict'' ''session metadata revision changed'' True)"

definition preparation_revision_conflict :: engine_error where
  "preparation_revision_conflict = Store (component_error_new SConflict
     ''turn_preparation_conflict'' ''session turn preparation revision changed'' True)"

definition err_reservation_contended :: engine_error where
  "err_reservation_contended = Store (component_error_new SConflict
     ''turn_reservation_contended'' ''turn reservation exceeded its conflict retry bound'' True)"

definition err_non_increasing :: engine_error where
  "err_non_increasing = Protocol ''session store returned a non-increasing revision''"

definition err_disappeared :: engine_error where
  "err_disappeared = Protocol ''session disappeared after an uncertain metadata save''"

definition err_empty_history :: engine_error where
  "err_empty_history = Protocol ''cannot continue a session with empty history''"

definition err_sequence_exhausted :: engine_error where
  "err_sequence_exhausted = Protocol ''session turn sequence is exhausted''"

definition err_identity_changed :: engine_error where
  "err_identity_changed = Protocol ''session identity changed during turn reservation''"

definition err_user_context_projection :: engine_error where
  "err_user_context_projection = Protocol ''user context requires a projection''"

definition err_prompt_size :: engine_error where
  "err_prompt_size = Protocol ''prompt exceeded the configured byte limit''"

definition err_access_mismatch :: engine_error where
  "err_access_mismatch = Protocol ''session store access identity mismatch''"

section \<open>Finding a call in the canonical record\<close>

fun find_call_block ::
  "tool_name \<Rightarrow> tool_call_id \<Rightarrow> usize \<Rightarrow> content_block list \<Rightarrow> usize option" where
  "find_call_block name i k [] = None"
| "find_call_block name i k (ToolCall c # bs) =
     (if tc_name c = name \<and> tc_id c = i then Some k else find_call_block name i (Suc k) bs)"
| "find_call_block name i k (b # bs) = find_call_block name i (Suc k) bs"

fun find_call_message ::
  "tool_name \<Rightarrow> tool_call_id \<Rightarrow> usize \<Rightarrow> usize \<Rightarrow> message list \<Rightarrow> (usize \<times> usize) option" where
  "find_call_message name i start k [] = None"
| "find_call_message name i start k (m # ms) =
     (if m_role m \<noteq> Assistant then find_call_message name i 0 (Suc k) ms
      else case find_call_block name i start (drop start (m_content m)) of
             Some b \<Rightarrow> Some (k, b)
           | None \<Rightarrow> find_call_message name i 0 (Suc k) ms)"

definition find_tool_call ::
  "session_record \<Rightarrow> usize \<times> usize \<Rightarrow> tool_name \<Rightarrow> tool_call_id \<Rightarrow> (usize \<times> usize) option" where
  "find_tool_call r cursor name i =
     (if fst cursor \<ge> length (sr_messages r) then None
      else if snd cursor > length (m_content (sr_messages r ! fst cursor)) then None
      else find_call_message name i (snd cursor) (fst cursor) (drop (fst cursor) (sr_messages r)))"

section \<open>Uncertain saves\<close>

definition adopt_loaded ::
  "engine_config \<Rightarrow> ('w, 'z) store_host_scheme \<Rightarrow> record_arc \<Rightarrow> bool \<Rightarrow> session_record option \<Rightarrow>
   ('w, unit) session_op" where
  "adopt_loaded C E arc persisted loaded =
     (case loaded of
        Some r \<Rightarrow> bindE (check_record C r) (\<lambda>_. reconcile_loaded E r)
      | None \<Rightarrow>
          if persisted \<or> sr_revision (snd arc) \<noteq> 0 then raise err_disappeared
          else bindE (snapshot_is_current E arc persisted) (\<lambda>current.
                 if \<not> current then raise err_disappeared else ret ()))"

definition reconcile_uncertain_metadata ::
  "engine_config \<Rightarrow> ('w, 'z) store_host_scheme \<Rightarrow> ('w, unit) session_op" where
  "reconcile_uncertain_metadata C E =
     bindE (bindE (interleave E) (\<lambda>_. get ss_reconcile)) (\<lambda>required.
       if \<not> required then ret ()
       else bindE (snapshot E) (\<lambda>(arc, persisted).
            bindE (store_load E (sr_id (snd arc))) (\<lambda>res.
            bindE (lift_store res) (\<lambda>loaded.
            bindE (adopt_loaded C E arc persisted loaded) (\<lambda>_. set_reconcile E False)))))"

section \<open>Revision checks and metadata edits\<close>

definition check_metadata_revision ::
  "engine_config \<Rightarrow> ('w, 'z) store_host_scheme \<Rightarrow> u64 \<Rightarrow> ('w, u64) session_op" where
  "check_metadata_revision C E expected =
     bindE (ensure_open E) (\<lambda>_. holding_lease E (
       bindE (reconcile_uncertain_metadata C E) (\<lambda>_.
       bindE (ensure_open E) (\<lambda>_.
       bindE (snapshot E) (\<lambda>(arc, persisted).
         if sr_revision (snd arc) \<noteq> expected then raise metadata_revision_conflict
         else bindE (check_record C (snd arc)) (\<lambda>_.
              bindE (snapshot_is_current E arc persisted) (\<lambda>current.
                if \<not> current then raise metadata_revision_conflict
                else ret (sr_revision (snd arc)))))))))"

text \<open>The compare-and-save both kinds of exclusive edits end with.\<close>

definition save_exclusive ::
  "('w, 'z) store_host_scheme \<Rightarrow> session_record \<Rightarrow> bool \<Rightarrow> u64 \<Rightarrow> ('w, session_record) session_op" where
  "save_exclusive E candidate persisted expected =
     bindE (set_reconcile E True) (\<lambda>_.
     bindE (store_save E candidate (expected_revision persisted expected)) (\<lambda>res.
     bindE (lift_store res) (\<lambda>revision.
       if revision \<le> expected then raise err_non_increasing
       else bindE (reconcile_saved E (candidate\<lparr>sr_revision := revision\<rparr>)) (\<lambda>_.
            bindE (set_reconcile E False) (\<lambda>_.
              ret (candidate\<lparr>sr_revision := revision\<rparr>))))))"

definition update_metadata_leased ::
  "engine_config \<Rightarrow> ('w, 'z) store_host_scheme \<Rightarrow> u64 \<Rightarrow> metadata \<Rightarrow> ('w, u64) session_op" where
  "update_metadata_leased C E expected metadata =
     bindE (reconcile_uncertain_metadata C E) (\<lambda>_.
     bindE (snapshot E) (\<lambda>(arc, persisted).
       if sr_revision (snd arc) \<noteq> expected then raise metadata_revision_conflict
       else bindE (check_record C (snd arc)) (\<lambda>_.
            let candidate = (snd arc)\<lparr>sr_metadata := metadata\<rparr> in
            bindE (check_record C candidate) (\<lambda>_.
            bindE (snapshot_is_current E arc persisted) (\<lambda>current.
              if \<not> current then raise metadata_revision_conflict
              else bindE (save_exclusive E candidate persisted expected) (\<lambda>r. ret (sr_revision r)))))))"

definition update_metadata ::
  "engine_config \<Rightarrow> ('w, 'z) store_host_scheme \<Rightarrow> u64 \<Rightarrow> metadata \<Rightarrow> ('w, u64) session_op" where
  "update_metadata C E expected metadata =
     bindE (ensure_open E) (\<lambda>_. holding_lease E (update_metadata_leased C E expected metadata))"

text \<open>An injected adapter must wrap the very store the engine was built with.\<close>

record 'w store_access =
  sa_underlying :: nat
  sa_load :: "session_id \<Rightarrow> ('w, (session_store_error, session_record option) result) future"
  sa_save :: "session_record \<Rightarrow> u64 option \<Rightarrow> ('w, (session_store_error, u64) result) future"

definition validate_store_access :: "nat \<Rightarrow> 'w store_access \<Rightarrow> (engine_error, unit) result" where
  "validate_store_access store access =
     (if store \<noteq> sa_underlying access then Inl err_access_mismatch else Inr ())"

definition with_access :: "('w, 'z) store_host_scheme \<Rightarrow> 'w store_access \<Rightarrow> ('w, 'z) store_host_scheme" where
  "with_access E access = E\<lparr>sh_load := sa_load access, sh_save := sa_save access\<rparr>"

definition update_metadata_with_access ::
  "engine_config \<Rightarrow> ('w, 'z) store_host_scheme \<Rightarrow> nat \<Rightarrow> 'w store_access \<Rightarrow> u64 \<Rightarrow> metadata \<Rightarrow>
   ('w, u64) session_op" where
  "update_metadata_with_access C E store access expected metadata =
     bindE (lift_err (validate_store_access store access)) (\<lambda>_.
       update_metadata C (with_access E access) expected metadata)"

definition check_metadata_revision_with_access ::
  "engine_config \<Rightarrow> ('w, 'z) store_host_scheme \<Rightarrow> nat \<Rightarrow> 'w store_access \<Rightarrow> u64 \<Rightarrow> ('w, u64) session_op" where
  "check_metadata_revision_with_access C E store access expected =
     bindE (lift_err (validate_store_access store access)) (\<lambda>_.
       check_metadata_revision C (with_access E access) expected)"

section \<open>Reserving a turn\<close>

definition push_prompt :: "string option \<Rightarrow> session_record \<Rightarrow> session_record" where
  "push_prompt prompt r =
     (case prompt of None \<Rightarrow> r
      | Some t \<Rightarrow> r\<lparr>sr_messages := sr_messages r @ [message_text User t]\<rparr>)"

definition set_metadata :: "metadata option \<Rightarrow> session_record \<Rightarrow> session_record" where
  "set_metadata metadata r = (case metadata of None \<Rightarrow> r | Some m \<Rightarrow> r\<lparr>sr_metadata := m\<rparr>)"

definition next_turn_id :: "u64 \<Rightarrow> (engine_error, turn_id) result" where
  "next_turn_id n = map_err (\<lambda>e. Protocol (display_invalid_id e)) (turn_id_new (turn_id_text n))"

text \<open>The candidate record of a turn: the next sequence number and the prompt.\<close>

definition reserve_candidate ::
  "string option \<Rightarrow> session_record \<Rightarrow> (engine_error, turn_id \<times> session_record) result" where
  "reserve_candidate prompt r =
     bind_res (ok_or err_sequence_exhausted (u64_checked_add (sr_next_turn_sequence r) 1)) (\<lambda>next'.
     bind_res (next_turn_id (sr_next_turn_sequence r)) (\<lambda>i.
       Inr (i, push_prompt prompt (r\<lparr>sr_next_turn_sequence := next'\<rparr>))))"

definition prepared_context ::
  "engine_config \<Rightarrow> turn_preparation \<Rightarrow> validated_context option \<Rightarrow> message list \<Rightarrow>
   (engine_error, validated_context option) result" where
  "prepared_context C p context ms =
     bind_res (case tp_user_context p of
         None \<Rightarrow> Inr context
       | Some uc \<Rightarrow> bind_res (ok_or err_user_context_projection context) (\<lambda>vc.
                    bind_res (with_user_context vc uc ms) (\<lambda>vc'. Inr (Some vc')))) (\<lambda>context'.
     bind_res (case context' of
         None \<Rightarrow> Inr ()
       | Some vc \<Rightarrow> context_validate_limits (ec_serializer C) vc ms (ec_limits C)) (\<lambda>_.
       Inr context'))"

definition reserve_prepared_turn ::
  "engine_config \<Rightarrow> ('w, 'z) store_host_scheme \<Rightarrow> string option \<Rightarrow> turn_preparation \<Rightarrow>
   ('w, turn_id \<times> session_record \<times> validated_context option) session_op" where
  "reserve_prepared_turn C E prompt p =
     bindE (snapshot E) (\<lambda>(arc, persisted).
       let snap = snd arc in
       if sr_revision snap \<noteq> tp_expected_revision p then raise preparation_revision_conflict
       else bindE (check_record C snap) (\<lambda>_.
       if prompt = None \<and> sr_messages snap = [] then raise err_empty_history
       else bindE (lift_err (take_context p (sr_messages snap))) (\<lambda>context.
            let candidate = set_metadata (tp_metadata p) snap in
            bindE (check_record C candidate) (\<lambda>_.
            bindE (lift_err (reserve_candidate prompt candidate)) (\<lambda>(i, r).
            bindE (check_record C r) (\<lambda>_.
            bindE (lift_err (prepared_context C p context (sr_messages r))) (\<lambda>context'.
            bindE (snapshot_is_current E arc persisted) (\<lambda>current.
              if \<not> current then raise preparation_revision_conflict
              else bindE (save_exclusive E r persisted (sr_revision snap)) (\<lambda>saved.
                     ret (i, saved, context'))))))))))"

definition adopt_conflicting ::
  "engine_config \<Rightarrow> ('w, 'z) store_host_scheme \<Rightarrow> record_arc \<Rightarrow> bool \<Rightarrow> session_id \<Rightarrow>
   session_record option \<Rightarrow> ('w, unit) session_op" where
  "adopt_conflicting C E arc persisted i loaded =
     (case loaded of
        None \<Rightarrow>
          if sr_id (snd arc) \<noteq> i then raise err_identity_changed
          else mark_missing_if_current E arc persisted
      | Some current \<Rightarrow>
          if sr_id current \<noteq> i
          then raise (Protocol (msg_wrong_id (sr_id current) i))
          else if sr_incarnation_id current \<noteq> sr_incarnation_id (snd arc)
          then raise SessionIncarnationConflict
          else bindE (check_record C current) (\<lambda>_. reconcile_loaded E current))"

definition reserve_conflict ::
  "engine_config \<Rightarrow> ('w, 'z) store_host_scheme \<Rightarrow> record_arc \<Rightarrow> bool \<Rightarrow> session_record \<Rightarrow>
   ('w, (turn_id \<times> session_record) flow) session_op" where
  "reserve_conflict C E arc persisted candidate =
     bindE (store_load E (sr_id candidate)) (\<lambda>res.
     bindE (lift_store res) (\<lambda>loaded.
     bindE (adopt_conflicting C E arc persisted (sr_id candidate) loaded) (\<lambda>_. ret Again)))"

definition reserve_attempt ::
  "engine_config \<Rightarrow> ('w, 'z) store_host_scheme \<Rightarrow> string option \<Rightarrow>
   ('w, (turn_id \<times> session_record) flow) session_op" where
  "reserve_attempt C E prompt =
     bindE (snapshot E) (\<lambda>(arc, persisted).
       let snap = snd arc in
       bindE (check_record C snap) (\<lambda>_.
       if prompt = None \<and> sr_messages snap = [] then raise err_empty_history
       else bindE (lift_err (reserve_candidate prompt snap)) (\<lambda>(i, candidate).
            bindE (check_record C candidate) (\<lambda>_.
            bindE (snapshot_is_current E arc persisted) (\<lambda>current.
              if \<not> current then ret Again
              else bindE (store_save E candidate (expected_revision persisted (sr_revision snap))) (\<lambda>res.
                case res of
                  Inr revision \<Rightarrow>
                    if revision > sr_revision candidate then
                      bindE (reconcile_saved E (candidate\<lparr>sr_revision := revision\<rparr>)) (\<lambda>_.
                        ret (Done (i, candidate\<lparr>sr_revision := revision\<rparr>)))
                    else raise err_non_increasing
                | Inl e \<Rightarrow>
                    if ce_kind e = SConflict then reserve_conflict C E arc persisted candidate
                    else raise (Store (redact_store_error e))))))))"

definition reserve_turn_and_prompt ::
  "engine_config \<Rightarrow> ('w, 'z) store_host_scheme \<Rightarrow> string option \<Rightarrow>
   ('w, turn_id \<times> session_record) session_op" where
  "reserve_turn_and_prompt C E prompt =
     retry 32 (reserve_attempt C E prompt) (raise err_reservation_contended)"

section \<open>Starting a turn\<close>

record turn_start =
  st_turn_id :: turn_id
  st_record :: session_record
  st_options :: inference_options
  st_context :: "validated_context option"

definition reserve_turn ::
  "engine_config \<Rightarrow> ('w, 'z) store_host_scheme \<Rightarrow> string option \<Rightarrow> turn_preparation option \<Rightarrow>
   ('w, turn_id \<times> session_record \<times> validated_context option) session_op" where
  "reserve_turn C E prompt preparation =
     (case preparation of
        Some p \<Rightarrow> reserve_prepared_turn C E prompt p
      | None \<Rightarrow> bindE (reserve_turn_and_prompt C E prompt) (\<lambda>(i, r). ret (i, r, None)))"

text \<open>The part of \<open>start_turn\<close> that owns the lease, up to the new turn with its fresh token.\<close>

definition start_leased ::
  "engine_config \<Rightarrow> ('w, 'z) store_host_scheme \<Rightarrow> string option \<Rightarrow> inference_options \<Rightarrow>
   turn_preparation option \<Rightarrow> ('w, turn_start) session_op" where
  "start_leased C E prompt options preparation =
     bindE (reconcile_uncertain_metadata C E) (\<lambda>_.
     bindE (reserve_turn C E prompt preparation) (\<lambda>(i, r, context).
     bindE (modify (\<lambda>s. s\<lparr>ss_cancelled := False\<rparr>)) (\<lambda>_.
       ret \<lparr>st_turn_id = i, st_record = r, st_options = options, st_context = context\<rparr>)))"

definition start_turn ::
  "engine_config \<Rightarrow> ('w, 'z) store_host_scheme \<Rightarrow> string option \<Rightarrow> inference_options \<Rightarrow>
   turn_preparation option \<Rightarrow> ('w, turn_start) session_op" where
  "start_turn C E prompt options preparation =
     bindE (ensure_open E) (\<lambda>_.
       if (case prompt of None \<Rightarrow> False | Some t \<Rightarrow> length t > max_prompt_bytes (ec_limits C))
       then raise err_prompt_size
       else bindE (lift_err (map_err (\<lambda>f. Protocol (tf_message f))
                    (validate_inference_options (ec_serializer C) options (ec_limits C)))) (\<lambda>_.
            bindE (acquire_lease E) (\<lambda>_. lease_on_error (start_leased C E prompt options preparation))))"

definition start_prompt ::
  "engine_config \<Rightarrow> ('w, 'z) store_host_scheme \<Rightarrow> prompt \<Rightarrow> turn_preparation option \<Rightarrow>
   ('w, turn_start) session_op" where
  "start_prompt C E p preparation = start_turn C E (Some (p_text p)) (p_options p) preparation"

definition continue_turn ::
  "engine_config \<Rightarrow> ('w, 'z) store_host_scheme \<Rightarrow> inference_options \<Rightarrow> turn_preparation option \<Rightarrow>
   ('w, turn_start) session_op" where
  "continue_turn C E options preparation = start_turn C E None options preparation"

section \<open>Lemmas\<close>

lemma wp_set_reconcile [simp, wp_simps]:
  "wp (set_reconcile E b) Q X s = Q () ((sh_yield E s)\<lparr>ss_reconcile := b\<rparr>)"
  by (simp add: set_reconcile_def)

lemma wp_check_record [wp_simps]:
  "wp (check_record C r) Q X s =
   (case validate_record_limits (ec_serializer C) r (ec_limits C) of
      Inl e \<Rightarrow> X (Error e) s | Inr _ \<Rightarrow> Q () s)"
  by (simp add: check_record_def split: sum.splits)

definition record_ok :: "engine_config \<Rightarrow> session_record \<Rightarrow> bool" where
  "record_ok C r \<longleftrightarrow> validate_record_limits (ec_serializer C) r (ec_limits C) = Inr ()"

lemma wp_check_recordI:
  "(\<And>e. X (Error e) s) \<Longrightarrow> (record_ok C r \<Longrightarrow> Q () s) \<Longrightarrow> wp (check_record C r) Q X s"
  by (simp add: wp_check_record record_ok_def split: sum.splits)

lemma wp_lift_store [simp, wp_simps]:
  "wp (lift_store res) Q X s =
   (case res of Inl e \<Rightarrow> X (Error (Store (redact_store_error e))) s | Inr a \<Rightarrow> Q a s)"
  by (simp add: lift_store_def map_err_def split: sum.splits)

locale debt_env = turn_env R E P
  for R :: "'w sys \<Rightarrow> 'w sys \<Rightarrow> bool" and E :: "('w, 'z) store_host_scheme" and P +
  assumes debt: "R s (s\<lparr>ss_reconcile := b\<rparr>)"
    and loads: "P (Constructed (CallLoad i))" "P (Polled (CallLoad i))"
begin

lemma keeps_set_reconcile: "keeps R (set_reconcile E b)"
  unfolding set_reconcile_def by (intro keeps_session_rules keeps_modify debt)

lemma keeps_lift_store: "keeps R (lift_store res)"
  unfolding lift_store_def by (rule keeps_lift_err)

lemma keeps_adopt_loaded: "keeps R (adopt_loaded C E arc p x)"
  unfolding adopt_loaded_def check_record_def by (intro keeps_session_rules)

lemma keeps_reconcile_uncertain: "keeps R (reconcile_uncertain_metadata C E)"
  unfolding reconcile_uncertain_metadata_def lift_store_def
  by (intro keeps_turn_rules keeps_adopt_loaded keeps_set_reconcile loads)

lemma keeps_adopt_conflicting: "keeps R (adopt_conflicting C E arc p i x)"
  unfolding adopt_conflicting_def check_record_def by (intro keeps_session_rules)

end

lemma debt_env_op_step:
  assumes "env_rely E" and "\<And>i. P (Constructed (CallLoad i))" "\<And>i. P (Polled (CallLoad i))"
  shows "debt_env (op_step P) E P"
proof (rule debt_env.intro)
  show "turn_env (op_step P) E P" using assms(1) by (rule turn_env_op_step)
  show "debt_env_axioms (op_step P :: 'a sys \<Rightarrow> _) P"
    by unfold_locales (simp_all add: assms op_step_def canon_step_frame)
qed

interpretation debt_peer: debt_env "op_step (\<lambda>_. True)" "peer_host (quiet_host polls is_open ld sv) r" "\<lambda>_. True"
  for polls is_open ld sv r
  by (intro debt_env_op_step env_rely_peer env_rely_quiet) simp_all

lemma op_step_new:
  "op_step P s t \<Longrightarrow> arc_wf s \<Longrightarrow> \<exists>new. ss_log t = ss_log s @ new \<and> list_all P new"
  by (simp add: op_step_def)

lemma op_step_lease: "op_step P s t \<Longrightarrow> arc_wf s \<Longrightarrow> ss_lease t = Mine \<longleftrightarrow> ss_lease s = Mine"
  by (auto simp: op_step_def)

lemma op_step_canon: "op_step P s t \<Longrightarrow> canon_step s t"
  by (simp add: op_step_def)

lemma turn_step_reconcile:
  "turn_step P s t \<Longrightarrow> arc_wf s \<Longrightarrow> ss_lease s = Mine \<Longrightarrow> ss_reconcile s \<Longrightarrow> ss_reconcile t"
  by (simp add: turn_step_def)

lemma canon_step_at_least:
  assumes "canon_step s t" "arc_wf s" "v \<le> sr_revision (ss_record s)"
    and "sr_revision (ss_record s) = v \<longrightarrow> ss_record s = r"
  shows "v \<le> sr_revision (ss_record t) \<and> (sr_revision (ss_record t) = v \<longrightarrow> ss_record t = r)"
  using assms by (auto simp: canon_step_def)

lemma op_step_set_reconcile: "op_step P s (t\<lparr>ss_reconcile := b\<rparr>) = op_step P s t"
  by (simp add: op_step_def canon_step_def arc_wf_def)

text \<open>The effects of one save and of the loads around it.\<close>

definition save_effect :: "session_record \<Rightarrow> u64 option \<Rightarrow> effect \<Rightarrow> bool" where
  "save_effect r x e \<longleftrightarrow>
     e = Constructed (CallSave r x) \<or> e = Polled (CallSave r x) \<or> (\<exists>v. e = Saved r v)"

definition load_effect :: "effect \<Rightarrow> bool" where
  "load_effect e \<longleftrightarrow> (\<exists>i. e = Constructed (CallLoad i) \<or> e = Polled (CallLoad i))"

text \<open>
  A failed or dropped exclusive save leaves the debt flag set; a successful one has stored the
  candidate under a higher revision, and the canonical record is that candidate or newer.
\<close>

lemma wp_save_exclusive:
  assumes env: "env_rely E" and wf: "arc_wf s" and lease: "ss_lease s = Mine"
    and P: "\<And>e. save_effect c (expected_revision p x) e \<Longrightarrow> P e"
  shows "wp (save_exclusive E c p x)
    (\<lambda>r t. op_step P s t \<and> x < sr_revision r \<and> r = c\<lparr>sr_revision := sr_revision r\<rparr>
       \<and> sr_revision r \<le> sr_revision (ss_record t)
       \<and> (sr_revision (ss_record t) = sr_revision r \<longrightarrow> ss_record t = r))
    (\<lambda>e t. op_step P s t \<and> ss_reconcile t) s"
proof -
  note T = turn_env_turn_step [OF env, of P]
  note S = T [THEN turn_env.axioms(1)]
  have rely: "turn_step P v (sh_yield E v)" for v
    using env by (simp add: env_rely_def turn_step_rely)
  define u where "u = (sh_yield E s)\<lparr>ss_reconcile := True\<rparr>"
  have su: "op_step P s u"
    using rely [of s] by (simp add: u_def op_step_set_reconcile turn_step_op)
  have u: "arc_wf u" "ss_lease u = Mine" "ss_reconcile u"
    using op_step_wf [OF su wf] op_step_lease [OF su wf] lease by (simp_all add: u_def)
  have err: "op_step P s t \<and> ss_reconcile t" if "turn_step P u t" for t
    using op_step_trans [OF su turn_step_op [OF that]] turn_step_reconcile [OF that u] by simp
  have save: "wp (store_save E c (expected_revision p x)) (\<lambda>_. turn_step P u) (\<lambda>_. turn_step P u) u"
    by (intro keeps_wpI turn_env.keeps_store_save [OF T] P) (auto simp: save_effect_def)
  have rest: "wp (reconcile_saved E r)
      (\<lambda>_ z. turn_step P u z \<and> sr_revision r \<le> sr_revision (ss_record z)
        \<and> (sr_revision (ss_record z) = sr_revision r \<longrightarrow> ss_record z = r))
      (\<lambda>e z. turn_step P u z) t" if t: "turn_step P u t" for t r
    using op_step_wf [OF turn_step_op [OF t] u(1)]
    by (intro wp_mono [OF session_env.wp_reconcile_saved [OF S]]) (auto intro: turn_step_trans [OF t])
  have fin: "op_step P s (sh_yield E z) \<and> sr_revision r \<le> sr_revision (ss_record (sh_yield E z))
        \<and> (sr_revision (ss_record (sh_yield E z)) = sr_revision r \<longrightarrow> ss_record (sh_yield E z) = r)"
    if "turn_step P u z" "sr_revision r \<le> sr_revision (ss_record z)"
      "sr_revision (ss_record z) = sr_revision r \<longrightarrow> ss_record z = r" for z r
    using err [OF turn_step_trans [OF that(1) rely]] op_step_wf [OF turn_step_op [OF that(1)] u(1)]
      canon_step_at_least [OF op_step_canon [OF turn_step_op [OF rely]] _ that(2,3)]
    by auto
  show ?thesis
    unfolding save_exclusive_def
    by (simp add: u_def [symmetric], rule wp_mono [OF save])
      (auto simp: op_step_set_reconcile err not_le split: sum.splits
        intro!: wp_mono [OF rest] dest: fin err)
qed

section \<open>Operations that take the lease\<close>

definition effects_step :: "(effect \<Rightarrow> bool) \<Rightarrow> 'w sys \<Rightarrow> 'w sys \<Rightarrow> bool" where
  "effects_step P s t \<longleftrightarrow> canon_step s t \<and>
     (arc_wf s \<longrightarrow> (\<exists>new. ss_log t = ss_log s @ new \<and> list_all P new))"

lemma op_step_effects: "op_step P s t \<Longrightarrow> effects_step P s t"
  by (simp add: op_step_def effects_step_def)

lemma effects_step_trans:
  assumes "effects_step P s t" "effects_step P t u"
  shows "effects_step P s u"
proof -
  have "arc_wf s \<Longrightarrow> arc_wf t" using assms(1) by (simp add: effects_step_def canon_step_def)
  with assms show ?thesis by (auto simp: effects_step_def elim: canon_step_trans)
qed

interpretation eff: step_relation "effects_step P" for P
proof unfold_locales
  show "effects_step P s s" for s by (simp add: effects_step_def canon_step_refl)
qed (rule effects_step_trans)

lemma effects_step_lease [simp]:
  "effects_step P s (t\<lparr>ss_lease := b\<rparr>) = effects_step P s t"
  "effects_step P (s\<lparr>ss_lease := b\<rparr>) t = effects_step P s t"
  "canon_step (s\<lparr>ss_lease := b\<rparr>) t = canon_step s t"
  by (simp_all add: effects_step_def canon_step_def arc_wf_def)

lemma effects_step_mono:
  "effects_step P s t \<Longrightarrow> (\<And>e. P e \<Longrightarrow> P' e) \<Longrightarrow> effects_step P' s t"
  by (auto simp: effects_step_def list.pred_mono_strong)

lemma wp_ensure_open [simp, wp_simps]:
  "wp (ensure_open E) Q X s =
   (let u = sh_yield E s in
    if sh_host_open E (ss_world u) then Q () u else X (Error HostClosed) u)"
  by (simp add: ensure_open_def Let_def) (simp add: wp_def)

lemma wp_acquire_lease [simp, wp_simps]:
  "wp (acquire_lease E) Q X s =
   (let u = sh_yield E s in
    if ss_lease u = Free then Q () (u\<lparr>ss_lease := Mine\<rparr>) else X (Error SessionBusy) u)"
  by (simp add: acquire_lease_def Let_def) (simp add: wp_def)

lemma wp_holding_lease [simp, wp_simps]:
  "wp (holding_lease E body) Q X s =
   (let u = sh_yield E s in
    if ss_lease u = Free then wp body (\<lambda>a t. Q a (t\<lparr>ss_lease := Free\<rparr>)) (\<lambda>e t. X e (t\<lparr>ss_lease := Free\<rparr>))
        (u\<lparr>ss_lease := Mine\<rparr>)
    else X (Error SessionBusy) u)"
proof -
  have "wp (\<lambda>s. case body s of (r, t) \<Rightarrow> (r, release_lease t)) Q X v =
      wp body (\<lambda>a t. Q a (t\<lparr>ss_lease := Free\<rparr>)) (\<lambda>e t. X e (t\<lparr>ss_lease := Free\<rparr>)) v" for v
    by (simp add: wp_def release_lease_def split: prod.splits sum.splits)
  then show ?thesis by (simp add: holding_lease_def)
qed

lemma wp_lease_on_error [simp, wp_simps]:
  "wp (lease_on_error body) Q X s = wp body Q (\<lambda>e t. X e (t\<lparr>ss_lease := Free\<rparr>)) s"
  by (simp add: wp_def lease_on_error_def release_lease_def split: prod.splits sum.splits)

text \<open>What an edit may write: the canonical record of the expected revision with new metadata.\<close>

definition edit_effect :: "'w sys \<Rightarrow> u64 \<Rightarrow> metadata \<Rightarrow> effect \<Rightarrow> bool" where
  "edit_effect s x md e \<longleftrightarrow> load_effect e \<or>
     (\<exists>u persisted. canon_step s u \<and> sr_revision (ss_record u) = x
        \<and> save_effect ((ss_record u)\<lparr>sr_metadata := md\<rparr>) (expected_revision persisted x) e)"

lemma edit_effect_lease [simp]: "edit_effect (s\<lparr>ss_lease := b\<rparr>) = edit_effect s"
  by (simp add: edit_effect_def fun_eq_iff)

lemma edit_effect_canon: "canon_step s t \<Longrightarrow> edit_effect t x md e \<Longrightarrow> edit_effect s x md e"
  unfolding edit_effect_def by (blast intro: canon_step_trans)

lemma wp_update_metadata_leased:
  assumes env: "env_rely E" and wf: "arc_wf s" and lease: "ss_lease s = Mine"
  shows "wp (update_metadata_leased C E x md)
    (\<lambda>v t. effects_step (edit_effect s x md) s t \<and> x < v \<and> v \<le> sr_revision (ss_record t)
       \<and> (sr_revision (ss_record t) = v \<longrightarrow> sr_metadata (ss_record t) = md))
    (\<lambda>e t. effects_step (edit_effect s x md) s t \<and> (effects_step load_effect s t \<or> ss_reconcile t)) s"
proof -
  let ?P = "edit_effect s x md"
  note D = debt_env_op_step [OF env, of load_effect]
  have yield: "op_step load_effect v (sh_yield E v)" for v
    using env by (simp add: env_rely_def op_step_rely)
  have lift: "effects_step ?P s t \<and> effects_step load_effect s t" if "op_step load_effect s t" for t
    using op_step_effects [OF that] by (auto elim: effects_step_mono simp: edit_effect_def)
  have uncertain: "wp (reconcile_uncertain_metadata C E) (\<lambda>_. op_step load_effect s) (\<lambda>_. op_step load_effect s) s"
    by (intro keeps_wpI debt_env.keeps_reconcile_uncertain [OF D]) (auto simp: load_effect_def)
  have save: "wp (save_exclusive E c p x)
      (\<lambda>r t. effects_step ?P s t \<and> x < sr_revision r \<and> sr_revision r \<le> sr_revision (ss_record t)
         \<and> (sr_revision (ss_record t) = sr_revision r \<longrightarrow> sr_metadata (ss_record t) = md))
      (\<lambda>e t. effects_step ?P s t \<and> ss_reconcile t) u"
    if su: "op_step load_effect s u" and sv: "canon_step s v" "sr_revision (ss_record v) = x"
      and c: "c = (ss_record v)\<lparr>sr_metadata := md\<rparr>" for u v c p
  proof (rule wp_mono [OF wp_save_exclusive [OF env, where P = ?P]])
    show "arc_wf u" "ss_lease u = Mine" using op_step_wf [OF su wf] op_step_lease [OF su wf] lease by simp_all
    show "?P e" if "save_effect c (expected_revision p x) e" for e
      using that sv unfolding c edit_effect_def by blast
    show "effects_step ?P s t \<and> x < sr_revision r \<and> sr_revision r \<le> sr_revision (ss_record t)
        \<and> (sr_revision (ss_record t) = sr_revision r \<longrightarrow> sr_metadata (ss_record t) = md)"
      if "op_step ?P u t \<and> x < sr_revision r \<and> r = c\<lparr>sr_revision := sr_revision r\<rparr>
        \<and> sr_revision r \<le> sr_revision (ss_record t) \<and> (sr_revision (ss_record t) = sr_revision r \<longrightarrow> ss_record t = r)" for r t
    proof -
      have "sr_metadata r = md" using that c by (metis session_record.select_convs(6) session_record.surjective session_record.update_convs(3,6))
      with that show ?thesis using effects_step_trans [OF _ op_step_effects] lift [OF su] by auto
    qed
    show "effects_step ?P s t \<and> ss_reconcile t" if "op_step ?P u t \<and> ss_reconcile t" for t
      using that effects_step_trans [OF _ op_step_effects] lift [OF su] by auto
  qed
  have tail: "wp (bindE (snapshot E) (\<lambda>(arc, persisted).
       if sr_revision (snd arc) \<noteq> x then raise metadata_revision_conflict
       else bindE (check_record C (snd arc)) (\<lambda>_.
            let candidate = (snd arc)\<lparr>sr_metadata := md\<rparr> in
            bindE (check_record C candidate) (\<lambda>_.
            bindE (snapshot_is_current E arc persisted) (\<lambda>current.
              if \<not> current then raise metadata_revision_conflict
              else bindE (save_exclusive E candidate persisted x) (\<lambda>r. ret (sr_revision r)))))))
    (\<lambda>v t. effects_step ?P s t \<and> x < v \<and> v \<le> sr_revision (ss_record t)
       \<and> (sr_revision (ss_record t) = v \<longrightarrow> sr_metadata (ss_record t) = md))
    (\<lambda>e t. effects_step ?P s t \<and> (effects_step load_effect s t \<or> ss_reconcile t)) t"
    if t: "op_step load_effect s t" for t
  proof -
    define u where "u = sh_yield E t"
    define v where "v = sh_yield E u"
    have u: "op_step load_effect s u" unfolding u_def using t yield by (rule op_step_trans)
    have v: "op_step load_effect s v" unfolding v_def using u yield by (rule op_step_trans)
    note facts = lift [OF u] lift [OF v] u_def [symmetric] v_def [symmetric]
    show ?thesis
    proof (cases "sr_revision (ss_record u) = x")
      case True
      note saved = save [OF v op_step_canon [OF u] True]
      show ?thesis
        by (auto simp: facts True Let_def intro!: wp_check_recordI wp_mono [OF saved])
    qed (simp add: facts)
  qed
  show ?thesis
    unfolding update_metadata_leased_def using uncertain
    by (rule wp_seq) (erule tail, drule lift, simp)
qed

lemma edit_effect_save:
  "edit_effect s x md (Constructed (CallSave c y)) \<Longrightarrow> sr_revision c = x \<and> sr_metadata c = md"
  by (auto simp: edit_effect_def load_effect_def save_effect_def)

lemma wp_update_metadata:
  assumes env: "env_rely E" and wf: "arc_wf s" and lease: "ss_lease s \<noteq> Mine"
  shows "wp (update_metadata C E x md)
    (\<lambda>v t. effects_step (edit_effect s x md) s t \<and> ss_lease t = Free \<and> x < v \<and> v \<le> sr_revision (ss_record t)
       \<and> (sr_revision (ss_record t) = v \<longrightarrow> sr_metadata (ss_record t) = md))
    (\<lambda>e t. effects_step (edit_effect s x md) s t \<and> ss_lease t \<noteq> Mine \<and> (effects_step load_effect s t \<or> ss_reconcile t)) s"
proof -
  define u where "u = sh_yield E s"
  define v where "v = sh_yield E u"
  let ?w = "v\<lparr>ss_lease := Mine\<rparr>"
  have r: "rely s u" "rely u v" using env by (simp_all add: env_rely_def u_def v_def)
  have sv: "rely s v" using r by (rule rel.trans)
  have lu: "ss_lease u \<noteq> Mine" and lv: "ss_lease v \<noteq> Mine"
    using r(1) sv wf lease by (auto simp: rely_def)
  have eff: "effects_step load_effect s u" "effects_step load_effect s v"
    using op_step_rely [OF r(1)] op_step_rely [OF sv] by (auto intro: op_step_effects)
  have wfw: "arc_wf ?w" using sv wf by (simp add: rely_def canon_step_def arc_wf_def)
  have canon: "canon_step s u" "canon_step s v" using r(1) sv by (simp_all add: rely_def)
  have some: "effects_step (edit_effect s x m) s t" if "effects_step load_effect s t" for m t
    using that by (rule effects_step_mono) (simp add: edit_effect_def)
  have step: "effects_step (edit_effect s x m) s t" if "effects_step (edit_effect v x m) v t" for m t
    using effects_step_trans [OF some [OF eff(2)] effects_step_mono [OF that edit_effect_canon [OF canon(2)]]] .
  show ?thesis
    unfolding update_metadata_def
    using wp_update_metadata_leased [OF env wfw, of C x md] effects_step_trans [OF eff(2)]
    by (auto simp: Let_def u_def [symmetric] v_def [symmetric] lu lv eff some canon step elim!: wp_mono)
qed

section \<open>Reservations\<close>

text \<open>
  The candidate of a reservation: the canonical record at some moment of the operation, with the
  prompt appended, the sequence number advanced and metadata replaced if the turn brings any,
  within the configured limits.
\<close>

definition reservation ::
  "engine_config \<Rightarrow> 'w sys \<Rightarrow> string option \<Rightarrow> metadata option \<Rightarrow> turn_id \<Rightarrow> session_record \<Rightarrow> u64 \<Rightarrow> bool" where
  "reservation C s prompt md i c x \<longleftrightarrow>
     (\<exists>u. canon_step s u \<and> reserve_candidate prompt (set_metadata md (ss_record u)) = Inr (i, c)
        \<and> record_ok C c \<and> x = sr_revision (ss_record u))"

definition reserve_effect :: "engine_config \<Rightarrow> 'w sys \<Rightarrow> string option \<Rightarrow> metadata option \<Rightarrow> effect \<Rightarrow> bool" where
  "reserve_effect C s prompt md e \<longleftrightarrow> load_effect e \<or>
     (\<exists>i c x p. reservation C s prompt md i c x \<and> save_effect c (expected_revision p x) e)"

lemma reservation_canon: "canon_step s t \<Longrightarrow> reservation C t prompt md i c x \<Longrightarrow> reservation C s prompt md i c x"
  unfolding reservation_def by (blast intro: canon_step_trans)

lemma reserve_effect_canon:
  "canon_step s t \<Longrightarrow> reserve_effect C t prompt md e \<Longrightarrow> reserve_effect C s prompt md e"
  unfolding reserve_effect_def by (blast intro: reservation_canon)

lemma reserve_candidate_sel:
  assumes "reserve_candidate prompt r = Inr (i, c)"
  shows "sr_id c = sr_id r" "sr_incarnation_id c = sr_incarnation_id r" "sr_revision c = sr_revision r"
    "unat (sr_next_turn_sequence c) = Suc (unat (sr_next_turn_sequence r))"
    "sr_messages c = sr_messages r @ (case prompt of None \<Rightarrow> [] | Some t \<Rightarrow> [message_text User t])"
    "sr_metadata c = sr_metadata r" "i = TurnId (turn_id_text (sr_next_turn_sequence r))"
  using assms
  by (cases prompt; force simp: reserve_candidate_def next_turn_id_def turn_id_new_text push_prompt_def
      dest!: u64_checked_add_Some)+

definition reserved ::
  "engine_config \<Rightarrow> 'w sys \<Rightarrow> string option \<Rightarrow> metadata option \<Rightarrow> turn_id \<Rightarrow> session_record \<Rightarrow> 'w sys \<Rightarrow> bool" where
  "reserved C s prompt md i r t \<longleftrightarrow>
     (\<exists>c x. reservation C s prompt md i c x \<and> r = c\<lparr>sr_revision := sr_revision r\<rparr> \<and> x < sr_revision r)
     \<and> sr_revision r \<le> sr_revision (ss_record t)
     \<and> (sr_revision (ss_record t) = sr_revision r \<longrightarrow> ss_record t = r)"

lemma reserved_canon: "canon_step s t \<Longrightarrow> reserved C t prompt md i r u \<Longrightarrow> reserved C s prompt md i r u"
  unfolding reserved_def by (blast intro: reservation_canon)

lemma wp_lift_errI:
  "(\<And>e. r = Inl e \<Longrightarrow> X (Error e) s) \<Longrightarrow> (\<And>a. r = Inr a \<Longrightarrow> Q a s) \<Longrightarrow> wp (lift_err r) Q X s"
  by (simp split: sum.splits)

lemma wp_reserve_attempt:
  assumes env: "env_rely E" and wf: "arc_wf s"
  shows "wp (reserve_attempt C E prompt)
    (\<lambda>f t. op_step (reserve_effect C s prompt None) s t
       \<and> (case f of Again \<Rightarrow> True | Done (i, r) \<Rightarrow> reserved C s prompt None i r t))
    (\<lambda>_. op_step (reserve_effect C s prompt None) s) s"
proof -
  let ?P = "reserve_effect C s prompt None"
  note T = turn_env_op_step [OF env, of ?P]
  note S = T [THEN turn_env.axioms(1)]
  have D: "debt_env (op_step ?P) E ?P"
    by (intro debt_env_op_step [OF env]) (auto simp: reserve_effect_def load_effect_def)
  have yield: "op_step ?P v (sh_yield E v)" for v
    using env by (simp add: env_rely_def op_step_rely)
  define u where "u = sh_yield E s"
  define v where "v = sh_yield E u"
  have u: "op_step ?P s u" unfolding u_def by (rule yield)
  have v: "op_step ?P s v" unfolding v_def using u yield by (rule op_step_trans)
  note facts = u v u_def [symmetric] v_def [symmetric]
  have conflict: "wp (reserve_conflict C E arc p c) (\<lambda>f t. op_step ?P s t \<and> f = Again) (\<lambda>_. op_step ?P s) t"
    if "op_step ?P s t" for arc p c t
  proof -
    have "keeps (op_step ?P) (store_load E (sr_id c))"
      by (intro turn_env.keeps_store_load [OF T]) (auto simp: reserve_effect_def load_effect_def)
    then show ?thesis
      unfolding reserve_conflict_def using that
      by (auto simp del: wp_bindE intro!: op.wp_seq_acc [where ?s0.0 = s and P = ?P]
          debt_env.keeps_lift_store [OF D] debt_env.keeps_adopt_conflicting [OF D])
  qed
  have save: "wp (store_save E c (expected_revision p (sr_revision (ss_record u))))
      (\<lambda>_. op_step ?P s) (\<lambda>_. op_step ?P s) v"
    if "reservation C s prompt None i c (sr_revision (ss_record u))" for i c p
    using that
    by (intro wp_mono [OF keeps_wpI [OF turn_env.keeps_store_save [OF T]]] op_step_trans [OF v])
      (auto simp: reserve_effect_def save_effect_def)
  have publish: "wp (reconcile_saved E (c\<lparr>sr_revision := n\<rparr>))
      (\<lambda>_ z. op_step ?P s z \<and> reserved C s prompt None i (c\<lparr>sr_revision := n\<rparr>) z) (\<lambda>_. op_step ?P s) t"
    if "op_step ?P s t" "reservation C s prompt None i c x" "x < n" for i c x n t
    using that op_step_wf [OF that(1) wf]
    by (intro wp_mono [OF session_env.wp_reconcile_saved [OF S]])
      (auto simp: reserved_def intro: op_step_trans)
  have res: "reservation C s prompt None i c (sr_revision (ss_record u))"
    if "reserve_candidate prompt (ss_record u) = Inr (i, c)" "record_ok C c" for i c
    using that op_step_canon [OF u] by (auto simp: reservation_def set_metadata_def)
  have cand: "wp (store_save E c (expected_revision p (sr_revision (ss_record u))))
      (\<lambda>res. wp (case res of
          Inr n \<Rightarrow> if sr_revision c < n
            then bindE (reconcile_saved E (c\<lparr>sr_revision := n\<rparr>)) (\<lambda>_. ret (Done (i, c\<lparr>sr_revision := n\<rparr>)))
            else raise err_non_increasing
        | Inl e \<Rightarrow> if ce_kind e = SConflict then reserve_conflict C E arc q c else raise (Store (redact_store_error e)))
        (\<lambda>f t. op_step ?P s t \<and> (case f of Again \<Rightarrow> True | Done (i, r) \<Rightarrow> reserved C s prompt None i r t))
        (\<lambda>_. op_step ?P s)) (\<lambda>_. op_step ?P s) v"
    if c: "reserve_candidate prompt (ss_record u) = Inr (i, c)" "record_ok C c" for i c p arc q
    using reserve_candidate_sel(3) [OF c(1)] publish [OF _ res [OF c]]
    by (intro wp_mono [OF save [OF res [OF c]]])
      (auto simp del: wp_bindE intro!: wp_mono [OF conflict] wp_seq split: sum.splits)
  show ?thesis
  proof (cases "prompt = None \<and> sr_messages (ss_record u) = []")
    case True
    then show ?thesis
      unfolding reserve_attempt_def
      by (simp add: facts Let_def) (rule wp_check_recordI; use u True in simp)
  next
    case False
    show ?thesis
      unfolding reserve_attempt_def
      by (auto simp: facts False Let_def intro!: wp_check_recordI wp_lift_errI cand simp del: wp_lift_err)
  qed
qed

lemma wp_reserve_turn_and_prompt:
  assumes env: "env_rely E" and wf: "arc_wf s"
  shows "wp (reserve_turn_and_prompt C E prompt)
    (\<lambda>(i, r) t. op_step (reserve_effect C s prompt None) s t \<and> reserved C s prompt None i r t)
    (\<lambda>_. op_step (reserve_effect C s prompt None) s) s"
  unfolding reserve_turn_and_prompt_def
proof (rule wp_retry [where I = "op_step (reserve_effect C s prompt None) s"])
  fix t assume t: "op_step (reserve_effect C s prompt None) s t"
  note c = op_step_canon [OF t]
  have mono: "op_step (reserve_effect C s prompt None) s u" if "op_step (reserve_effect C t prompt None) t u" for u
    using that by (intro op_step_trans [OF t]) (auto elim: op_step_mono intro: reserve_effect_canon [OF c])
  show "wp (reserve_attempt C E prompt)
      (\<lambda>f u. case f of Again \<Rightarrow> op_step (reserve_effect C s prompt None) s u
         | Done a \<Rightarrow> (case a of (i, r) \<Rightarrow> \<lambda>t. op_step (reserve_effect C s prompt None) s t \<and> reserved C s prompt None i r t) u)
      (\<lambda>_. op_step (reserve_effect C s prompt None) s) t"
    by (rule wp_mono [OF wp_reserve_attempt [OF env op_step_wf [OF t wf]]])
      (auto split: flow.splits intro: mono reserved_canon [OF c])
qed (simp_all add: op_step_refl)

definition prepared_ok :: "validated_context option \<Rightarrow> session_record \<Rightarrow> bool" where
  "prepared_ok context r \<longleftrightarrow>
     (case context of None \<Rightarrow> True
      | Some vc \<Rightarrow> context_for vc (sr_messages r))"

lemma take_context_ok:
  assumes "take_context p ms = Inr cx" "cx = Some vc"
  shows "context_for vc ms" "closed_history ms"
  using assms projection_validate_context projection_validate_Inr(1)
  by (auto simp: take_context_def split: option.splits)

lemma prepared_context_ok:
  assumes "take_context p ms = Inr cx" "prepared_context C p cx (ms @ new) = Inr cx'"
    "cx' = Some vc"
  shows "context_for vc (ms @ new)"
proof -
  have ok: "context_for v (ms @ new)" if "cx = Some v" for v
    using take_context_ok(1) [OF assms(1) that] by (rule context_for_append)
  from assms(2,3) show ?thesis
    by (auto simp: prepared_context_def split: option.splits
        intro: ok with_user_context_context [OF ok])
qed

lemma set_metadata_sel [simp]:
  "sr_revision (set_metadata md r) = sr_revision r" "sr_messages (set_metadata md r) = sr_messages r"
  by (simp_all add: set_metadata_def split: option.splits)

lemma wp_reserve_prepared_turn:
  assumes env: "env_rely E" and wf: "arc_wf s" and lease: "ss_lease s = Mine"
  shows "wp (reserve_prepared_turn C E prompt p)
    (\<lambda>(i, r, cx) t. op_step (reserve_effect C s prompt (tp_metadata p)) s t
       \<and> reserved C s prompt (tp_metadata p) i r t \<and> prepared_ok cx r)
    (\<lambda>_. op_step (reserve_effect C s prompt (tp_metadata p)) s) s"
proof -
  let ?P = "reserve_effect C s prompt (tp_metadata p)"
  have yield: "op_step ?P v (sh_yield E v)" for v
    using env by (simp add: env_rely_def op_step_rely)
  define u where "u = sh_yield E s"
  define v where "v = sh_yield E u"
  have u: "op_step ?P s u" unfolding u_def by (rule yield)
  have v: "op_step ?P s v" unfolding v_def using u yield by (rule op_step_trans)
  note facts = u v u_def [symmetric] v_def [symmetric]
  let ?c = "set_metadata (tp_metadata p) (ss_record u)"
  have save: "wp (save_exclusive E c q x)
      (\<lambda>r t. op_step ?P s t \<and> reserved C s prompt (tp_metadata p) i r t \<and> prepared_ok cx r)
      (\<lambda>_. op_step ?P s) v"
    if c: "reserve_candidate prompt ?c = Inr (i, c)" "record_ok C c" and ctx: "prepared_ok cx c"
      and x: "sr_revision (ss_record u) = x" for i c q x cx
  proof (rule wp_mono [OF wp_save_exclusive [OF env, where P = ?P]])
    have res: "reservation C s prompt (tp_metadata p) i c x"
      using c x op_step_canon [OF u] by (auto simp: reservation_def)
    show "arc_wf v" "ss_lease v = Mine" using op_step_wf [OF v wf] op_step_lease [OF v wf] lease by simp_all
    show "?P e" if "save_effect c (expected_revision q x) e" for e
      using that res unfolding reserve_effect_def by blast
    fix r t
    assume r: "op_step ?P v t \<and> x < sr_revision r
      \<and> r = c\<lparr>sr_revision := sr_revision r\<rparr> \<and> sr_revision r \<le> sr_revision (ss_record t)
      \<and> (sr_revision (ss_record t) = sr_revision r \<longrightarrow> ss_record t = r)"
    then have "sr_messages r = sr_messages c"
      by (metis session_record.select_convs(5) session_record.surjective session_record.update_convs(3))
    with ctx have "prepared_ok cx r" by (simp add: prepared_ok_def split: option.splits)
    with r res show "op_step ?P s t \<and> reserved C s prompt (tp_metadata p) i r t \<and> prepared_ok cx r"
      unfolding reserved_def by (blast intro: op_step_trans [OF v])
  qed (auto intro: op_step_trans [OF v])
  have ctx: "prepared_ok cx' c"
    if "reserve_candidate prompt ?c = Inr (i, c)" "take_context p (sr_messages (ss_record u)) = Inr cx"
      "prepared_context C p cx (sr_messages c) = Inr cx'" for i c cx cx'
    using that reserve_candidate_sel(5) [OF that(1)]
    by (auto simp: prepared_ok_def prepared_context_ok split: option.splits)
  note saved = save [OF _ _ ctx]
  show ?thesis
  proof (cases "prompt = None \<and> sr_messages (ss_record u) = []")
    case True
    then show ?thesis
      unfolding reserve_prepared_turn_def
      by (simp add: facts Let_def) (intro conjI impI wp_check_recordI; use u True in simp)
  next
    case False
    show ?thesis
      unfolding reserve_prepared_turn_def
      by (auto simp: facts False Let_def simp del: wp_lift_err intro!: wp_check_recordI wp_lift_errI)
        (rule wp_mono [OF saved], assumption+, auto)+
  qed
qed

section \<open>Starting a turn\<close>

definition reserved_metadata :: "turn_preparation option \<Rightarrow> metadata option" where
  "reserved_metadata preparation = (case preparation of None \<Rightarrow> None | Some p \<Rightarrow> tp_metadata p)"

lemma wp_reserve_turn:
  assumes env: "env_rely E" and wf: "arc_wf s" and lease: "ss_lease s = Mine"
  shows "wp (reserve_turn C E prompt preparation)
    (\<lambda>(i, r, cx) t. op_step (reserve_effect C s prompt (reserved_metadata preparation)) s t
       \<and> reserved C s prompt (reserved_metadata preparation) i r t \<and> prepared_ok cx r)
    (\<lambda>_. op_step (reserve_effect C s prompt (reserved_metadata preparation)) s) s"
proof (cases preparation)
  case None
  then show ?thesis
    by (simp add: reserve_turn_def reserved_metadata_def)
      (rule wp_mono [OF wp_reserve_turn_and_prompt [OF env wf]]; auto simp: prepared_ok_def)
next
  case (Some p)
  then show ?thesis
    using wp_reserve_prepared_turn [OF env wf lease, of C prompt p]
    by (simp add: reserve_turn_def reserved_metadata_def)
qed

lemma reserve_effect_lease [simp]:
  "reserve_effect C (s\<lparr>ss_lease := b\<rparr>) = reserve_effect C s"
  "reserved C (s\<lparr>ss_lease := b\<rparr>) = reserved C s"
  by (simp_all add: reserve_effect_def reserved_def reservation_def fun_eq_iff)

lemma wp_start_turn:
  assumes env: "env_rely E" and wf: "arc_wf s" and lease: "ss_lease s \<noteq> Mine"
  shows "wp (start_turn C E prompt options preparation)
    (\<lambda>st t. effects_step (reserve_effect C s prompt (reserved_metadata preparation)) s t
       \<and> reserved C s prompt (reserved_metadata preparation) (st_turn_id st) (st_record st) t
       \<and> prepared_ok (st_context st) (st_record st) \<and> st_options st = options
       \<and> ss_lease t = Mine \<and> \<not> ss_cancelled t)
    (\<lambda>_ t. effects_step (reserve_effect C s prompt (reserved_metadata preparation)) s t \<and> ss_lease t \<noteq> Mine) s"
proof -
  let ?P = "reserve_effect C s prompt (reserved_metadata preparation)"
  define u where "u = sh_yield E s"
  define v where "v = sh_yield E u"
  let ?w = "v\<lparr>ss_lease := Mine\<rparr>"
  have r: "rely s u" "rely u v" using env by (simp_all add: env_rely_def u_def v_def)
  have sv: "rely s v" using r by (rule rel.trans)
  have lu: "ss_lease u \<noteq> Mine" and lv: "ss_lease v \<noteq> Mine"
    using r(1) sv wf lease by (auto simp: rely_def)
  have eff: "effects_step ?P s u" "effects_step ?P s v"
    using op_step_rely [OF r(1)] op_step_rely [OF sv] by (auto intro: op_step_effects)
  have wfw: "arc_wf ?w" using sv wf by (simp add: rely_def canon_step_def arc_wf_def)
  have cv: "canon_step s v" using sv by (simp add: rely_def)
  have lift: "effects_step ?P s t" if "op_step (reserve_effect C v prompt (reserved_metadata preparation)) ?w t" for t
  proof -
    have "effects_step (reserve_effect C v prompt (reserved_metadata preparation)) v t"
      using op_step_effects [OF that] by simp
    then have "effects_step ?P v t" by (rule effects_step_mono) (rule reserve_effect_canon [OF cv])
    with eff(2) show ?thesis by (rule effects_step_trans)
  qed
  have D: "debt_env (op_step (reserve_effect C v prompt (reserved_metadata preparation))) E
      (reserve_effect C v prompt (reserved_metadata preparation))"
    by (intro debt_env_op_step [OF env]) (auto simp: reserve_effect_def load_effect_def)
  have res: "wp (reserve_turn C E prompt preparation)
      (\<lambda>(i, r, cx) t. effects_step ?P s t \<and> ss_lease t = Mine
        \<and> reserved C s prompt (reserved_metadata preparation) i r t \<and> prepared_ok cx r)
      (\<lambda>_. effects_step ?P s) t"
    if t: "op_step (reserve_effect C v prompt (reserved_metadata preparation)) ?w t" for t
  proof -
    have wft: "arc_wf t" and lt: "ss_lease t = Mine"
      using op_step_wf [OF t wfw] op_step_lease [OF t wfw] by simp_all
    have ct: "canon_step v t" using op_step_canon [OF t] by simp
    have up: "op_step (reserve_effect C v prompt (reserved_metadata preparation)) ?w z"
      if "op_step (reserve_effect C t prompt (reserved_metadata preparation)) t z" for z
      using that by (intro op_step_trans [OF t]) (auto elim: op_step_mono intro: reserve_effect_canon [OF ct])
    show ?thesis
      by (rule wp_mono [OF wp_reserve_turn [OF env wft lt]])
        (auto intro: lift [OF up] reserved_canon [OF canon_step_trans [OF cv ct]]
          simp: op_step_lease [OF _ wft] lt)
  qed
  have seq: "wp (start_leased C E prompt options preparation)
      (\<lambda>st t. effects_step ?P s t
       \<and> reserved C s prompt (reserved_metadata preparation) (st_turn_id st) (st_record st) t
       \<and> prepared_ok (st_context st) (st_record st) \<and> st_options st = options
       \<and> ss_lease t = Mine \<and> \<not> ss_cancelled t)
      (\<lambda>_. effects_step ?P s) ?w"
    unfolding start_leased_def
  proof (rule op.wp_seq_acc [OF debt_env.keeps_reconcile_uncertain [OF D] op_step_refl])
    fix t
    assume t: "op_step (reserve_effect C v prompt (reserved_metadata preparation)) ?w t"
    have frame: "effects_step ?P s (z\<lparr>ss_cancelled := False\<rparr>) = effects_step ?P s z"
      "reserved C s prompt md i r (z\<lparr>ss_cancelled := False\<rparr>) = reserved C s prompt md i r z" for z md i r
      by (simp_all add: effects_step_def canon_step_def arc_wf_def reserved_def)
    show "wp (bindE (reserve_turn C E prompt preparation) (\<lambda>(i, r, cx).
        bindE (modify (\<lambda>s. s\<lparr>ss_cancelled := False\<rparr>)) (\<lambda>_.
          ret \<lparr>st_turn_id = i, st_record = r, st_options = options, st_context = cx\<rparr>)))
      (\<lambda>st t. effects_step ?P s t
       \<and> reserved C s prompt (reserved_metadata preparation) (st_turn_id st) (st_record st) t
       \<and> prepared_ok (st_context st) (st_record st) \<and> st_options st = options
       \<and> ss_lease t = Mine \<and> \<not> ss_cancelled t) (\<lambda>_. effects_step ?P s) t"
      using res [OF t] by (rule wp_seq) (auto simp: frame)
  qed (rule lift)
  show ?thesis
    unfolding start_turn_def
    by (auto simp: Let_def u_def [symmetric] v_def [symmetric] lu lv eff simp del: wp_lift_err
        intro!: wp_lift_errI wp_mono [OF seq])
qed

lemma wp_record_effect [simp, wp_simps]:
  "wp (record_effect e) Q X s = Q () (s\<lparr>ss_log := ss_log s @ [e]\<rparr>)"
  by (simp add: record_effect_def)

end
