(* ===== verification/Transcript.thy ===== *)
theory Transcript
  imports Session_Ops
begin

text \<open>
  How a running turn changes the durable transcript (\<open>commit_messages\<close> and
  \<open>replace_message\<close> in \<open>session.rs\<close>): a bounded optimistic loop that re-reads the
  canonical record, refuses to continue from a transcript other than the one the turn knows,
  saves a candidate and adopts the record of a competing writer after a conflict.
\<close>

datatype commit_cancellation = CommitCancellable | FinalSaveSuccessWins

definition MAX_CONFLICT_RETRIES :: nat where
  "MAX_CONFLICT_RETRIES = 32"

section \<open>Failures\<close>

record conflict_failures =
  cf_id_changed :: turn_failure
  cf_incarnation_changed :: turn_failure
  cf_diverged_before :: turn_failure
  cf_missing :: turn_failure
  cf_wrong_id :: "session_id \<Rightarrow> session_id \<Rightarrow> turn_failure"
  cf_wrong_incarnation :: turn_failure
  cf_diverged_during :: turn_failure
  cf_contended :: turn_failure

definition commit_failures :: conflict_failures where
  "commit_failures = \<lparr>
     cf_id_changed = failure_protocol ''session_identity_changed''
       ''session identity changed during transcript commit'',
     cf_incarnation_changed = failure_protocol ''session_incarnation_changed''
       ''session incarnation changed during transcript commit'',
     cf_diverged_before = failure_protocol ''transcript_diverged''
       ''durable transcript diverged before message commit'',
     cf_missing = failure_protocol ''transcript_missing_after_conflict''
       ''durable transcript disappeared after a commit conflict'',
     cf_wrong_id = (\<lambda>got want. failure_protocol ''session_identity_changed'' (msg_wrong_id got want)),
     cf_wrong_incarnation = failure_protocol ''session_incarnation_changed''
       ''session incarnation changed during message commit'',
     cf_diverged_during = failure_protocol ''transcript_diverged''
       ''durable transcript diverged during message commit'',
     cf_contended = failure_store (component_error_new SConflict ''message_commit_contended''
       ''message commit exceeded its conflict retry bound'' True)\<rparr>"

definition replace_failures :: conflict_failures where
  "replace_failures = \<lparr>
     cf_id_changed = failure_protocol ''session_identity_changed''
       ''session identity changed during result replacement'',
     cf_incarnation_changed = failure_protocol ''session_incarnation_changed''
       ''session incarnation changed during result replacement'',
     cf_diverged_before = failure_protocol ''transcript_diverged''
       ''durable transcript diverged before result replacement'',
     cf_missing = failure_protocol ''transcript_missing_after_conflict''
       ''durable transcript disappeared after a result conflict'',
     cf_wrong_id = (\<lambda>got want. failure_protocol ''session_identity_changed''
       ''session store returned a different session during result replacement''),
     cf_wrong_incarnation = failure_protocol ''session_incarnation_changed''
       ''session incarnation changed during result replacement'',
     cf_diverged_during = failure_protocol ''transcript_diverged''
       ''durable transcript diverged during result replacement'',
     cf_contended = failure_store (component_error_new SConflict ''message_replace_contended''
       ''message replacement exceeded its conflict retry bound'' True)\<rparr>"

definition fail_non_increasing :: turn_failure where
  "fail_non_increasing = failure_protocol ''non_increasing_revision''
     ''session store returned a non-increasing revision''"

definition fail_placeholder_missing :: turn_failure where
  "fail_placeholder_missing = failure_protocol ''placeholder_missing''
     ''tool result placeholder index was missing''"

definition fail_save_reconciliation :: "engine_error \<Rightarrow> turn_failure" where
  "fail_save_reconciliation e = failure_protocol ''save_reconciliation'' (display_engine_error e)"

definition fail_conflict_reconciliation :: "engine_error \<Rightarrow> turn_failure" where
  "fail_conflict_reconciliation e = failure_protocol ''conflict_reconciliation'' (display_engine_error e)"

definition fail_invalid_conflict_record :: "engine_error \<Rightarrow> turn_failure" where
  "fail_invalid_conflict_record e = failure_protocol ''invalid_conflict_record'' (display_engine_error e)"

section \<open>One attempt\<close>

definition map_op_err :: "('e \<Rightarrow> 'f) \<Rightarrow> ('s, 'e stop, 'a) op \<Rightarrow> ('s, 'f stop, 'a) op" where
  "map_op_err g m = catchE m (\<lambda>e. fail (map_stop g e)) ret"

definition check_turn_record :: "engine_config \<Rightarrow> session_record \<Rightarrow> ('s, workflow_abort stop, unit) op" where
  "check_turn_record C r = lift_fail (validate_record (ec_serializer C) r (ec_limits C))"

definition check_base :: "conflict_failures \<Rightarrow> session_record \<Rightarrow> session_record \<Rightarrow> (turn_failure, unit) result" where
  "check_base F base snap =
     (if sr_id snap \<noteq> sr_id base then Inl (cf_id_changed F)
      else if sr_incarnation_id snap \<noteq> sr_incarnation_id base then Inl (cf_incarnation_changed F)
      else if sr_messages snap \<noteq> sr_messages base then Inl (cf_diverged_before F)
      else Inr ())"

definition publish_candidate ::
  "('w, 'z) store_host_scheme \<Rightarrow> session_record \<Rightarrow> ('w, session_record flow) workflow_op" where
  "publish_candidate E candidate =
     bindE (map_op_err (\<lambda>e. AbortFailed (fail_save_reconciliation e)) (reconcile_saved E candidate))
       (\<lambda>_. ret (Done candidate))"

definition check_conflicting ::
  "engine_config \<Rightarrow> conflict_failures \<Rightarrow> session_record \<Rightarrow> session_record option \<Rightarrow>
   (turn_failure, session_record) result" where
  "check_conflicting C F base loaded =
     bind_res (ok_or (cf_missing F) loaded) (\<lambda>current.
       if sr_id current \<noteq> sr_id base then Inl (cf_wrong_id F (sr_id current) (sr_id base))
       else if sr_incarnation_id current \<noteq> sr_incarnation_id base then Inl (cf_wrong_incarnation F)
       else bind_res (map_err fail_invalid_conflict_record (validate_loaded current)) (\<lambda>_.
            bind_res (validate_record (ec_serializer C) current (ec_limits C)) (\<lambda>_.
              if sr_messages current \<noteq> sr_messages base then Inl (cf_diverged_during F)
              else Inr current)))"

definition resolve_conflict ::
  "engine_config \<Rightarrow> ('w, 'z) store_host_scheme \<Rightarrow> conflict_failures \<Rightarrow> session_record \<Rightarrow> bool \<Rightarrow>
   ('w, session_record flow) workflow_op" where
  "resolve_conflict C E F base honor =
     bindE (record_effect (Constructed (CallLoad (sr_id base)))) (\<lambda>_.
     bindE (await_record_load E (CallLoad (sr_id base)) (sh_load E (sr_id base)) honor) (\<lambda>res.
     bindE (lift_fail (map_err failure_store res)) (\<lambda>loaded.
     bindE (lift_fail (check_conflicting C F base loaded)) (\<lambda>current.
     bindE (map_op_err (\<lambda>e. AbortFailed (fail_conflict_reconciliation e)) (reconcile_loaded E current))
       (\<lambda>_. ret Again)))))"

definition save_answer ::
  "engine_config \<Rightarrow> ('w, 'z) store_host_scheme \<Rightarrow> conflict_failures \<Rightarrow> session_record \<Rightarrow> bool \<Rightarrow> session_record \<Rightarrow>
   (session_store_error, u64) result \<Rightarrow> ('w, session_record flow) workflow_op" where
  "save_answer C E F base honor candidate res =
     (case res of
        Inr revision \<Rightarrow>
          if revision > sr_revision candidate
          then publish_candidate E (candidate\<lparr>sr_revision := revision\<rparr>)
          else raise_fail fail_non_increasing
      | Inl e \<Rightarrow>
          if ce_kind e = SConflict then resolve_conflict C E F base honor
          else raise_fail (failure_store e))"

section \<open>Committing messages\<close>

definition commit_save ::
  "('w, 'z) store_host_scheme \<Rightarrow> commit_cancellation \<Rightarrow> session_record \<Rightarrow> u64 option \<Rightarrow>
   ('w, (session_store_error, u64) result) workflow_op" where
  "commit_save E mode r expected =
     bindE (case mode of
         CommitCancellable \<Rightarrow>
           bindE (record_effect (Constructed (CallSave r expected))) (\<lambda>_.
             await_cancellable E (CallSave r expected) (sh_save E r expected))
       | FinalSaveSuccessWins \<Rightarrow> await_final_save E r expected)
     (note_saved r)"

definition commit_attempt ::
  "engine_config \<Rightarrow> ('w, 'z) store_host_scheme \<Rightarrow> session_record \<Rightarrow> message list \<Rightarrow> commit_cancellation \<Rightarrow>
   ('w, session_record flow) workflow_op" where
  "commit_attempt C E base ms mode =
     bindE (check_cancelled E) (\<lambda>_.
     bindE (snapshot E) (\<lambda>(arc, persisted).
       let snap = snd arc; candidate = snap\<lparr>sr_messages := sr_messages snap @ ms\<rparr> in
       bindE (lift_fail (check_base commit_failures base snap)) (\<lambda>_.
       bindE (check_turn_record C snap) (\<lambda>_.
       bindE (check_turn_record C candidate) (\<lambda>_.
       bindE (snapshot_is_current E arc persisted) (\<lambda>current.
         if \<not> current then ret Again
         else bindE (commit_save E mode candidate (expected_revision persisted (sr_revision snap)))
                (save_answer C E commit_failures base True candidate)))))))"

definition commit_messages ::
  "engine_config \<Rightarrow> ('w, 'z) store_host_scheme \<Rightarrow> session_record \<Rightarrow> message list \<Rightarrow> commit_cancellation \<Rightarrow>
   ('w, session_record) workflow_op" where
  "commit_messages C E base ms mode =
     retry MAX_CONFLICT_RETRIES (commit_attempt C E base ms mode)
       (raise_fail (cf_contended commit_failures))"

definition commit_message ::
  "engine_config \<Rightarrow> ('w, 'z) store_host_scheme \<Rightarrow> session_record \<Rightarrow> message \<Rightarrow> commit_cancellation \<Rightarrow>
   ('w, session_record) workflow_op" where
  "commit_message C E base m mode = commit_messages C E base [m] mode"

section \<open>Replacing a placeholder\<close>

definition replace_save ::
  "('w, 'z) store_host_scheme \<Rightarrow> bool \<Rightarrow> session_record \<Rightarrow> u64 option \<Rightarrow>
   ('w, (session_store_error, u64) result) workflow_op" where
  "replace_save E honor r expected =
     bindE (record_effect (Constructed (CallSave r expected))) (\<lambda>_.
     bindE (await_operation E (CallSave r expected) (sh_save E r expected) honor) (note_saved r))"

definition replace_attempt ::
  "engine_config \<Rightarrow> ('w, 'z) store_host_scheme \<Rightarrow> session_record \<Rightarrow> usize \<Rightarrow> message \<Rightarrow> bool \<Rightarrow>
   ('w, session_record flow) workflow_op" where
  "replace_attempt C E base index replacement honor =
     bindE (if honor then check_cancelled E else ret ()) (\<lambda>_.
     bindE (snapshot E) (\<lambda>(arc, persisted).
       let snap = snd arc; candidate = snap\<lparr>sr_messages := (sr_messages snap)[index := replacement]\<rparr> in
       bindE (lift_fail (check_base replace_failures base snap)) (\<lambda>_.
       bindE (check_turn_record C snap) (\<lambda>_.
         if index \<ge> length (sr_messages snap) then raise_fail fail_placeholder_missing
         else bindE (check_turn_record C candidate) (\<lambda>_.
              bindE (snapshot_is_current E arc persisted) (\<lambda>current.
                if \<not> current then ret Again
                else
                  let expected = expected_revision persisted (sr_revision snap) in
                  bindE (replace_save E honor candidate expected)
                    (save_answer C E replace_failures base honor candidate)))))))"

definition replace_message ::
  "engine_config \<Rightarrow> ('w, 'z) store_host_scheme \<Rightarrow> session_record \<Rightarrow> usize \<Rightarrow> message \<Rightarrow> bool \<Rightarrow>
   ('w, session_record) workflow_op" where
  "replace_message C E base index replacement honor =
     retry MAX_CONFLICT_RETRIES (replace_attempt C E base index replacement honor)
       (raise_fail (cf_contended replace_failures))"

section \<open>Lemmas\<close>

lemma wp_lift_failI:
  "(\<And>f. r = Inl f \<Longrightarrow> X (Error (AbortFailed f)) s) \<Longrightarrow> (\<And>a. r = Inr a \<Longrightarrow> Q a s) \<Longrightarrow>
   wp (lift_fail r) Q X s"
  by (cases r) (simp_all add: lift_fail_def map_err_def)

lemma wp_raise_fail [simp, wp_simps]: "wp (raise_fail f) Q X s = X (Error (AbortFailed f)) s"
  by (simp add: raise_fail_def)

lemma wp_map_op_err [simp, wp_simps]:
  "wp (map_op_err g m) Q X s = wp m Q (\<lambda>e. X (map_stop g e)) s"
  by (simp add: wp_def map_op_err_def catchE_def ret_def fail_def split: prod.splits sum.splits)

lemma wp_check_cancelled [simp, wp_simps]:
  "wp (check_cancelled E) Q X s =
   (let u = sh_yield E s in if ss_cancelled u then X (Error AbortCancelled) u else Q () u)"
  by (simp add: check_cancelled_def Let_def) (simp add: wp_def)

definition turn_record_ok :: "engine_config \<Rightarrow> session_record \<Rightarrow> bool" where
  "turn_record_ok C r \<longleftrightarrow> validate_record (ec_serializer C) r (ec_limits C) = Inr ()"

lemma wp_check_turn_recordI:
  "(\<And>f. X (Error (AbortFailed f)) s) \<Longrightarrow> (turn_record_ok C r \<Longrightarrow> Q () s) \<Longrightarrow>
   wp (check_turn_record C r) Q X s"
  unfolding check_turn_record_def by (rule wp_lift_failI) (auto simp: turn_record_ok_def)

lemma check_base_Inr:
  "check_base F base snap = Inr u \<longleftrightarrow>
   sr_id snap = sr_id base \<and> sr_incarnation_id snap = sr_incarnation_id base
   \<and> sr_messages snap = sr_messages base"
  by (simp add: check_base_def)

text \<open>The candidate a transcript operation may write, and what holds once it is stored.\<close>

definition candidate_for ::
  "engine_config \<Rightarrow> session_record \<Rightarrow> message list \<Rightarrow> session_record \<Rightarrow> bool" where
  "candidate_for C base ms c \<longleftrightarrow> sr_id c = sr_id base \<and> sr_incarnation_id c = sr_incarnation_id base
     \<and> sr_messages c = ms \<and> turn_record_ok C c"

definition transcript_effect :: "engine_config \<Rightarrow> session_record \<Rightarrow> message list \<Rightarrow> effect \<Rightarrow> bool" where
  "transcript_effect C base ms e \<longleftrightarrow>
     load_effect e \<or> (\<exists>c x. candidate_for C base ms c \<and> save_effect c x e)"

definition stored ::
  "engine_config \<Rightarrow> session_record \<Rightarrow> message list \<Rightarrow> 'w sys \<Rightarrow> session_record \<Rightarrow> 'w sys \<Rightarrow> bool" where
  "stored C base ms s r t \<longleftrightarrow>
     (\<exists>c. candidate_for C base ms c \<and> r = c\<lparr>sr_revision := sr_revision r\<rparr>
        \<and> sr_revision c < sr_revision r
        \<and> Saved c (sr_revision r) \<in> set (drop (length (ss_log s)) (ss_log t)))
     \<and> sr_revision r \<le> sr_revision (ss_record t)
     \<and> (sr_revision (ss_record t) = sr_revision r \<longrightarrow> ss_record t = r)"

lemma stored_sel:
  assumes "stored C base ms s r t"
  shows "sr_id r = sr_id base" "sr_incarnation_id r = sr_incarnation_id base" "sr_messages r = ms"
proof -
  from assms obtain c v where "candidate_for C base ms c" "r = c\<lparr>sr_revision := v\<rparr>"
    unfolding stored_def by blast
  then show "sr_id r = sr_id base" "sr_incarnation_id r = sr_incarnation_id base" "sr_messages r = ms"
    by (simp_all add: candidate_for_def)
qed

lemma turn_step_log:
  "turn_step P s t \<Longrightarrow> arc_wf s \<Longrightarrow> e \<in> set (ss_log s) \<Longrightarrow> e \<in> set (ss_log t)"
  by (auto simp: turn_step_def op_step_def)

lemma turn_step_wf: "turn_step P s t \<Longrightarrow> arc_wf s \<Longrightarrow> arc_wf t"
  by (auto dest: turn_step_op op_step_wf)

lemma turn_step_new: "turn_step P s t \<Longrightarrow> arc_wf s \<Longrightarrow> \<exists>new. ss_log t = ss_log s @ new \<and> list_all P new"
  by (simp add: turn_step_def op_step_def)

text \<open>Effects logged since \<open>s\<close> stay logged, and were logged since any earlier state.\<close>

lemma turn_step_log_since:
  assumes "turn_step P t u" "arc_wf t" "e \<in> set (drop n (ss_log t))"
  shows "e \<in> set (drop n (ss_log u))"
  using turn_step_new [OF assms(1,2)] assms(3) by (auto simp: drop_append)

lemma stored_since:
  assumes "turn_step P s t" "arc_wf s" "stored C base ms t r u"
  shows "stored C base ms s r u"
proof -
  have "length (ss_log s) \<le> length (ss_log t)" using turn_step_new [OF assms(1,2)] by auto
  then have "set (drop (length (ss_log t)) (ss_log u)) \<subseteq> set (drop (length (ss_log s)) (ss_log u))"
    by (rule set_drop_subset_set_drop)
  with assms(3) show ?thesis unfolding stored_def by blast
qed

context turn_env
begin

lemma keeps_map_op_err: "keeps R m \<Longrightarrow> keeps R (map_op_err g m)"
  unfolding map_op_err_def by (intro keeps_rules)

lemma keeps_lift_fail: "keeps R (lift_fail r)"
  unfolding lift_fail_def by (rule keeps_lift_err)

lemma keeps_raise_fail: "keeps R (raise_fail f)"
  unfolding raise_fail_def by (rule keeps_raise)

lemma keeps_check_turn_record: "keeps R (check_turn_record C r)"
  unfolding check_turn_record_def by (rule keeps_lift_fail)

lemma keeps_resolve_conflict:
  assumes "\<And>i. P (Constructed (CallLoad i))" "\<And>i. P (Polled (CallLoad i))"
  shows "keeps R (resolve_conflict C E F base honor)"
  unfolding resolve_conflict_def
  by (intro keeps_turn_rules keeps_record_effect keeps_lift_fail keeps_map_op_err assms)

lemma wp_note_saved:
  assumes "R s0 s" "\<And>v. P (Saved r v)"
  shows "wp (note_saved r res)
    (\<lambda>res' t. res' = res \<and> R s0 t \<and>
       (\<forall>v. res = Inr v \<longrightarrow> (\<exists>u. R s0 u \<and> ss_log t = ss_log u @ [Saved r v]))) X s"
  using assms trans [OF assms(1) logged]
  by (auto simp: note_saved_def split: sum.splits)

lemma keeps_commit_save:
  assumes "P (Constructed (CallSave r x))" "P (Polled (CallSave r x))" "\<And>v. P (Saved r v)"
  shows "keeps R (commit_save E mode r x)"
  unfolding commit_save_def
  by (cases mode) (simp, intro keeps_turn_rules keeps_record_effect assms)+

lemma wp_commit_save:
  assumes "R s0 s" "P (Constructed (CallSave r x))" "P (Polled (CallSave r x))" "\<And>v. P (Saved r v)"
  shows "wp (commit_save E mode r x)
    (\<lambda>res t. R s0 t \<and>
       (\<forall>v. res = Inr v \<longrightarrow> (\<exists>u. R s0 u \<and> ss_log t = ss_log u @ [Saved r v]))) (\<lambda>_. R s0) s"
  unfolding commit_save_def
proof (rule wp_seq_acc [OF _ assms(1)])
  show "keeps R (case mode of
      CommitCancellable \<Rightarrow>
        bindE (record_effect (Constructed (CallSave r x))) (\<lambda>_.
          await_cancellable E (CallSave r x) (sh_save E r x))
    | FinalSaveSuccessWins \<Rightarrow> await_final_save E r x)"
    by (cases mode) (simp, intro keeps_turn_rules keeps_record_effect assms)+
  show "wp (note_saved r res) (\<lambda>res t. R s0 t \<and>
       (\<forall>v. res = Inr v \<longrightarrow> (\<exists>u. R s0 u \<and> ss_log t = ss_log u @ [Saved r v]))) (\<lambda>_. R s0) t"
    if "R s0 t" for res t
    by (rule wp_mono [OF wp_note_saved [OF that assms(4)]]) auto
qed

lemma wp_replace_save:
  assumes "R s0 s" "P (Constructed (CallSave r x))" "P (Polled (CallSave r x))" "\<And>v. P (Saved r v)"
  shows "wp (replace_save E honor r x)
    (\<lambda>res t. R s0 t \<and>
       (\<forall>v. res = Inr v \<longrightarrow> (\<exists>u. R s0 u \<and> ss_log t = ss_log u @ [Saved r v]))) (\<lambda>_. R s0) s"
  unfolding replace_save_def
  by (intro wp_seq_acc [OF _ assms(1)] wp_seq_acc keeps_record_effect keeps_await_operation assms
      wp_mono [OF wp_note_saved [OF _ assms(4)]]) auto

end

lemma wp_save_answer:
  assumes env: "env_rely E" and wf: "arc_wf s" and st: "turn_step (transcript_effect C base ms) s t"
    and c: "candidate_for C base ms c" and saved: "\<forall>v. res = Inr v \<longrightarrow>
      (\<exists>u. turn_step (transcript_effect C base ms) s u \<and> ss_log t = ss_log u @ [Saved c v])"
  shows "wp (save_answer C E F base honor c res)
    (\<lambda>f u. turn_step (transcript_effect C base ms) s u
       \<and> (case f of Again \<Rightarrow> True | Done r \<Rightarrow> stored C base ms s r u))
    (\<lambda>_. turn_step (transcript_effect C base ms) s) t"
proof -
  let ?P = "transcript_effect C base ms"
  note T = turn_env_turn_step [OF env, of ?P]
  note S = T [THEN turn_env.axioms(1)]
  have wft: "arc_wf t" using st wf by (rule turn_step_wf)
  have conflict: "wp (resolve_conflict C E F base honor)
      (\<lambda>f u. turn_step ?P s u \<and> (case f of Again \<Rightarrow> True | Done r \<Rightarrow> stored C base ms s r u)) (\<lambda>_. turn_step ?P s) t"
  proof -
    have "keeps (turn_step ?P) (resolve_conflict C E F base honor)"
      by (intro turn_env.keeps_resolve_conflict [OF T]) (auto simp: transcript_effect_def load_effect_def)
    moreover have "wp (resolve_conflict C E F base honor) (\<lambda>f _. f = Again) (\<lambda>_ _. True) t"
      by (simp add: resolve_conflict_def wp_def bindE_def ret_def split: prod.splits sum.splits)
    ultimately show ?thesis
      by (auto simp: wp_def keeps_def split: prod.splits sum.splits
          intro: turn_step_trans [OF st]) (metis snd_conv turn_step_trans [OF st])+
  qed
  have publish: "wp (publish_candidate E (c\<lparr>sr_revision := v\<rparr>))
      (\<lambda>f u. turn_step ?P s u \<and> (case f of Again \<Rightarrow> True | Done r \<Rightarrow> stored C base ms s r u)) (\<lambda>_. turn_step ?P s) t"
    if v: "res = Inr v" "sr_revision c < v" for v
  proof -
    have new: "Saved c v \<in> set (drop (length (ss_log s)) (ss_log t))"
      using saved v(1) turn_step_new [OF _ wf] by fastforce
    then show ?thesis
      unfolding publish_candidate_def
      using c v
      by (simp, intro wp_mono [OF session_env.wp_reconcile_saved [OF S wft]])
        (auto simp: stored_def intro: turn_step_trans [OF st] turn_step_log_since [OF _ wft])
  qed
  show ?thesis
    using conflict publish st by (auto simp: save_answer_def split: sum.splits)
qed

lemma wp_commit_attempt:
  assumes env: "env_rely E" and wf: "arc_wf s"
  shows "wp (commit_attempt C E base ms mode)
    (\<lambda>f t. turn_step (transcript_effect C base (sr_messages base @ ms)) s t
       \<and> (case f of Again \<Rightarrow> True | Done r \<Rightarrow> stored C base (sr_messages base @ ms) s r t))
    (\<lambda>_. turn_step (transcript_effect C base (sr_messages base @ ms)) s) s"
proof -
  let ?ms = "sr_messages base @ ms" and ?P = "transcript_effect C base (sr_messages base @ ms)"
  note T = turn_env_turn_step [OF env, of ?P]
  have yield: "turn_step ?P v (sh_yield E v)" for v
    using env by (simp add: env_rely_def turn_step_rely)
  define u where "u = sh_yield E s"
  define v where "v = sh_yield E u"
  define w where "w = sh_yield E v"
  have u: "turn_step ?P s u" unfolding u_def by (rule yield)
  have v: "turn_step ?P s v" unfolding v_def using u yield by (rule turn_step_trans)
  have w: "turn_step ?P s w" unfolding w_def using v yield by (rule turn_step_trans)
  note facts = u v w u_def [symmetric] v_def [symmetric] w_def [symmetric]
  let ?c = "(ss_record v)\<lparr>sr_messages := sr_messages (ss_record v) @ ms\<rparr>"
  have save: "wp (bindE (commit_save E mode ?c x) (save_answer C E commit_failures base True ?c))
      (\<lambda>f t. turn_step ?P s t \<and> (case f of Again \<Rightarrow> True | Done r \<Rightarrow> stored C base ?ms s r t))
      (\<lambda>_. turn_step ?P s) w"
    if c: "candidate_for C base ?ms ?c" for x
  proof (rule wp_seq [OF turn_env.wp_commit_save [OF T w]])
    show "?P (Constructed (CallSave ?c x))" "?P (Polled (CallSave ?c x))" "\<And>v. ?P (Saved ?c v)"
      using c by (auto simp: transcript_effect_def save_effect_def)
  qed (use wp_save_answer [OF env wf _ c] in auto)
  have cand: "candidate_for C base ?ms ?c"
    if "check_base commit_failures base (ss_record v) = Inr ()" "turn_record_ok C ?c"
    using that by (simp add: candidate_for_def check_base_Inr)
  show ?thesis
    unfolding commit_attempt_def
    by (auto simp: facts Let_def intro!: wp_lift_failI wp_check_turn_recordI save [simplified] cand)
qed

lemma wp_replace_attempt:
  assumes env: "env_rely E" and wf: "arc_wf s"
  shows "wp (replace_attempt C E base index m honor)
    (\<lambda>f t. turn_step (transcript_effect C base ((sr_messages base)[index := m])) s t
       \<and> (case f of Again \<Rightarrow> True | Done r \<Rightarrow> stored C base ((sr_messages base)[index := m]) s r t))
    (\<lambda>_. turn_step (transcript_effect C base ((sr_messages base)[index := m])) s) s"
proof -
  let ?ms = "(sr_messages base)[index := m]" and ?P = "transcript_effect C base ((sr_messages base)[index := m])"
  note T = turn_env_turn_step [OF env, of ?P]
  have yield: "turn_step ?P v (sh_yield E v)" for v
    using env by (simp add: env_rely_def turn_step_rely)
  have tail: "wp (bindE (snapshot E) (\<lambda>(arc, persisted).
       let snap = snd arc; candidate = snap\<lparr>sr_messages := (sr_messages snap)[index := m]\<rparr> in
       bindE (lift_fail (check_base replace_failures base snap)) (\<lambda>_.
       bindE (check_turn_record C snap) (\<lambda>_.
         if index \<ge> length (sr_messages snap) then raise_fail fail_placeholder_missing
         else bindE (check_turn_record C candidate) (\<lambda>_.
              bindE (snapshot_is_current E arc persisted) (\<lambda>current.
                if \<not> current then ret Again
                else
                  let expected = expected_revision persisted (sr_revision snap) in
                  bindE (replace_save E honor candidate expected)
                    (save_answer C E replace_failures base honor candidate)))))))
      (\<lambda>f t. turn_step ?P s t \<and> (case f of Again \<Rightarrow> True | Done r \<Rightarrow> stored C base ?ms s r t))
      (\<lambda>_. turn_step ?P s) u" if u: "turn_step ?P s u" for u
  proof -
    define v where "v = sh_yield E u"
    define w where "w = sh_yield E v"
    have v: "turn_step ?P s v" unfolding v_def using u yield by (rule turn_step_trans)
    have w: "turn_step ?P s w" unfolding w_def using v yield by (rule turn_step_trans)
    note facts = v w v_def [symmetric] w_def [symmetric]
    let ?c = "(ss_record v)\<lparr>sr_messages := (sr_messages (ss_record v))[index := m]\<rparr>"
    have save: "wp (bindE (replace_save E honor ?c x) (save_answer C E replace_failures base honor ?c))
        (\<lambda>f t. turn_step ?P s t \<and> (case f of Again \<Rightarrow> True | Done r \<Rightarrow> stored C base ?ms s r t))
        (\<lambda>_. turn_step ?P s) w"
      if c: "candidate_for C base ?ms ?c" for x
    proof (rule wp_seq [OF turn_env.wp_replace_save [OF T w]])
      show "?P (Constructed (CallSave ?c x))" "?P (Polled (CallSave ?c x))" "\<And>v. ?P (Saved ?c v)"
        using c by (auto simp: transcript_effect_def save_effect_def)
    qed (use wp_save_answer [OF env wf _ c] in auto)
    have cand: "candidate_for C base ?ms ?c"
      if "check_base replace_failures base (ss_record v) = Inr ()" "turn_record_ok C ?c"
      using that by (simp add: candidate_for_def check_base_Inr)
    show ?thesis
      by (auto simp: facts Let_def intro!: wp_lift_failI wp_check_turn_recordI save [simplified] cand)
  qed
  have "keeps (turn_step ?P) (if honor then check_cancelled E else ret ())"
    by (intro turn_env.keeps_check_cancelled [OF T] tn.keeps_if tn.keeps_ret)
  then show ?thesis
    unfolding replace_attempt_def by (rule tn.wp_seq_acc [OF _ turn_step_refl]) (erule tail)
qed

lemma wp_commit_messages:
  assumes env: "env_rely E" and wf: "arc_wf s"
  shows "wp (commit_messages C E base ms mode)
    (\<lambda>r t. turn_step (transcript_effect C base (sr_messages base @ ms)) s t
       \<and> stored C base (sr_messages base @ ms) s r t)
    (\<lambda>_. turn_step (transcript_effect C base (sr_messages base @ ms)) s) s"
  unfolding commit_messages_def
proof (rule wp_retry [where I = "turn_step (transcript_effect C base (sr_messages base @ ms)) s"])
  fix t assume t: "turn_step (transcript_effect C base (sr_messages base @ ms)) s t"
  show "wp (commit_attempt C E base ms mode)
      (\<lambda>f u. case f of Again \<Rightarrow> turn_step (transcript_effect C base (sr_messages base @ ms)) s u
         | Done r \<Rightarrow> turn_step (transcript_effect C base (sr_messages base @ ms)) s u
             \<and> stored C base (sr_messages base @ ms) s r u)
      (\<lambda>_. turn_step (transcript_effect C base (sr_messages base @ ms)) s) t"
    by (rule wp_mono [OF wp_commit_attempt [OF env turn_step_wf [OF t wf]]])
      (auto split: flow.splits intro: turn_step_trans [OF t] stored_since [OF t wf])
qed (simp_all add: turn_step_refl)

lemma wp_replace_message:
  assumes env: "env_rely E" and wf: "arc_wf s"
  shows "wp (replace_message C E base index m honor)
    (\<lambda>r t. turn_step (transcript_effect C base ((sr_messages base)[index := m])) s t
       \<and> stored C base ((sr_messages base)[index := m]) s r t)
    (\<lambda>_. turn_step (transcript_effect C base ((sr_messages base)[index := m])) s) s"
  unfolding replace_message_def
proof (rule wp_retry [where I = "turn_step (transcript_effect C base ((sr_messages base)[index := m])) s"])
  fix t assume t: "turn_step (transcript_effect C base ((sr_messages base)[index := m])) s t"
  show "wp (replace_attempt C E base index m honor)
      (\<lambda>f u. case f of Again \<Rightarrow> turn_step (transcript_effect C base ((sr_messages base)[index := m])) s u
         | Done r \<Rightarrow> turn_step (transcript_effect C base ((sr_messages base)[index := m])) s u
             \<and> stored C base ((sr_messages base)[index := m]) s r u)
      (\<lambda>_. turn_step (transcript_effect C base ((sr_messages base)[index := m])) s) t"
    by (rule wp_mono [OF wp_replace_attempt [OF env turn_step_wf [OF t wf]]])
      (auto split: flow.splits intro: turn_step_trans [OF t] stored_since [OF t wf])
qed (simp_all add: turn_step_refl)

end
