(* ===== verification/Turn_Catalog.thy ===== *)
theory Turn_Catalog
  imports Transcript
begin

text \<open>
  The tools of one turn (\<open>TurnToolCatalog\<close> in \<open>session.rs\<close>): the statically registered
  ones of the engine, followed by the registrations that executions of this turn returned.
\<close>

record turn_catalog =
  cat_tools :: "turn_tool_registration list"
  cat_indexes :: "(tool_name, usize) btree"

definition catalog_default :: turn_catalog where
  "catalog_default = \<lparr>cat_tools = [], cat_indexes = []\<rparr>"

definition engine_tool :: "engine_config \<Rightarrow> tool_name \<Rightarrow> tool_ref option" where
  "engine_tool C name = map_option rt_tool (bt_lookup (ec_tools C) name)"

definition model_specs :: "engine_config \<Rightarrow> turn_catalog \<Rightarrow> tool_spec list" where
  "model_specs C cat = ec_tool_specs C @ map reg_spec (cat_tools cat)"

definition catalog_tool :: "engine_config \<Rightarrow> turn_catalog \<Rightarrow> tool_name \<Rightarrow> tool_ref option" where
  "catalog_tool C cat name =
     (case engine_tool C name of
        Some t \<Rightarrow> Some t
      | None \<Rightarrow> map_option (\<lambda>i. reg_tool (cat_tools cat ! i)) (bt_lookup (cat_indexes cat) name))"

definition fail_static_collision :: turn_failure where
  "fail_static_collision = failure_protocol ''turn_tool_name_collision''
     ''turn-local tool duplicated a statically registered tool name''"

definition fail_captured_collision :: turn_failure where
  "fail_captured_collision = failure_protocol ''turn_tool_name_collision''
     ''turn-local tool name was registered by a different captured implementation''"

definition fail_catalog_serialization :: "serialize_error \<Rightarrow> turn_failure" where
  "fail_catalog_serialization e = failure_protocol ''turn_tool_catalog_serialization''
     (''turn-local tool catalog could not be serialized: '' @ display_serialize_error e)"

definition fail_catalog_size :: turn_failure where
  "fail_catalog_size = failure_limit ''tool_catalog_size_limit''
     ''turn-local tool registration exceeded the configured catalog size limit''"

definition validate_new_registration ::
  "engine_config \<Rightarrow> turn_catalog \<Rightarrow> turn_tool_registration \<Rightarrow> (turn_failure, bool) result" where
  "validate_new_registration C cat reg =
     (let specs = ec_tool_specs C @ map reg_spec (cat_tools cat) @ [reg_spec reg]; l = ec_limits C in
      bind_res (map_err json_limit_failure
          (validate_json_roots (max_json_nodes l) (max_json_depth l) (map ts_input_schema specs))) (\<lambda>_.
      bind_res (check_size (ec_serializer C) (SerCatalog specs) (max_tool_catalog_bytes l)
          fail_catalog_serialization fail_catalog_size) (\<lambda>_. Inr True)))"

definition validate_registration ::
  "engine_config \<Rightarrow> turn_catalog \<Rightarrow> turn_tool_registration \<Rightarrow> (turn_failure, bool) result" where
  "validate_registration C cat reg =
     (if engine_tool C (ts_name (reg_spec reg)) \<noteq> None then Inl fail_static_collision
      else case bt_lookup (cat_indexes cat) (ts_name (reg_spec reg)) of
             Some i \<Rightarrow>
               if reg_ptr (cat_tools cat ! i) = reg_ptr reg then Inr False
               else Inl fail_captured_collision
           | None \<Rightarrow> validate_new_registration C cat reg)"

definition catalog_insert :: "turn_catalog \<Rightarrow> turn_tool_registration \<Rightarrow> turn_catalog" where
  "catalog_insert cat reg =
     \<lparr>cat_tools = cat_tools cat @ [reg],
      cat_indexes = bt_insert (ts_name (reg_spec reg)) (length (cat_tools cat)) (cat_indexes cat)\<rparr>"

section \<open>Invariant\<close>

text \<open>
  The index maps exactly the names of the turn-local tools to their positions, no two of them
  share a name, and none shadows a static tool.
\<close>

definition catalog_invar :: "engine_config \<Rightarrow> turn_catalog \<Rightarrow> bool" where
  "catalog_invar C cat \<longleftrightarrow>
     bt_invar (cat_indexes cat)
     \<and> (\<forall>name i. bt_lookup (cat_indexes cat) name = Some i \<longleftrightarrow>
          i < length (cat_tools cat) \<and> ts_name (reg_spec (cat_tools cat ! i)) = name)
     \<and> (\<forall>reg \<in> set (cat_tools cat). engine_tool C (ts_name (reg_spec reg)) = None)"

lemma catalog_invar_default: "catalog_invar C catalog_default"
  by (simp add: catalog_invar_def catalog_default_def bt_invar_def)

lemma catalog_names_distinct:
  assumes "catalog_invar C cat"
  shows "distinct (map (\<lambda>reg. ts_name (reg_spec reg)) (cat_tools cat))"
proof -
  have "i = j" if "i < length (cat_tools cat)" "j < length (cat_tools cat)"
    "ts_name (reg_spec (cat_tools cat ! i)) = ts_name (reg_spec (cat_tools cat ! j))" for i j
    using assms that unfolding catalog_invar_def by (metis option.inject)
  then show ?thesis by (auto simp: distinct_conv_nth)
qed

lemma validate_registration_True:
  assumes "validate_registration C cat reg = Inr True"
  shows "engine_tool C (ts_name (reg_spec reg)) = None"
    "bt_lookup (cat_indexes cat) (ts_name (reg_spec reg)) = None"
    "validate_new_registration C cat reg = Inr True"
  using assms by (auto simp: validate_registration_def split: if_splits option.splits)

lemma catalog_invar_insert:
  assumes "catalog_invar C cat" and "validate_registration C cat reg = Inr True"
  shows "catalog_invar C (catalog_insert cat reg)"
proof -
  let ?n = "ts_name (reg_spec reg)"
  note v = validate_registration_True [OF assms(2)]
  have inv: "bt_invar (cat_indexes cat)"
    "\<And>name i. bt_lookup (cat_indexes cat) name = Some i \<longleftrightarrow>
       i < length (cat_tools cat) \<and> ts_name (reg_spec (cat_tools cat ! i)) = name"
    "\<forall>reg \<in> set (cat_tools cat). engine_tool C (ts_name (reg_spec reg)) = None"
    using assms(1) by (auto simp: catalog_invar_def)
  have fresh: "\<not> (i < length (cat_tools cat) \<and> ts_name (reg_spec (cat_tools cat ! i)) = ?n)" for i
    using inv(2) [of ?n i] v(2) by auto
  have "bt_lookup (bt_insert ?n (length (cat_tools cat)) (cat_indexes cat)) name = Some i \<longleftrightarrow>
      i < Suc (length (cat_tools cat)) \<and> ts_name (reg_spec ((cat_tools cat @ [reg]) ! i)) = name" for name i
    using inv(2) [of name i] fresh [of i] bt.lookup_insert [OF inv(1)]
    by (auto simp: nth_append less_Suc_eq)
  with inv v(1) show ?thesis
    by (auto simp: catalog_invar_def catalog_insert_def bt.invar_insert)
qed

text \<open>The catalog never changes what a name means.\<close>

lemma catalog_tool_insert:
  assumes "catalog_invar C cat" and "validate_registration C cat reg = Inr True"
    and "catalog_tool C cat name = Some t"
  shows "catalog_tool C (catalog_insert cat reg) name = Some t"
proof (cases "engine_tool C name")
  case None
  then obtain i where i: "bt_lookup (cat_indexes cat) name = Some i" "t = reg_tool (cat_tools cat ! i)"
    using assms(3) by (auto simp: catalog_tool_def)
  have inv: "bt_invar (cat_indexes cat)" using assms(1) by (simp add: catalog_invar_def)
  have "name \<noteq> ts_name (reg_spec reg)"
    using i(1) validate_registration_True(2) [OF assms(2)] by auto
  moreover have "i < length (cat_tools cat)" using assms(1) i(1) by (simp add: catalog_invar_def)
  ultimately show ?thesis
    using i None bt.lookup_insert [OF inv]
    by (simp add: catalog_tool_def catalog_insert_def nth_append)
qed (use assms(3) in \<open>simp add: catalog_tool_def\<close>)

text \<open>Every catalog a turn reaches fits the configured catalog limits.\<close>

lemma validate_new_registration_fits:
  assumes "limits_wf (ec_limits C)" and "validate_new_registration C cat reg = Inr b"
  shows "trees_fit (ec_limits C) (map ts_input_schema (model_specs C (catalog_insert cat reg)))"
    "ser_fits (ec_serializer C) (SerCatalog (model_specs C (catalog_insert cat reg)))
       (max_tool_catalog_bytes (ec_limits C))"
  using assms validate_json_roots_Inr [OF limits_wfD(1,2) [OF assms(1)]]
  by (auto simp: validate_new_registration_def Let_def model_specs_def catalog_insert_def
      check_size_Inr limits_wfD trees_fit_def)

section \<open>Properties\<close>

text \<open>
  C31. Turn-local tools: inserting an accepted registration keeps the index and the list of tools in
  step, never changes what a name already means, makes the new name available, and leaves the
  catalog sent to the provider within its JSON and size limits.
\<close>

theorem accepted_registration_extends_catalog:
  assumes "limits_wf (ec_limits C)" and "catalog_invar C cat" and "validate_registration C cat reg = Inr True"
  shows "catalog_invar C (catalog_insert cat reg)
    \<and> (\<forall>name t. catalog_tool C cat name = Some t \<longrightarrow> catalog_tool C (catalog_insert cat reg) name = Some t)
    \<and> catalog_tool C (catalog_insert cat reg) (ts_name (reg_spec reg)) = Some (reg_tool reg)
    \<and> distinct (map (\<lambda>r. ts_name (reg_spec r)) (cat_tools (catalog_insert cat reg)))
    \<and> trees_fit (ec_limits C) (map ts_input_schema (model_specs C (catalog_insert cat reg)))
    \<and> ser_fits (ec_serializer C) (SerCatalog (model_specs C (catalog_insert cat reg)))
        (max_tool_catalog_bytes (ec_limits C))"
proof (intro conjI allI impI)
  note v = validate_registration_True [OF assms(3)]
  show inv: "catalog_invar C (catalog_insert cat reg)" using assms(2,3) by (rule catalog_invar_insert)
  then show "distinct (map (\<lambda>r. ts_name (reg_spec r)) (cat_tools (catalog_insert cat reg)))"
    by (rule catalog_names_distinct)
  show "catalog_tool C (catalog_insert cat reg) name = Some t" if "catalog_tool C cat name = Some t" for name t
    using assms(2,3) that by (rule catalog_tool_insert)
  have "bt_invar (cat_indexes cat)" using assms(2) by (simp add: catalog_invar_def)
  then show "catalog_tool C (catalog_insert cat reg) (ts_name (reg_spec reg)) = Some (reg_tool reg)"
    using v(1) by (simp add: catalog_tool_def catalog_insert_def bt.lookup_insert)
  show "trees_fit (ec_limits C) (map ts_input_schema (model_specs C (catalog_insert cat reg)))"
    "ser_fits (ec_serializer C) (SerCatalog (model_specs C (catalog_insert cat reg)))
        (max_tool_catalog_bytes (ec_limits C))"
    using validate_new_registration_fits [OF assms(1) v(3)] by auto
qed

definition sample_config :: engine_config where
  "sample_config = \<lparr>ec_serializer = sample_serializer,
     ec_limits = limits_default, ec_sha256 = (\<lambda>_. replicate 32 (CHR 0x00)), ec_tools = [], ec_tool_specs = []\<rparr>"

definition sample_registration :: turn_tool_registration where
  "sample_registration = \<lparr>reg_ptr = 1, reg_spec = \<lparr>ts_name = ToolName ''late'', ts_description = ''d'',
     ts_input_schema = JNull\<rparr>, reg_tool = 7\<rparr>"

theorem accepted_registration_extends_catalog_witness:
  "catalog_tool sample_config (catalog_insert catalog_default sample_registration) (ToolName ''late'') = Some 7"
proof -
  have "validate_registration sample_config catalog_default sample_registration = Inr True"
    by (simp add: validate_registration_def validate_new_registration_def sample_config_def
        sample_registration_def catalog_default_def engine_tool_def Let_def check_size_def limits_default_def
        validate_json_roots_def budget_new_def budget_validate_def charge_node_def push_frame_def
        serialized_json_size_bounded_def to_writer_def counter_write_def usize_checked_add_def usize_max_def
        sample_serializer_def)
  then show ?thesis
    using accepted_registration_extends_catalog [of sample_config catalog_default sample_registration]
      catalog_invar_default limits_default_wf by (simp add: sample_config_def sample_registration_def)
qed

end
