(* ===== verification/Turn_Workflow.thy ===== *)
theory Turn_Workflow
  imports Turn_Catalog
begin

text \<open>
  One turn (\<open>run_turn\<close>, \<open>run_turn_inner\<close> and \<open>await_tool_execution\<close> in
  \<open>session.rs\<close>): bounded rounds of provider output, durable publication of the requested
  calls with placeholder results, permission, execution, and replacement of each placeholder.

  The provider, the tools and the permission handler are trait objects of the host. The model
  receives what one poll of their futures returns, or what a synchronous method returns, as the
  fields of \<open>turn_host\<close>. The variables of the function are the record \<open>turn_vars\<close>, those of
  one provider round \<open>round_vars\<close>. The function's two loops are \<open>iterate\<close> of their
  bodies: the fuel is the configured number of events or rounds plus one, and it is never used up,
  because a pass that continues has counted an event or a round within the limit.
\<close>

record 'w turn_host = "'w store_host" +
  th_stream :: "model_request \<Rightarrow> ('w, (provider_error, unit) result) future"
  th_next_item :: "('w, (provider_error, model_event) result option) future"
  th_input_limits :: "tool_ref \<Rightarrow> 'w \<Rightarrow> tool_input_limits option"
  th_output_limits :: "tool_ref \<Rightarrow> 'w \<Rightarrow> tool_output_limits option"
  th_persist_arguments :: "tool_ref \<Rightarrow> tool_context \<Rightarrow> json \<Rightarrow> ('w, (tool_error, json option) result) future"
  th_prepare :: "tool_ref \<Rightarrow> tool_context \<Rightarrow> tool_call \<Rightarrow> 'w \<Rightarrow> (tool_error, prepared_tool_call) result \<times> 'w"
  th_authorize :: "permission_request \<Rightarrow> tool_name \<Rightarrow> tool_call_id \<Rightarrow> json \<Rightarrow>
    ('w, (permission_error, permission_authorization) result) future"
  th_admit :: "nat \<Rightarrow> 'w \<Rightarrow> (permission_error, unit) result \<times> 'w"
  th_execute :: "tool_ref \<Rightarrow> tool_context \<Rightarrow> tool_name \<Rightarrow> json \<Rightarrow> ('w, (tool_error, tool_execution) result) future"
  th_emit :: "turn_event \<Rightarrow> ('w, unit) future"

section \<open>Loops\<close>

fun iterate :: "nat \<Rightarrow> ('x \<Rightarrow> ('s, 'e stop, 'x + 'a) op) \<Rightarrow> 'x \<Rightarrow> ('s, 'e stop, 'a) op" where
  "iterate 0 body x = fail Dropped"
| "iterate (Suc n) body x =
     bindE (body x) (\<lambda>r. case r of Inl y \<Rightarrow> iterate n body y | Inr a \<Rightarrow> ret a)"

section \<open>Failures\<close>

definition fail_round_overflow :: turn_failure where
  "fail_round_overflow = failure_limit ''model_round_limit'' ''model round count overflowed''"

definition fail_round_limit :: turn_failure where
  "fail_round_limit = failure_limit ''model_round_limit''
     ''turn exceeded the configured model round limit''"

definition fail_projection :: turn_failure where
  "fail_projection = failure_protocol ''context_projection_failed''
     ''projected context exceeded its limits''"

definition fail_event_overflow :: turn_failure where
  "fail_event_overflow = failure_limit ''model_event_limit'' ''model event count overflowed''"

definition fail_event_limit :: turn_failure where
  "fail_event_limit = failure_limit ''model_event_limit''
     ''turn exceeded the configured model event limit''"

definition fail_text_overflow :: turn_failure where
  "fail_text_overflow = failure_limit ''assistant_text_size_limit'' ''assistant text size overflowed''"

definition fail_text_limit :: turn_failure where
  "fail_text_limit = failure_limit ''assistant_text_size_limit''
     ''turn exceeded the configured assistant text size limit''"

definition fail_reasoning_overflow :: turn_failure where
  "fail_reasoning_overflow = failure_limit ''reasoning_size_limit'' ''reasoning byte count overflowed''"

definition fail_reasoning_limit :: turn_failure where
  "fail_reasoning_limit = failure_limit ''reasoning_size_limit''
     ''turn exceeded the configured reasoning size limit''"

definition fail_round_calls_overflow :: turn_failure where
  "fail_round_calls_overflow = failure_limit ''tool_calls_per_round_limit''
     ''model-round tool call count overflowed''"

definition fail_round_calls_limit :: turn_failure where
  "fail_round_calls_limit = failure_limit ''tool_calls_per_round_limit''
     ''model round exceeded the configured tool-call limit''"

definition fail_turn_calls_overflow :: turn_failure where
  "fail_turn_calls_overflow = failure_limit ''tool_call_limit'' ''turn tool call count overflowed''"

definition fail_calls_overflow :: turn_failure where
  "fail_calls_overflow = failure_limit ''tool_call_limit'' ''tool call count overflowed''"

definition fail_calls_limit :: turn_failure where
  "fail_calls_limit = failure_limit ''tool_call_limit'' ''turn exceeded the configured tool call limit''"

definition fail_duplicate_call :: "tool_call_id \<Rightarrow> turn_failure" where
  "fail_duplicate_call i = failure_protocol ''duplicate_tool_call_id''
     (''tool-call ID '' @ tool_call_id_str i @ '' was repeated in one turn'')"

definition fail_unregistered :: "tool_name \<Rightarrow> turn_failure" where
  "fail_unregistered n = failure_protocol ''unknown_tool''
     (''provider requested unregistered tool '' @ tool_name_str n)"

definition fail_argument_bytes_budget :: turn_failure where
  "fail_argument_bytes_budget = failure_limit ''cumulative_complete_tool_argument_size_limit''
     ''complete tool inputs exceeded the configured turn budget''"

definition fail_argument_nodes_budget :: turn_failure where
  "fail_argument_nodes_budget = failure_limit ''cumulative_complete_tool_argument_node_limit''
     ''complete tool inputs exceeded the configured turn budget''"

definition fail_placeholder_serialization :: turn_failure where
  "fail_placeholder_serialization = failure_protocol ''tool_result_serialization''
     ''tool result placeholder could not be serialized''"

definition fail_placeholder_size :: turn_failure where
  "fail_placeholder_size = failure_limit ''tool_result_size_limit''
     ''configured result limit cannot hold the required result placeholder''"

definition fail_placeholder_overflow :: turn_failure where
  "fail_placeholder_overflow = failure_limit ''cumulative_tool_result_size_limit''
     ''placeholder result byte count overflowed''"

definition fail_placeholder_sum_overflow :: turn_failure where
  "fail_placeholder_sum_overflow = failure_limit ''cumulative_tool_result_size_limit''
     ''cumulative placeholder result byte count overflowed''"

definition fail_placeholder_cumulative :: turn_failure where
  "fail_placeholder_cumulative = failure_limit ''cumulative_tool_result_size_limit''
     ''configured cumulative result limit cannot hold required result placeholders''"

definition fail_placeholder_index :: turn_failure where
  "fail_placeholder_index = failure_limit ''transcript_message_limit''
     ''placeholder message index overflowed''"

definition fail_disappeared_before_publication :: turn_failure where
  "fail_disappeared_before_publication = failure_protocol ''unknown_tool''
     ''tool disappeared before publication''"

definition fail_publication :: turn_failure where
  "fail_publication = failure_protocol ''tool_argument_publication_failed''
     ''tool argument publication failed''"

definition fail_unexpected_projection :: turn_failure where
  "fail_unexpected_projection = failure_protocol ''unexpected_persisted_tool_arguments''
     ''tool supplied persisted arguments without an explicit input policy''"

definition fail_disappeared_after_validation :: "tool_name \<Rightarrow> turn_failure" where
  "fail_disappeared_after_validation n = failure_protocol ''unknown_tool''
     (''tool '' @ tool_name_str n @ '' disappeared after round validation'')"

definition fail_result_serialization :: "serialize_error \<Rightarrow> turn_failure" where
  "fail_result_serialization e = failure_protocol ''tool_result_serialization''
     (''tool result could not be serialized: '' @ display_serialize_error e)"

definition fail_result_size :: turn_failure where
  "fail_result_size = failure_limit ''tool_result_size_limit''
     ''tool result exceeded the configured serialized size limit''"

definition fail_cumulative_result_size :: turn_failure where
  "fail_cumulative_result_size = failure_limit ''cumulative_tool_result_size_limit''
     ''turn exceeded the cumulative tool result size limit''"

definition fail_registration_on_error :: turn_failure where
  "fail_registration_on_error = failure_protocol ''turn_tool_registration_on_error''
     ''an error tool output cannot register a turn-local tool''"

definition permission_reason :: string where
  "permission_reason = ''model requested this registered tool''"

section \<open>Variables\<close>

record turn_vars =
  tv_model_rounds :: usize
  tv_model_events :: usize
  tv_tool_calls :: usize
  tv_result_bytes :: usize
  tv_complete_result_bytes :: usize
  tv_argument_bytes :: usize
  tv_argument_nodes :: usize
  tv_seen_call_ids :: "tool_call_id set"
  tv_usage :: token_usage
  tv_assistant_bytes :: usize
  tv_reasoning_bytes :: usize
  tv_tools :: turn_catalog
  tv_record :: session_record

definition turn_vars_init :: "session_record \<Rightarrow> turn_vars" where
  "turn_vars_init r = \<lparr>tv_model_rounds = 0, tv_model_events = 0, tv_tool_calls = 0,
     tv_result_bytes = 0, tv_complete_result_bytes = 0, tv_argument_bytes = 0, tv_argument_nodes = 0,
     tv_seen_call_ids = {}, tv_usage = usage_default, tv_assistant_bytes = 0,
     tv_reasoning_bytes = 0, tv_tools = catalog_default, tv_record = r\<rparr>"

record round_vars =
  rv_text :: string
  rv_calls :: "tool_call list"
  rv_input_limits :: "tool_input_limits option list"
  rv_call_ids :: "tool_call_id set"
  rv_usage :: token_usage

definition round_vars_init :: round_vars where
  "round_vars_init = \<lparr>rv_text = [], rv_calls = [], rv_input_limits = [], rv_call_ids = {},
     rv_usage = usage_default\<rparr>"

record completed_turn =
  ct_reason :: stop_reason
  ct_usage :: token_usage

definition bounded_add ::
  "usize \<Rightarrow> usize \<Rightarrow> usize \<Rightarrow> turn_failure \<Rightarrow> turn_failure \<Rightarrow> (turn_failure, usize) result" where
  "bounded_add used added limit overflow exceeded =
     (case usize_checked_add used added of
        None \<Rightarrow> Inl overflow
      | Some n \<Rightarrow> if n > limit then Inl exceeded else Inr n)"

definition emit :: "('w, 'z) turn_host_scheme \<Rightarrow> turn_event \<Rightarrow> ('w, unit) workflow_op" where
  "emit E ev = bindE (record_effect (Constructed (CallEmit ev))) (\<lambda>_. await E (CallEmit ev) (th_emit E ev))"

definition set_usage :: "token_usage \<Rightarrow> ('w sys, 'e, unit) op" where
  "set_usage u = modify (\<lambda>s. s\<lparr>ss_usage := u\<rparr>)"

definition establish_terminal :: "('w sys, 'e, unit) op" where
  "establish_terminal = modify (\<lambda>s. s\<lparr>ss_terminal := True\<rparr>)"

definition defer_cancellation :: "('w sys, 'e, unit) op" where
  "defer_cancellation = modify (\<lambda>s. s\<lparr>ss_deferrals := ss_deferrals s + 1\<rparr>)"

text \<open>
  A deferral is a local value and is dropped on every exit of the block that owns it;
  \<open>scoped_deferral\<close> is a block that hands it over when it succeeds.
\<close>

definition releasing :: "bool \<Rightarrow> ('w, 'a) workflow_op \<Rightarrow> ('w, 'a) workflow_op" where
  "releasing deferred m s =
     (case m s of (r, t) \<Rightarrow> (r, if deferred then t\<lparr>ss_deferrals := ss_deferrals t - 1\<rparr> else t))"

definition scoped_deferral :: "('w, 'a) workflow_op \<Rightarrow> ('w, 'a) workflow_op" where
  "scoped_deferral m s =
     (case m s of (Inl e, t) \<Rightarrow> (Inl e, t\<lparr>ss_deferrals := ss_deferrals s\<rparr>) | (Inr a, t) \<Rightarrow> (Inr a, t))"

section \<open>Provider events\<close>

definition argument_limits :: "engine_limits \<Rightarrow> tool_input_limits option \<Rightarrow> engine_limits" where
  "argument_limits l input =
     (case input of None \<Rightarrow> l
      | Some i \<Rightarrow> l\<lparr>max_tool_argument_bytes := til_max_argument_bytes i,
                   max_json_nodes := til_max_argument_nodes i\<rparr>)"

definition charge_arguments ::
  "engine_limits \<Rightarrow> tool_input_limits option \<Rightarrow> usize \<times> usize \<Rightarrow> turn_vars \<Rightarrow> (turn_failure, turn_vars) result" where
  "charge_arguments l input used tv =
     (if input = None then Inr tv
      else bind_res (add_complete_input_budget (tv_argument_bytes tv) (fst used)
                       (max_cumulative_complete_tool_argument_bytes l) fail_argument_bytes_budget) (\<lambda>b.
           bind_res (add_complete_input_budget (tv_argument_nodes tv) (snd used)
                       (max_cumulative_complete_tool_argument_nodes l) fail_argument_nodes_budget) (\<lambda>n.
             Inr (tv\<lparr>tv_argument_bytes := b, tv_argument_nodes := n\<rparr>))))"

definition accept_tool_call ::
  "engine_config \<Rightarrow> (tool_ref \<Rightarrow> tool_input_limits option) \<Rightarrow> tool_call \<Rightarrow> turn_vars \<Rightarrow> round_vars \<Rightarrow>
   (turn_failure, turn_vars \<times> round_vars) result" where
  "accept_tool_call C inputs call tv rv =
     (let l = ec_limits C in
      bind_res (bounded_add (length (rv_calls rv)) 1 (max_tool_calls_per_round l)
                  fail_round_calls_overflow fail_round_calls_limit) (\<lambda>round_count.
      bind_res (bounded_add (tv_tool_calls tv) round_count (max_tool_calls_per_turn l)
                  fail_turn_calls_overflow fail_calls_limit) (\<lambda>_.
      if tc_id call \<in> tv_seen_call_ids tv \<or> tc_id call \<in> rv_call_ids rv
      then Inl (fail_duplicate_call (tc_id call))
      else
      bind_res (ok_or (fail_unregistered (tc_name call)) (catalog_tool C (tv_tools tv) (tc_name call))) (\<lambda>tool.
      bind_res (validate_tool_arguments (ec_serializer C) (tc_arguments call) (argument_limits l (inputs tool))) (\<lambda>used.
      bind_res (charge_arguments l (inputs tool) used tv) (\<lambda>tv'.
        Inr (tv', rv\<lparr>rv_calls := rv_calls rv @ [call],
                     rv_input_limits := rv_input_limits rv @ [inputs tool],
                     rv_call_ids := insert (tc_id call) (rv_call_ids rv)\<rparr>)))))))"

text \<open>One provider event other than a stop; the last component is the usage to publish.\<close>

definition accept_event ::
  "engine_config \<Rightarrow> (tool_ref \<Rightarrow> tool_input_limits option) \<Rightarrow> model_event \<Rightarrow> turn_vars \<Rightarrow> round_vars \<Rightarrow>
   (turn_failure, turn_vars \<times> round_vars \<times> token_usage option) result" where
  "accept_event C inputs ev tv rv =
     (case ev of
        TextDelta t \<Rightarrow>
          bind_res (bounded_add (tv_assistant_bytes tv) (length t) (max_assistant_text_bytes (ec_limits C))
                      fail_text_overflow fail_text_limit) (\<lambda>n.
            Inr (tv\<lparr>tv_assistant_bytes := n\<rparr>, rv\<lparr>rv_text := rv_text rv @ t\<rparr>, None))
      | ReasoningDelta t \<Rightarrow>
          bind_res (bounded_add (tv_reasoning_bytes tv) (length t) (max_reasoning_bytes (ec_limits C))
                      fail_reasoning_overflow fail_reasoning_limit) (\<lambda>n.
            Inr (tv\<lparr>tv_reasoning_bytes := n\<rparr>, rv, None))
      | ModelToolCall call \<Rightarrow>
          bind_res (accept_tool_call C inputs call tv rv) (\<lambda>(tv', rv'). Inr (tv', rv', None))
      | Usage u \<Rightarrow>
          bind_res (checked_usage_add (tv_usage tv) u) (\<lambda>published.
            Inr (tv, rv\<lparr>rv_usage := u\<rparr>, Some published))
      | Stop _ \<Rightarrow> Inr (tv, rv, None))"

definition accept_step ::
  "engine_config \<Rightarrow> ('w, 'z) turn_host_scheme \<Rightarrow> model_event \<Rightarrow> turn_vars \<Rightarrow> round_vars \<Rightarrow>
   ('w, turn_vars \<times> round_vars) workflow_op" where
  "accept_step C E ev tv rv =
     bindE (get (\<lambda>s. \<lambda>t. th_input_limits E t (ss_world s))) (\<lambda>inputs.
     bindE (lift_fail (accept_event C inputs ev tv rv)) (\<lambda>(tv', rv', published).
     bindE (case published of None \<Rightarrow> ret () | Some u \<Rightarrow> set_usage u) (\<lambda>_.
     bindE (emit E (Model ev)) (\<lambda>_. ret (tv', rv')))))"

definition model_event_step ::
  "engine_config \<Rightarrow> ('w, 'z) turn_host_scheme \<Rightarrow> turn_vars \<times> round_vars \<Rightarrow>
   ('w, (turn_vars \<times> round_vars) + (stop_reason \<times> turn_vars \<times> round_vars)) workflow_op" where
  "model_event_step C E vars =
     (let tv = fst vars; rv = snd vars; l = ec_limits C in
      bindE (next_model_item E (th_next_item E)) (\<lambda>item.
        case item of
          None \<Rightarrow> raise_fail failure_missing_stop
        | Some res \<Rightarrow>
            bindE (lift_fail (bounded_add (tv_model_events tv) 1 (max_model_events_per_turn l)
                     fail_event_overflow fail_event_limit)) (\<lambda>n.
            let tv1 = tv\<lparr>tv_model_events := n\<rparr> in
            case res of
              Inl e \<Rightarrow> raise_fail (failure_provider e)
            | Inr (Stop reason) \<Rightarrow>
                bindE (lift_fail (validate_stop_reason reason l)) (\<lambda>_. ret (Inr (reason, tv1, rv)))
            | Inr ev \<Rightarrow> bindE (accept_step C E ev tv1 rv) (\<lambda>vars'. ret (Inl vars')))))"

definition model_events_loop ::
  "engine_config \<Rightarrow> ('w, 'z) turn_host_scheme \<Rightarrow> turn_vars \<Rightarrow>
   ('w, stop_reason \<times> turn_vars \<times> round_vars) workflow_op" where
  "model_events_loop C E tv =
     iterate (Suc (max_model_events_per_turn (ec_limits C))) (model_event_step C E) (tv, round_vars_init)"

section \<open>Opening a round\<close>

definition request_messages ::
  "engine_config \<Rightarrow> turn_start \<Rightarrow> session_record \<Rightarrow> (turn_failure, message list) result" where
  "request_messages C st r =
     (case st_context st of
        Some vc \<Rightarrow> map_err (\<lambda>_. fail_projection)
                     (context_messages (ec_serializer C) vc (sr_messages r) (ec_limits C))
      | None \<Rightarrow> Inr (sr_messages r))"

definition turn_request ::
  "engine_config \<Rightarrow> turn_start \<Rightarrow> turn_vars \<Rightarrow> message list \<Rightarrow> model_request" where
  "turn_request C st tv messages =
     \<lparr>mr_session_id = sr_id (st_record st),
      mr_session_incarnation_id = sr_incarnation_id (st_record st),
      mr_turn_id = st_turn_id st,
      mr_messages = messages,
      mr_tools = model_specs C (tv_tools tv),
      mr_options = st_options st\<rparr>"

definition open_round ::
  "engine_config \<Rightarrow> ('w, 'z) turn_host_scheme \<Rightarrow> turn_start \<Rightarrow> turn_vars \<Rightarrow> ('w, turn_vars) workflow_op" where
  "open_round C E st tv =
     (let l = ec_limits C in
      bindE (check_cancelled E) (\<lambda>_.
      bindE (lift_fail (bounded_add (tv_model_rounds tv) 1 (max_model_rounds l)
               fail_round_overflow fail_round_limit)) (\<lambda>n.
      bindE (check_turn_record C (tv_record tv)) (\<lambda>_.
      bindE (lift_fail (validate_inference_options (ec_serializer C) (st_options st) l)) (\<lambda>_.
      bindE (lift_fail (request_messages C st (tv_record tv))) (\<lambda>messages.
      let request = turn_request C st tv messages in
      bindE (check_cancelled E) (\<lambda>_.
      bindE (record_effect (Constructed (CallStream request))) (\<lambda>_.
      bindE (await_cancellable E (CallStream request) (th_stream E request)) (\<lambda>res.
      bindE (lift_fail (map_err failure_provider res)) (\<lambda>_.
        ret (tv\<lparr>tv_model_rounds := n\<rparr>)))))))))))"

section \<open>Ending a turn without calls\<close>

definition finish_without_calls ::
  "engine_config \<Rightarrow> ('w, 'z) turn_host_scheme \<Rightarrow> turn_vars \<Rightarrow> round_vars \<Rightarrow> stop_reason \<Rightarrow>
   ('w, completed_turn) workflow_op" where
  "finish_without_calls C E tv rv reason =
     bindE (commit_message C E (tv_record tv)
              \<lparr>m_role = Assistant, m_content = assistant_message_content (rv_text rv) []\<rparr>
              FinalSaveSuccessWins) (\<lambda>_.
     bindE (establish_terminal) (\<lambda>_.
     bindE (emit E (Model (Stop reason))) (\<lambda>_.
       ret \<lparr>ct_reason = reason, ct_usage = tv_usage tv\<rparr>)))"

section \<open>Publishing the calls of a round\<close>

definition reserve_placeholders ::
  "engine_config \<Rightarrow> turn_vars \<Rightarrow> usize \<Rightarrow> (turn_failure, usize \<times> usize) result" where
  "reserve_placeholders C tv n =
     (let l = ec_limits C in
      bind_res (check_size (ec_serializer C) (SerToolOutput unknown_tool_result)
                  (max_serialized_tool_result_bytes l)
                  (\<lambda>_. fail_placeholder_serialization) fail_placeholder_size) (\<lambda>placeholder_bytes.
      bind_res (ok_or fail_placeholder_overflow (usize_checked_mul placeholder_bytes n)) (\<lambda>placeholder_total.
      bind_res (ok_or fail_placeholder_sum_overflow
                  (usize_checked_add (tv_result_bytes tv) placeholder_total)) (\<lambda>cumulative.
        if cumulative > max_cumulative_tool_result_bytes l then Inl fail_placeholder_cumulative
        else Inr (placeholder_bytes, cumulative)))))"

definition tool_context_for :: "turn_start \<Rightarrow> tool_call_id \<Rightarrow> tool_context" where
  "tool_context_for st i =
     \<lparr>tctx_session_id = sr_id (st_record st),
      tctx_session_incarnation_id = sr_incarnation_id (st_record st),
      tctx_turn_id = st_turn_id st,
      tctx_call_id = i\<rparr>"

definition persisted_arguments ::
  "engine_config \<Rightarrow> tool_call \<Rightarrow> tool_input_limits option \<Rightarrow> json option \<Rightarrow> (turn_failure, json) result" where
  "persisted_arguments C call input projection =
     (case projection of
        Some v \<Rightarrow>
          if input = None then Inl fail_unexpected_projection
          else bind_res (validate_tool_arguments (ec_serializer C) v (ec_limits C)) (\<lambda>_. Inr v)
      | None \<Rightarrow>
          bind_res (validate_tool_arguments (ec_serializer C) (tc_arguments call) (ec_limits C))
            (\<lambda>_. Inr (tc_arguments call)))"

definition persist_call ::
  "engine_config \<Rightarrow> ('w, 'z) turn_host_scheme \<Rightarrow> turn_start \<Rightarrow> turn_catalog \<Rightarrow> tool_call \<times> tool_input_limits option \<Rightarrow>
   ('w, tool_call) workflow_op" where
  "persist_call C E st cat entry =
     (let call = fst entry; tool_context = tool_context_for st (tc_id call) in
      bindE (check_cancelled E) (\<lambda>_.
      bindE (lift_fail (ok_or fail_disappeared_before_publication (catalog_tool C cat (tc_name call)))) (\<lambda>tool.
      let c = CallPersistArguments tool tool_context (tc_arguments call) in
      bindE (record_effect (Constructed c)) (\<lambda>_.
      bindE (await_cancellable E c (th_persist_arguments E tool tool_context (tc_arguments call))) (\<lambda>res.
      bindE (lift_fail (map_err (\<lambda>_. fail_publication) res)) (\<lambda>projection.
      bindE (lift_fail (persisted_arguments C call (snd entry) projection)) (\<lambda>arguments.
        ret (call\<lparr>tc_arguments := arguments\<rparr>))))))))"

fun map_op :: "('a \<Rightarrow> ('s, 'e, 'b) op) \<Rightarrow> 'a list \<Rightarrow> ('s, 'e, 'b list) op" where
  "map_op f [] = ret []"
| "map_op f (x # xs) = bindE (f x) (\<lambda>y. bindE (map_op f xs) (\<lambda>ys. ret (y # ys)))"

definition round_messages :: "string \<Rightarrow> tool_call list \<Rightarrow> tool_call list \<Rightarrow> message list" where
  "round_messages t persisted calls =
     \<lparr>m_role = Assistant, m_content = assistant_message_content t persisted\<rparr>
     # map (\<lambda>call. tool_result_message (tc_id call) unknown_tool_result) calls"

text \<open>The call budget, the placeholder budget, publication and the commit of the round.\<close>

record round_plan =
  rp_total :: usize
  rp_placeholder_bytes :: usize
  rp_placeholder_start :: usize

definition publish_round ::
  "engine_config \<Rightarrow> ('w, 'z) turn_host_scheme \<Rightarrow> turn_start \<Rightarrow> turn_vars \<Rightarrow> round_vars \<Rightarrow> stop_reason \<Rightarrow>
   ('w, turn_vars \<times> round_plan) workflow_op" where
  "publish_round C E st tv rv reason =
     (let l = ec_limits C; calls = rv_calls rv in
      bindE (lift_fail (bounded_add (tv_tool_calls tv) (length calls) (max_tool_calls_per_turn l)
               fail_calls_overflow fail_calls_limit)) (\<lambda>new_total.
      let tv1 = tv\<lparr>tv_seen_call_ids := tv_seen_call_ids tv \<union> set (map tc_id calls)\<rparr> in
      bindE (lift_fail (reserve_placeholders C tv1 (length calls))) (\<lambda>(placeholder_bytes, cumulative).
      bindE (emit E (Model (Stop reason))) (\<lambda>_.
      bindE (map_op (persist_call C E st (tv_tools tv1)) (zip calls (rv_input_limits rv))) (\<lambda>persisted.
      bindE (lift_fail (ok_or fail_placeholder_index
               (usize_checked_add (length (sr_messages (tv_record tv1))) 1))) (\<lambda>placeholder_start.
      bindE (commit_messages C E (tv_record tv1) (round_messages (rv_text rv) persisted calls)
               CommitCancellable) (\<lambda>r.
        ret (tv1\<lparr>tv_record := r, tv_result_bytes := cumulative\<rparr>,
             \<lparr>rp_total = new_total, rp_placeholder_bytes = placeholder_bytes,
              rp_placeholder_start = placeholder_start\<rparr>))))))))"

section \<open>Preparation and permission\<close>

definition host_prepare ::
  "('w, 'z) turn_host_scheme \<Rightarrow> tool_ref \<Rightarrow> tool_context \<Rightarrow> tool_call \<Rightarrow>
   ('w, (tool_error, prepared_tool_call) result) workflow_op" where
  "host_prepare E tool ctx call s =
     (case th_prepare E tool ctx call (ss_world s) of
        (Inl e, w) \<Rightarrow> (Inr (Inl e), s\<lparr>ss_world := w\<rparr>)
      | (Inr p, w) \<Rightarrow> (Inr (Inr p), s\<lparr>ss_world := w, ss_log := ss_log s @ [Prepared tool ctx call p]\<rparr>))"

definition permission_request_for ::
  "turn_start \<Rightarrow> permission_request_id \<Rightarrow> capability \<Rightarrow> permission_request" where
  "permission_request_for st i cap =
     \<lparr>pr_id = i, pr_session_id = sr_id (st_record st),
      pr_session_incarnation_id = sr_incarnation_id (st_record st), pr_turn_id = st_turn_id st,
      pr_capability = cap, pr_risk = RiskCritical, pr_reason = permission_reason\<rparr>"

definition bounded_decision :: "engine_limits \<Rightarrow> permission_decision \<Rightarrow> permission_decision" where
  "bounded_decision l d =
     (case d of Allow scope \<Rightarrow> Allow scope
      | Deny reason \<Rightarrow> Deny (bounded_text reason (max_permission_denial_reason_bytes l)))"

definition is_deny :: "permission_decision \<Rightarrow> bool" where
  "is_deny d = (case d of Allow _ \<Rightarrow> False | Deny _ \<Rightarrow> True)"

definition call_ordinal :: "usize \<Rightarrow> usize \<Rightarrow> (turn_failure, usize) result" where
  "call_ordinal tool_calls round_index =
     ok_or fail_calls_overflow
       (Option.bind (usize_checked_add tool_calls round_index) (\<lambda>n. usize_checked_add n 1))"

text \<open>The answer: whether the call is denied, and the admission of the policy if it gave one.\<close>

definition authorize_call ::
  "engine_config \<Rightarrow> ('w, 'z) turn_host_scheme \<Rightarrow> turn_start \<Rightarrow> usize \<Rightarrow> usize \<Rightarrow> tool_call \<Rightarrow> prepared_tool_call \<Rightarrow>
   ('w, bool \<times> nat option) workflow_op" where
  "authorize_call C E st tool_calls round_index call prepared =
     (case pt_authorization prepared of
        NoAuthorityRequired \<Rightarrow> ret (False, None)
      | PermissionRequired cap \<Rightarrow>
          bindE (lift_fail (call_ordinal tool_calls round_index)) (\<lambda>ordinal.
          bindE (lift_fail (permission_request_id (ec_sha256 C) (sr_id (st_record st))
                   (sr_incarnation_id (st_record st)) (st_turn_id st) ordinal)) (\<lambda>i.
          let request = permission_request_for st i cap;
              c = CallAuthorize request (tc_name call) (tc_id call) (pt_arguments prepared) in
          bindE (emit E (PermissionRequested request)) (\<lambda>_.
          bindE (record_effect (Constructed c)) (\<lambda>_.
          bindE (await_cancellable E c
                   (th_authorize E request (tc_name call) (tc_id call) (pt_arguments prepared))) (\<lambda>res.
          bindE (lift_fail (map_err failure_permission res)) (\<lambda>authorization.
          bindE (record_effect (Authorized request authorization)) (\<lambda>_.
          let decision = bounded_decision (ec_limits C) (pa_decision authorization) in
          bindE (emit E (PermissionResolved i decision)) (\<lambda>_.
            ret (is_deny decision, pa_admission authorization))))))))))"

section \<open>Execution\<close>

definition host_admit :: "('w, 'z) turn_host_scheme \<Rightarrow> nat \<Rightarrow> ('w, unit) workflow_op" where
  "host_admit E adm s =
     (case th_admit E adm (ss_world s) of
        (Inl e, w) \<Rightarrow> (Inl (Error (AbortFailed (failure_permission e))), s\<lparr>ss_world := w\<rparr>)
      | (Inr _, w) \<Rightarrow> (Inr (), s\<lparr>ss_world := w, ss_log := ss_log s @ [Admitted adm]\<rparr>))"

text \<open>
  One poll of the execution. With an admission the tool future is constructed in the first poll,
  after the admission and between two looks at the cancellation; without one it exists already.
\<close>

definition execution_poll ::
  "('w, 'z) turn_host_scheme \<Rightarrow> nat option \<Rightarrow> host_call \<Rightarrow> ('w, (tool_error, tool_execution) result) future \<Rightarrow>
   bool \<Rightarrow> ('w, (tool_error, tool_execution) result option) workflow_op" where
  "execution_poll E admission c f first =
     bindE (case admission of
         Some adm \<Rightarrow>
           if first then
             bindE (check_cancelled E) (\<lambda>_.
             bindE (host_admit E adm) (\<lambda>_.
             bindE (check_cancelled E) (\<lambda>_.
               record_effect (Constructed c))))
           else ret ()
       | None \<Rightarrow> ret ()) (\<lambda>_. host_poll c f)"

definition cancellable_execution_poll ::
  "('w, 'z) turn_host_scheme \<Rightarrow> nat option \<Rightarrow> host_call \<Rightarrow> ('w, (tool_error, tool_execution) result) future \<Rightarrow>
   bool \<Rightarrow> ('w, (tool_error, tool_execution) result option) workflow_op" where
  "cancellable_execution_poll E admission c f first =
     bindE (check_cancelled E) (\<lambda>_.
     bindE (execution_poll E admission c f first) (\<lambda>r.
     bindE (check_cancelled E) (\<lambda>_. ret r)))"

definition committed_execution_poll ::
  "('w, 'z) turn_host_scheme \<Rightarrow> nat option \<Rightarrow> host_call \<Rightarrow> ('w, (tool_error, tool_execution) result) future \<Rightarrow>
   bool \<Rightarrow> ('w, (tool_error, tool_execution) result option) workflow_op" where
  "committed_execution_poll E admission c f first =
     bindE (if first then bindE (check_cancelled E) (\<lambda>_. defer_cancellation) else ret ())
       (\<lambda>_. execution_poll E admission c f first)"

definition await_tool_execution ::
  "('w, 'z) turn_host_scheme \<Rightarrow> nat option \<Rightarrow> host_call \<Rightarrow> ('w, (tool_error, tool_execution) result) future \<Rightarrow>
   tool_execution_cancellation \<Rightarrow> ('w, (tool_error, tool_execution) result \<times> bool) workflow_op" where
  "await_tool_execution E admission c f mode =
     bindE (if admission = None then record_effect (Constructed c) else ret ()) (\<lambda>_.
       case mode of
         Cancellable \<Rightarrow>
           bindE (await_poll_fn E (cancellable_execution_poll E admission c f)) (\<lambda>r. ret (r, False))
       | CompletionWinsAfterFirstPoll \<Rightarrow>
           bindE (scoped_deferral (await_poll_fn E (committed_execution_poll E admission c f)))
             (\<lambda>r. ret (r, True)))"

text \<open>What the workflow keeps of one call before the placeholder is replaced.\<close>

record call_outcome =
  co_output :: tool_output
  co_complete :: "tool_output option"
  co_registration :: "turn_tool_registration option"
  co_emit_finished :: bool
  co_deferred :: bool
  co_finish_turn :: bool

definition refused_outcome :: "tool_output \<Rightarrow> call_outcome" where
  "refused_outcome out = \<lparr>co_output = out, co_complete = None, co_registration = None,
     co_emit_finished = False, co_deferred = False, co_finish_turn = False\<rparr>"

definition execution_outcome :: "(tool_error, tool_execution) result \<Rightarrow> bool \<Rightarrow> call_outcome" where
  "execution_outcome res deferred =
     (case res of
        Inl e \<Rightarrow> \<lparr>co_output = tool_error_output e, co_complete = None, co_registration = None,
                 co_emit_finished = True, co_deferred = deferred, co_finish_turn = False\<rparr>
      | Inr x \<Rightarrow>
          \<lparr>co_output = (case te_persisted_output x of Some p \<Rightarrow> p | None \<Rightarrow> te_output x),
           co_complete = map_option (\<lambda>_. te_output x) (te_persisted_output x),
           co_registration = te_next_round_tool x,
           co_emit_finished = True, co_deferred = deferred, co_finish_turn = te_finish_turn x\<rparr>)"

definition execute_call ::
  "('w, 'z) turn_host_scheme \<Rightarrow> tool_ref \<Rightarrow> tool_context \<Rightarrow> tool_call \<Rightarrow> prepared_tool_call \<Rightarrow> nat option \<Rightarrow>
   ('w, call_outcome) workflow_op" where
  "execute_call E tool ctx call prepared admission =
     bindE (emit E (ToolStarted call)) (\<lambda>_.
     bindE (await_tool_execution E admission (CallExecute tool ctx (tc_name call) (pt_arguments prepared))
              (th_execute E tool ctx (tc_name call) (pt_arguments prepared))
              (pt_execution_cancellation prepared)) (\<lambda>(res, deferred).
       ret (execution_outcome res deferred)))"

definition run_call ::
  "engine_config \<Rightarrow> ('w, 'z) turn_host_scheme \<Rightarrow> turn_start \<Rightarrow> usize \<Rightarrow> usize \<Rightarrow> tool_ref \<Rightarrow> tool_call \<Rightarrow>
   tool_input_limits option \<Rightarrow> ('w, call_outcome) workflow_op" where
  "run_call C E st tool_calls round_index tool call input =
     (let ctx = tool_context_for st (tc_id call) in
      bindE (host_prepare E tool ctx call) (\<lambda>preparation.
      bindE (check_cancelled E) (\<lambda>_.
        case preparation of
          Inl e \<Rightarrow> ret (refused_outcome (tool_error_output e))
        | Inr prepared \<Rightarrow>
            bindE (lift_fail (validate_prepared_tool_call (ec_serializer C) prepared (ec_limits C) input)) (\<lambda>_.
            bindE (authorize_call C E st tool_calls round_index call prepared) (\<lambda>(denied, admission).
              if denied then
                bindE (emit E (ToolDenied (tc_id call) (tc_name call))) (\<lambda>_.
                  ret (refused_outcome permission_denied_output))
              else execute_call E tool ctx call prepared admission)))))"

section \<open>Accounting for a result\<close>

definition result_total ::
  "engine_config \<Rightarrow> turn_vars \<Rightarrow> usize \<Rightarrow> tool_output \<Rightarrow> (turn_failure, usize option \<times> turn_failure) result" where
  "result_total C tv placeholder_bytes out =
     (let l = ec_limits C in
      bind_res (map_err fail_result_serialization
                  (serialized_json_size_bounded (ec_serializer C (SerToolOutput out))
                    (max_serialized_tool_result_bytes l))) (\<lambda>bytes.
        Inr (case bytes of
               None \<Rightarrow> (None, fail_result_size)
             | Some b \<Rightarrow>
                 (case Option.bind (usize_checked_sub (tv_result_bytes tv) placeholder_bytes)
                         (\<lambda>n. usize_checked_add n b) of
                    None \<Rightarrow> (None, fail_cumulative_result_size)
                  | Some n \<Rightarrow> (if n \<le> max_cumulative_tool_result_bytes l then Some n else None,
                              fail_cumulative_result_size)))))"

text \<open>
  The checks on an outcome. The flag of a failure says whether it is published as the terminal
  state before it is returned.
\<close>

definition check_outcome ::
  "engine_config \<Rightarrow> tool_output_limits option \<Rightarrow> turn_vars \<Rightarrow> usize \<Rightarrow> call_outcome \<Rightarrow>
   (bool \<times> turn_failure, turn_vars \<times> bool) result" where
  "check_outcome C output_limits tv placeholder_bytes co =
     bind_res (map_err (\<lambda>f. (True, f))
        (case co_complete co of
           None \<Rightarrow> Inr (tv_complete_result_bytes tv)
         | Some complete \<Rightarrow> validate_complete_tool_output (ec_serializer C) complete (co_output co)
             output_limits (ec_limits C) (tv_complete_result_bytes tv))) (\<lambda>complete_bytes.
     bind_res (map_err (\<lambda>f. (True, f)) (validate_json_value (to_content (co_output co)) (ec_limits C))) (\<lambda>_.
     bind_res (map_err (\<lambda>f. (False, f)) (result_total C tv placeholder_bytes (co_output co))) (\<lambda>(n, f).
     bind_res (ok_or (True, f) n) (\<lambda>result_bytes.
     let tv' = tv\<lparr>tv_complete_result_bytes := complete_bytes, tv_result_bytes := result_bytes\<rparr> in
     (case co_registration co of
        None \<Rightarrow> Inr (tv', False)
      | Some reg \<Rightarrow>
          if to_is_error (co_output co) then Inl (True, fail_registration_on_error)
          else bind_res (map_err (\<lambda>f. (co_deferred co, f)) (validate_registration C (tv_tools tv) reg))
                 (\<lambda>ins. Inr (tv', ins)))))))"

definition raise_outcome :: "bool \<times> turn_failure \<Rightarrow> ('w, 'a) workflow_op" where
  "raise_outcome e =
     bindE (if fst e then establish_terminal else ret ()) (\<lambda>_. raise_fail (snd e))"

definition lift_outcome :: "(bool \<times> turn_failure, 'a) result \<Rightarrow> ('w, 'a) workflow_op" where
  "lift_outcome r = (case r of Inl e \<Rightarrow> raise_outcome e | Inr a \<Rightarrow> ret a)"

definition replace_or_establish ::
  "engine_config \<Rightarrow> ('w, 'z) turn_host_scheme \<Rightarrow> session_record \<Rightarrow> usize \<Rightarrow> message \<Rightarrow> bool \<Rightarrow>
   ('w, session_record) workflow_op" where
  "replace_or_establish C E base index m deferred =
     catchE (replace_message C E base index m (\<not> deferred))
       (\<lambda>e. case e of
              Error _ \<Rightarrow> bindE (if deferred then establish_terminal else ret ()) (\<lambda>_. fail e)
            | Dropped \<Rightarrow> fail Dropped)
       ret"

definition settle_call ::
  "engine_config \<Rightarrow> ('w, 'z) turn_host_scheme \<Rightarrow> round_plan \<Rightarrow> usize \<Rightarrow> tool_ref \<Rightarrow> tool_call \<Rightarrow> call_outcome \<Rightarrow>
   turn_vars \<Rightarrow> ('w, turn_vars) workflow_op" where
  "settle_call C E plan round_index tool call co tv =
     bindE (get (\<lambda>s. th_output_limits E tool (ss_world s))) (\<lambda>output_limits.
     bindE (lift_outcome (check_outcome C output_limits tv (rp_placeholder_bytes plan) co)) (\<lambda>(tv1, ins).
     bindE (lift_fail (ok_or fail_placeholder_index
              (usize_checked_add (rp_placeholder_start plan) round_index))) (\<lambda>index.
     bindE (replace_or_establish C E (tv_record tv1) index
              (tool_result_message (tc_id call) (co_output co)) (co_deferred co)) (\<lambda>r.
     let tv2 = tv1\<lparr>tv_record := r,
                   tv_tools := (if ins then case co_registration co of
                                   Some reg \<Rightarrow> catalog_insert (tv_tools tv1) reg | None \<Rightarrow> tv_tools tv1
                                else tv_tools tv1)\<rparr> in
     bindE (if co_emit_finished co
            then emit E (ToolFinished (tc_id call)
                   (case co_complete co of Some complete \<Rightarrow> complete | None \<Rightarrow> co_output co))
            else ret ()) (\<lambda>_. ret tv2)))))"

section \<open>The calls of a round, in order\<close>

definition call_step ::
  "engine_config \<Rightarrow> ('w, 'z) turn_host_scheme \<Rightarrow> turn_start \<Rightarrow> round_plan \<Rightarrow> usize \<Rightarrow> tool_call \<Rightarrow>
   tool_input_limits option \<Rightarrow> turn_vars \<Rightarrow> ('w, turn_vars + completed_turn) workflow_op" where
  "call_step C E st plan round_index call input tv =
     bindE (check_cancelled E) (\<lambda>_.
     bindE (lift_fail (ok_or (fail_disappeared_after_validation (tc_name call))
              (catalog_tool C (tv_tools tv) (tc_name call)))) (\<lambda>tool.
     bindE (run_call C E st (tv_tool_calls tv) round_index tool call input) (\<lambda>co.
     bindE (releasing (co_deferred co) (settle_call C E plan round_index tool call co tv)) (\<lambda>tv'.
       if co_finish_turn co then
         bindE (check_cancelled E) (\<lambda>_.
         bindE (establish_terminal) (\<lambda>_.
           ret (Inr \<lparr>ct_reason = StopCompleted, ct_usage = tv_usage tv'\<rparr>)))
       else ret (Inl tv')))))"

fun calls_loop ::
  "engine_config \<Rightarrow> ('w, 'z) turn_host_scheme \<Rightarrow> turn_start \<Rightarrow> round_plan \<Rightarrow> usize \<Rightarrow>
   (tool_call \<times> tool_input_limits option) list \<Rightarrow> turn_vars \<Rightarrow>
   ('w, turn_vars + completed_turn) workflow_op" where
  "calls_loop C E st plan i [] tv = ret (Inl tv)"
| "calls_loop C E st plan i ((call, input) # rest) tv =
     bindE (call_step C E st plan i call input tv) (\<lambda>r.
       case r of Inl tv' \<Rightarrow> calls_loop C E st plan (Suc i) rest tv' | Inr done \<Rightarrow> ret (Inr done))"

section \<open>Rounds\<close>

definition tool_round ::
  "engine_config \<Rightarrow> ('w, 'z) turn_host_scheme \<Rightarrow> turn_start \<Rightarrow> stop_reason \<Rightarrow> turn_vars \<Rightarrow> round_vars \<Rightarrow>
   ('w, turn_vars + completed_turn) workflow_op" where
  "tool_round C E st reason tv rv =
     bindE (publish_round C E st tv rv reason) (\<lambda>(tv', plan).
     bindE (calls_loop C E st plan 0 (zip (rv_calls rv) (rv_input_limits rv)) tv') (\<lambda>r.
       case r of
         Inl tv'' \<Rightarrow> ret (Inl (tv''\<lparr>tv_tool_calls := rp_total plan\<rparr>))
       | Inr c \<Rightarrow> ret (Inr c)))"

definition close_round ::
  "engine_config \<Rightarrow> ('w, 'z) turn_host_scheme \<Rightarrow> turn_start \<Rightarrow> stop_reason \<Rightarrow> turn_vars \<Rightarrow> round_vars \<Rightarrow>
   ('w, turn_vars + completed_turn) workflow_op" where
  "close_round C E st reason tv rv =
     bindE (lift_fail (checked_usage_add (tv_usage tv) (rv_usage rv))) (\<lambda>usage.
     let tv' = tv\<lparr>tv_usage := usage\<rparr> in
     bindE (lift_fail (validate_round_stop (rv_calls rv) reason)) (\<lambda>_.
       if rv_calls rv = [] then
         bindE (finish_without_calls C E tv' rv reason) (\<lambda>c. ret (Inr c))
       else tool_round C E st reason tv' rv))"

definition run_round ::
  "engine_config \<Rightarrow> ('w, 'z) turn_host_scheme \<Rightarrow> turn_start \<Rightarrow> turn_vars \<Rightarrow>
   ('w, turn_vars + completed_turn) workflow_op" where
  "run_round C E st tv =
     bindE (open_round C E st tv) (\<lambda>tv'.
     bindE (model_events_loop C E tv') (\<lambda>(reason, tv'', rv). close_round C E st reason tv'' rv))"

definition run_turn_inner ::
  "engine_config \<Rightarrow> ('w, 'z) turn_host_scheme \<Rightarrow> turn_start \<Rightarrow> ('w, completed_turn) workflow_op" where
  "run_turn_inner C E st =
     bindE (emit E Started) (\<lambda>_.
       iterate (Suc (max_model_rounds (ec_limits C))) (run_round C E st) (turn_vars_init (st_record st)))"

datatype workflow_exit =
    ExitCompleted stop_reason token_usage
  | ExitFailed turn_failure
  | ExitCancelled

definition run_turn ::
  "engine_config \<Rightarrow> ('w, 'z) turn_host_scheme \<Rightarrow> turn_start \<Rightarrow> 'w sys \<Rightarrow> workflow_exit option \<times> 'w sys" where
  "run_turn C E st s =
     (case run_turn_inner C E st s of
        (Inr c, t) \<Rightarrow> (Some (ExitCompleted (ct_reason c) (ct_usage c)), t)
      | (Inl (Error AbortCancelled), t) \<Rightarrow> (Some ExitCancelled, t)
      | (Inl (Error (AbortFailed f)), t) \<Rightarrow> (Some (ExitFailed f), t)
      | (Inl Dropped, t) \<Rightarrow> (None, t))"

section \<open>The loops end\<close>

lemma wp_trivial: "wp m (\<lambda>_ _. True) (\<lambda>_ _. True) s"
  by (simp add: wp_def split: prod.splits sum.splits)

lemma wp_seq_trivial:
  "(\<And>a t. wp (f a) Q (\<lambda>_ _. True) t) \<Longrightarrow> wp (bindE m f) Q (\<lambda>_ _. True) s"
  by (rule wp_seq [OF wp_trivial]) simp_all

lemma wp_lift_failI':
  "(\<And>a. r = Inr a \<Longrightarrow> Q a s) \<Longrightarrow> wp (lift_fail r) Q (\<lambda>_ _. True) s"
  by (rule wp_lift_failI) simp_all

lemma wp_iterate:
  assumes "\<And>x s. I x s \<Longrightarrow> wp (body x) (\<lambda>r t. case r of Inl y \<Rightarrow> I y t | Inr a \<Rightarrow> Q a t) X s"
    and "\<And>x s. I x s \<Longrightarrow> X Dropped s" and "I x s"
  shows "wp (iterate n body x) Q X s"
  using assms(3)
proof (induction n arbitrary: x s)
  case 0
  then show ?case by (simp add: assms(2))
next
  case (Suc n)
  have "wp (body x) (\<lambda>r. wp (case r of Inl y \<Rightarrow> iterate n body y | Inr a \<Rightarrow> ret a) Q X) X s"
    using assms(1) [OF Suc.prems] by (rule wp_mono) (auto split: sum.splits intro: Suc.IH)
  then show ?case by simp
qed

text \<open>
  A pass that continues makes the measure smaller. Then a run whose fuel exceeds the measure does
  not depend on the fuel.
\<close>

definition decreases :: "('x \<Rightarrow> nat) \<Rightarrow> ('x \<Rightarrow> ('s, 'e stop, 'x + 'a) op) \<Rightarrow> bool" where
  "decreases m body \<longleftrightarrow>
     (\<forall>x s. wp (body x) (\<lambda>r _. case r of Inl y \<Rightarrow> m y < m x | Inr _ \<Rightarrow> True) (\<lambda>_ _. True) s)"

lemma iterate_fuel:
  assumes "decreases m body" and "m x < n" and "m x < k"
  shows "iterate n body x s = iterate k body x s"
  using assms(2,3)
proof (induction n arbitrary: k x s)
  case (Suc n)
  then obtain j where k: "k = Suc j" by (cases k) auto
  have dec: "m y < m x" if "body x s = (Inr (Inl y), t)" for y t
    using assms(1) that by (simp add: decreases_def wp_def) (metis (mono_tags, lifting) case_prod_conv old.sum.simps)
  have "iterate n body y t = iterate j body y t" if "body x s = (Inr (Inl y), t)" for y t
    using dec [OF that] Suc.prems k by (intro Suc.IH) auto
  then show ?case
    by (auto simp: k bindE_def ret_def split: prod.splits sum.splits)
qed simp

lemma bounded_add_Inr:
  "bounded_add a b limit f g = Inr n \<longleftrightarrow> n = a + b \<and> n \<le> limit \<and> n \<le> usize_max"
  by (auto simp: bounded_add_def split: option.splits)

lemma accept_event_events:
  "accept_event C inputs ev tv rv = Inr (tv', rv', u) \<Longrightarrow>
   tv_model_events tv' = tv_model_events tv \<and> tv_model_rounds tv' = tv_model_rounds tv"
  by (cases ev)
    (auto simp: accept_event_def accept_tool_call_def charge_arguments_def Let_def split: if_splits)

definition events_left :: "engine_config \<Rightarrow> turn_vars \<times> round_vars \<Rightarrow> nat" where
  "events_left C vars = max_model_events_per_turn (ec_limits C) - tv_model_events (fst vars)"

definition rounds_left :: "engine_config \<Rightarrow> turn_vars \<Rightarrow> nat" where
  "rounds_left C tv = max_model_rounds (ec_limits C) - tv_model_rounds tv"

lemma wp_seq_fail:
  "(\<And>f. r = Inl f \<Longrightarrow> X (Error (AbortFailed f)) s) \<Longrightarrow> (\<And>a. r = Inr a \<Longrightarrow> wp (k a) Q X s) \<Longrightarrow>
   wp (bindE (lift_fail r) k) Q X s"
  by (simp add: wp_lift_failI)

lemma accept_step_values:
  "wp (accept_step C E ev tv rv)
     (\<lambda>(tv', rv') _. \<exists>inputs u. accept_event C inputs ev tv rv = Inr (tv', rv', u)) (\<lambda>_ _. True) s"
  unfolding accept_step_def
  by (rule wp_seq_trivial, rule wp_seq_fail, simp)
    (auto simp del: wp_bindE intro!: wp_seq_trivial; blast)

lemma model_event_step_outcome:
  "wp (model_event_step C E vars)
     (\<lambda>r _. case r of
        Inl (tv, rv) \<Rightarrow> \<exists>n inputs ev u. n = Suc (tv_model_events (fst vars))
          \<and> n \<le> max_model_events_per_turn (ec_limits C)
          \<and> accept_event C inputs ev ((fst vars)\<lparr>tv_model_events := n\<rparr>) (snd vars) = Inr (tv, rv, u)
      | Inr (reason, tv, rv) \<Rightarrow> \<exists>n. tv = (fst vars)\<lparr>tv_model_events := n\<rparr> \<and> rv = snd vars) (\<lambda>_ _. True) s"
  (is "wp _ ?Q ?X s")
  unfolding model_event_step_def Let_def
proof (rule wp_seq_trivial)
  fix item t
  have step: "wp (bindE (accept_step C E ev (fst vars\<lparr>tv_model_events := n\<rparr>) (snd vars)) (\<lambda>v. ret (Inl v))) ?Q ?X t"
    if "bounded_add (tv_model_events (fst vars)) 1 (max_model_events_per_turn (ec_limits C))
        fail_event_overflow fail_event_limit = Inr n" for ev n t
    using that
    by (intro wp_seq [OF accept_step_values]) (auto simp: bounded_add_Inr)
  show "wp (case item of None \<Rightarrow> raise_fail failure_missing_stop
      | Some res \<Rightarrow>
          bindE (lift_fail (bounded_add (tv_model_events (fst vars)) 1
              (max_model_events_per_turn (ec_limits C)) fail_event_overflow fail_event_limit)) (\<lambda>n.
            case res of Inl e \<Rightarrow> raise_fail (failure_provider e)
            | Inr (Stop reason) \<Rightarrow> bindE (lift_fail (validate_stop_reason reason (ec_limits C)))
                (\<lambda>_. ret (Inr (reason, fst vars\<lparr>tv_model_events := n\<rparr>, snd vars)))
            | Inr ev \<Rightarrow> bindE (accept_step C E ev (fst vars\<lparr>tv_model_events := n\<rparr>) (snd vars))
                (\<lambda>vars'. ret (Inl vars')))) ?Q ?X t"
    by (auto split: option.split sum.split model_event.split simp del: wp_bindE
        intro!: wp_seq_fail step) blast
qed

lemma model_event_step_values:
  "wp (model_event_step C E vars)
     (\<lambda>r _. case r of
        Inl (tv, rv) \<Rightarrow> tv_model_events tv = Suc (tv_model_events (fst vars))
          \<and> tv_model_events tv \<le> max_model_events_per_turn (ec_limits C)
          \<and> tv_model_rounds tv = tv_model_rounds (fst vars)
      | Inr (reason, tv, rv) \<Rightarrow> tv_model_rounds tv = tv_model_rounds (fst vars)) (\<lambda>_ _. True) s"
  by (rule wp_mono [OF model_event_step_outcome])
    (auto split: sum.splits dest!: accept_event_events)

lemma model_event_step_decreases: "decreases (events_left C) (model_event_step C E)"
  unfolding decreases_def events_left_def
  by (intro allI, rule wp_mono [OF model_event_step_values]) (auto split: sum.splits)

lemma model_events_loop_values:
  "wp (model_events_loop C E tv) (\<lambda>(reason, tv', rv) _. tv_model_rounds tv' = tv_model_rounds tv) (\<lambda>_ _. True) s"
  unfolding model_events_loop_def
proof (rule wp_iterate [where I = "\<lambda>vars _. tv_model_rounds (fst vars) = tv_model_rounds tv"])
  fix vars :: "turn_vars \<times> round_vars" and s
  assume "tv_model_rounds (fst vars) = tv_model_rounds tv"
  then show "wp (model_event_step C E vars)
      (\<lambda>r t. case r of Inl y \<Rightarrow> tv_model_rounds (fst y) = tv_model_rounds tv
         | Inr a \<Rightarrow> (case a of (reason, tv', rv) \<Rightarrow> \<lambda>_. tv_model_rounds tv' = tv_model_rounds tv) t)
      (\<lambda>_ _. True) s"
    by (intro wp_mono [OF model_event_step_values]) (auto split: sum.splits)
qed simp_all

lemma open_round_values:
  "wp (open_round C E st tv)
     (\<lambda>tv' _. \<exists>n. tv' = tv\<lparr>tv_model_rounds := n\<rparr> \<and> n = Suc (tv_model_rounds tv)
        \<and> n \<le> max_model_rounds (ec_limits C)) (\<lambda>_ _. True) s"
  unfolding open_round_def Let_def
  by (rule wp_seq_trivial, rule wp_seq_fail, simp)
    (auto simp del: wp_bindE simp: bounded_add_Inr intro!: wp_seq_trivial)

lemma publish_round_values:
  "wp (publish_round C E st tv rv reason) (\<lambda>(tv', plan) _. tv_model_rounds tv' = tv_model_rounds tv) (\<lambda>_ _. True) s"
  unfolding publish_round_def Let_def
  by (auto simp del: wp_bindE intro!: wp_seq_trivial split: prod.split)

lemma check_outcome_rounds:
  "check_outcome C ol tv n co = Inr (tv', ins) \<Longrightarrow> tv_model_rounds tv' = tv_model_rounds tv"
  by (auto simp: check_outcome_def Let_def split: option.splits if_splits)

lemma wp_gate [simp, wp_simps]:
  "wp establish_terminal Q X s = Q () (s\<lparr>ss_terminal := True\<rparr>)"
  "wp (set_usage u) Q X s = Q () (s\<lparr>ss_usage := u\<rparr>)"
  "wp defer_cancellation Q X s = Q () (s\<lparr>ss_deferrals := ss_deferrals s + 1\<rparr>)"
  by (simp_all add: establish_terminal_def set_usage_def defer_cancellation_def)

lemma lift_outcome_values:
  "(\<And>a. r = Inr a \<Longrightarrow> wp (k a) Q (\<lambda>_ _. True) s) \<Longrightarrow> wp (bindE (lift_outcome r) k) Q (\<lambda>_ _. True) s"
  by (cases r) (simp_all add: lift_outcome_def raise_outcome_def)

lemma wp_releasing:
  "wp (releasing d m) Q X s =
   wp m (\<lambda>a t. Q a (if d then t\<lparr>ss_deferrals := ss_deferrals t - 1\<rparr> else t))
        (\<lambda>e t. X e (if d then t\<lparr>ss_deferrals := ss_deferrals t - 1\<rparr> else t)) s"
  by (simp add: wp_def releasing_def split: prod.splits sum.splits)

lemma settle_call_values:
  "wp (settle_call C E plan i tool call co tv) (\<lambda>tv' _. tv_model_rounds tv' = tv_model_rounds tv) (\<lambda>_ _. True) s"
  unfolding settle_call_def Let_def
  by (rule wp_seq_trivial, rule lift_outcome_values)
    (auto simp del: wp_bindE intro!: wp_seq_trivial dest: check_outcome_rounds split: prod.split)

lemma call_step_values:
  "wp (call_step C E st plan i call input tv)
     (\<lambda>r _. case r of Inl tv' \<Rightarrow> tv_model_rounds tv' = tv_model_rounds tv | Inr _ \<Rightarrow> True) (\<lambda>_ _. True) s"
  unfolding call_step_def
proof (rule wp_seq_trivial, rule wp_seq_trivial, rule wp_seq_trivial)
  fix tool co t
  have "wp (releasing (co_deferred co) (settle_call C E plan i tool call co tv))
      (\<lambda>tv' _. tv_model_rounds tv' = tv_model_rounds tv) (\<lambda>_ _. True) t"
    unfolding wp_releasing by (rule settle_call_values)
  then show "wp (bindE (releasing (co_deferred co) (settle_call C E plan i tool call co tv)) (\<lambda>tv'.
       if co_finish_turn co then
         bindE (check_cancelled E) (\<lambda>_.
         bindE establish_terminal (\<lambda>_.
           ret (Inr \<lparr>ct_reason = StopCompleted, ct_usage = tv_usage tv'\<rparr>)))
       else ret (Inl tv')))
     (\<lambda>r _. case r of Inl tv' \<Rightarrow> tv_model_rounds tv' = tv_model_rounds tv | Inr _ \<Rightarrow> True) (\<lambda>_ _. True) t"
    by (rule wp_seq) (auto simp del: wp_bindE intro!: wp_seq_trivial)
qed

lemma calls_loop_values:
  "wp (calls_loop C E st plan i entries tv)
     (\<lambda>r _. case r of Inl tv' \<Rightarrow> tv_model_rounds tv' = tv_model_rounds tv | Inr _ \<Rightarrow> True) (\<lambda>_ _. True) s"
proof (induction entries arbitrary: i tv s)
  case (Cons e entries)
  obtain call input where e: "e = (call, input)" by fastforce
  show ?case
    unfolding e calls_loop.simps
    by (rule wp_seq [OF call_step_values])
      (auto split: sum.splits intro: wp_mono [OF Cons.IH])
qed simp

lemma tool_round_values:
  "wp (tool_round C E st reason tv rv)
     (\<lambda>r _. case r of Inl tv' \<Rightarrow> tv_model_rounds tv' = tv_model_rounds tv | Inr _ \<Rightarrow> True) (\<lambda>_ _. True) s"
  unfolding tool_round_def
  by (rule wp_seq [OF publish_round_values])
    (auto simp del: wp_bindE intro!: wp_seq [OF calls_loop_values] split: sum.splits)

lemma close_round_values:
  "wp (close_round C E st reason tv rv)
     (\<lambda>r _. case r of Inl tv' \<Rightarrow> tv_model_rounds tv' = tv_model_rounds tv | Inr _ \<Rightarrow> True) (\<lambda>_ _. True) s"
  unfolding close_round_def Let_def
  by (rule wp_seq_trivial, rule wp_seq_trivial)
    (auto simp del: wp_bindE intro!: wp_seq_trivial wp_mono [OF tool_round_values]
      split: sum.splits)

lemma run_round_values:
  "wp (run_round C E st tv)
     (\<lambda>r _. case r of
        Inl tv' \<Rightarrow> tv_model_rounds tv' = Suc (tv_model_rounds tv)
          \<and> tv_model_rounds tv' \<le> max_model_rounds (ec_limits C)
      | Inr _ \<Rightarrow> True) (\<lambda>_ _. True) s"
  unfolding run_round_def
  by (rule wp_seq [OF open_round_values])
    (auto simp del: wp_bindE intro!: wp_seq [OF model_events_loop_values] wp_mono [OF close_round_values]
      split: sum.splits)

lemma run_round_decreases: "decreases (rounds_left C) (run_round C E st)"
  unfolding decreases_def rounds_left_def
  by (intro allI, rule wp_mono [OF run_round_values]) (auto split: sum.splits)

end
