(* ===== verification/Turn_Safety.thy ===== *)
theory Turn_Safety
  imports Turn_Workflow
begin

text \<open>
  What a turn may do, as a property of the log of its effects: each effect is justified by the
  ones before it. Execution of a call needs its preparation, the permission the preparation asks
  for, and a completed save that contains the call together with its placeholder result, and no
  call is executed twice; every record handed to the store and every request handed to the provider
  has a closed history.

  \<open>calm_step\<close> is kept by everything but the opening of a provider stream and the execution of a
  call; \<open>turn_at\<close> is the assertion carried through a turn.
\<close>

section \<open>Traces\<close>

definition safe :: "(effect list \<Rightarrow> effect \<Rightarrow> bool) \<Rightarrow> effect list \<Rightarrow> bool" where
  "safe J log \<longleftrightarrow> (\<forall>i < length log. J (take i log) (log ! i))"

definition always :: "(effect list \<Rightarrow> effect \<Rightarrow> bool) \<Rightarrow> effect \<Rightarrow> bool" where
  "always J e \<longleftrightarrow> (\<forall>pre. J pre e)"

lemma safe_Nil [simp]: "safe J []"
  by (simp add: safe_def)

lemma safe_snoc [simp]: "safe J (log @ [e]) \<longleftrightarrow> safe J log \<and> J log e"
  by (auto simp: safe_def nth_append less_Suc_eq)

lemma safe_append_always: "safe J log \<Longrightarrow> list_all (always J) new \<Longrightarrow> safe J (log @ new)"
proof (induction new rule: rev_induct)
  case (snoc e new)
  then have "safe J ((log @ new) @ [e])" unfolding safe_snoc by (simp add: always_def)
  then show ?case by simp
qed simp

definition is_exec :: "effect \<Rightarrow> bool" where
  "is_exec e = (case e of Constructed (CallExecute _ _ _ _) \<Rightarrow> True | _ \<Rightarrow> False)"

definition is_stream :: "effect \<Rightarrow> bool" where
  "is_stream e = (case e of Constructed (CallStream _) \<Rightarrow> True | _ \<Rightarrow> False)"

definition marked :: "effect \<Rightarrow> bool" where
  "marked e \<longleftrightarrow> is_exec e \<or> is_stream e"

text \<open>The identifiers of the executed calls in order, and the number of provider streams.\<close>

fun exec_id :: "effect \<Rightarrow> tool_call_id option" where
  "exec_id (Constructed (CallExecute _ ctx _ _)) = Some (tctx_call_id ctx)"
| "exec_id _ = None"

definition exec_ids :: "effect list \<Rightarrow> tool_call_id list" where
  "exec_ids log = List.map_filter exec_id log"

definition streams :: "effect list \<Rightarrow> nat" where
  "streams log = length (filter is_stream log)"

lemma exec_id_marked: "\<not> marked e \<Longrightarrow> exec_id e = None"
  by (cases e rule: exec_id.cases) (simp_all add: marked_def is_exec_def)

lemma exec_ids_filter: "exec_ids (filter marked log) = exec_ids log"
  by (induction log) (auto simp: exec_ids_def map_filter_simps exec_id_marked split: option.splits)

lemma streams_filter: "streams (filter marked log) = streams log"
  by (induction log) (auto simp: streams_def marked_def)

lemma exec_ids_append [simp]: "exec_ids (xs @ ys) = exec_ids xs @ exec_ids ys"
  by (simp add: exec_ids_def map_filter_def)

lemma streams_append [simp]: "streams (xs @ ys) = streams xs + streams ys"
  by (simp add: streams_def)

text \<open>The part of the log that belongs to the turn starts after \<open>n\<close> entries.\<close>

definition guard_step :: "(effect list \<Rightarrow> effect \<Rightarrow> bool) \<Rightarrow> nat \<Rightarrow> 'w sys \<Rightarrow> 'w sys \<Rightarrow> bool" where
  "guard_step J n s t \<longleftrightarrow> turn_step (\<lambda>_. True) s t \<and>
     (arc_wf s \<longrightarrow> n \<le> length (ss_log s) \<longrightarrow> safe J (drop n (ss_log s)) \<longrightarrow> safe J (drop n (ss_log t)))"

definition calm_step :: "(effect list \<Rightarrow> effect \<Rightarrow> bool) \<Rightarrow> nat \<Rightarrow> 'w sys \<Rightarrow> 'w sys \<Rightarrow> bool" where
  "calm_step J n s t \<longleftrightarrow> guard_step J n s t \<and>
     (arc_wf s \<longrightarrow> n \<le> length (ss_log s) \<longrightarrow>
       filter marked (drop n (ss_log t)) = filter marked (drop n (ss_log s)))"

lemma turn_step_grows:
  assumes "turn_step P s t" "arc_wf s" "n \<le> length (ss_log s)"
  shows "arc_wf t \<and> n \<le> length (ss_log t)"
  using turn_step_wf [OF assms(1,2)] turn_step_new [OF assms(1,2)] assms(3) by auto

lemma guard_step_trans:
  assumes "guard_step J n s t" "guard_step J n t u"
  shows "guard_step J n s u"
proof -
  have st: "turn_step (\<lambda>_. True) s t" "turn_step (\<lambda>_. True) t u"
    using assms by (auto simp: guard_step_def)
  show ?thesis
    using assms turn_step_trans [OF st] turn_step_grows [OF st(1), of n] unfolding guard_step_def by simp
qed

lemma calm_step_trans:
  assumes "calm_step J n s t" "calm_step J n t u"
  shows "calm_step J n s u"
proof -
  have g: "guard_step J n s t" "guard_step J n t u" using assms by (auto simp: calm_step_def)
  then have st: "turn_step (\<lambda>_. True) s t" by (simp add: guard_step_def)
  show ?thesis
    using assms guard_step_trans [OF g] turn_step_grows [OF st, of n] unfolding calm_step_def by simp
qed

lemma guard_step_refl: "guard_step J n s s"
  by (simp add: guard_step_def turn_step_refl)

interpretation calm: step_relation "calm_step J n" for J n
  by unfold_locales (simp add: calm_step_def guard_step_refl, rule calm_step_trans)

lemma turn_step_calm:
  assumes "turn_step P s t" and "\<And>e. P e \<Longrightarrow> always J e \<and> \<not> marked e"
  shows "calm_step J n s t"
proof -
  have "turn_step (\<lambda>_. True) s t"
    using assms(1) by (auto simp: turn_step_def elim: op_step_mono)
  moreover have "safe J (drop n (ss_log s)) \<longrightarrow> safe J (drop n (ss_log t))"
    "filter marked (drop n (ss_log t)) = filter marked (drop n (ss_log s))"
    if "arc_wf s" "n \<le> length (ss_log s)"
  proof -
    obtain new where "ss_log t = ss_log s @ new" "list_all P new"
      using turn_step_new [OF assms(1)] \<open>arc_wf s\<close> by blast
    then show "safe J (drop n (ss_log s)) \<longrightarrow> safe J (drop n (ss_log t))"
      "filter marked (drop n (ss_log t)) = filter marked (drop n (ss_log s))"
      using assms(2) \<open>n \<le> length (ss_log s)\<close> safe_append_always [of J _ new]
      by (auto simp: list_all_iff filter_empty_conv)
  qed
  ultimately show ?thesis by (simp add: calm_step_def guard_step_def)
qed

lemma calm_env:
  assumes "env_rely E"
  shows "turn_env (calm_step J n) E (\<lambda>e. always J e \<and> \<not> marked e)"
proof unfold_locales
  show "calm_step J n s (sh_yield E s)" for s
    using assms by (intro turn_step_calm [where P = "\<lambda>_. False"] turn_step_rely) (simp_all add: env_rely_def)
  show "calm_step J n s t \<Longrightarrow> canon_step s t" for s t :: "'a sys"
    by (simp add: calm_step_def guard_step_def turn_step_def op_step_def)
  show "\<not> arc_wf s \<Longrightarrow> calm_step J n s t" for s t :: "'a sys"
    by (simp add: calm_step_def guard_step_def turn_step_def op_step_def canon_step_def)
  fix s t :: "'a sys" and e w
  show "calm_step J n s t" if "canon_step s t" "ss_lease t = ss_lease s" "ss_reconcile t = ss_reconcile s"
    "ss_cancelled t = ss_cancelled s" "ss_deferrals t = ss_deferrals s" "ss_log t = ss_log s"
    using that by (intro turn_step_calm [where P = "\<lambda>_. False"]) (simp_all add: turn_step_def op_step_def)
  show "calm_step J n s (s\<lparr>ss_log := ss_log s @ [e]\<rparr>)" if "always J e \<and> \<not> marked e"
    using that by (intro turn_step_calm [where P = "\<lambda>e. always J e \<and> \<not> marked e"])
      (simp_all add: turn_step_def op_step_def canon_step_frame)
  show "calm_step J n s (s\<lparr>ss_world := w\<rparr>)"
    by (intro turn_step_calm [where P = "\<lambda>_. False"]) (simp_all add: turn_step_def op_step_def canon_step_frame)
qed

section \<open>Justification\<close>

text \<open>A completed save of this turn holds the call in an assistant message and its placeholder.\<close>

definition published :: "effect list \<Rightarrow> tool_call_id \<Rightarrow> tool_name \<Rightarrow> bool" where
  "published pre i name \<longleftrightarrow> (\<exists>c v. Saved c v \<in> set pre
     \<and> (\<exists>m \<in> set (sr_messages c). m_role m = Assistant
          \<and> (\<exists>call. ToolCall call \<in> set (m_content m) \<and> tc_id call = i \<and> tc_name call = name))
     \<and> tool_result_message i unknown_tool_result \<in> set (sr_messages c))"

text \<open>The policy allowed exactly the prepared capability, and its admission, if any, succeeded.\<close>

definition permitted :: "turn_start \<Rightarrow> effect list \<Rightarrow> prepared_tool_call \<Rightarrow> bool" where
  "permitted st pre p \<longleftrightarrow>
     (case pt_authorization p of
        NoAuthorityRequired \<Rightarrow> True
      | PermissionRequired cap \<Rightarrow>
          (\<exists>i auth scope. Authorized (permission_request_for st i cap) auth \<in> set pre
             \<and> pa_decision auth = Allow scope
             \<and> (case pa_admission auth of None \<Rightarrow> True | Some adm \<Rightarrow> Admitted adm \<in> set pre)))"

definition history_ok :: "turn_start \<Rightarrow> message list \<Rightarrow> bool" where
  "history_ok st ms \<longleftrightarrow> closed_history ms \<and> prefix (sr_messages (st_record st)) ms"

fun justified_call :: "engine_config \<Rightarrow> turn_start \<Rightarrow> effect list \<Rightarrow> host_call \<Rightarrow> bool" where
  "justified_call C st pre (CallExecute tool ctx name args) =
     ((\<exists>call p. Prepared tool ctx call p \<in> set pre \<and> ctx = tool_context_for st (tc_id call)
         \<and> name = tc_name call \<and> args = pt_arguments p \<and> permitted st pre p)
      \<and> published pre (tctx_call_id ctx) name
      \<and> tctx_call_id ctx \<notin> set (exec_ids pre))"
| "justified_call C st pre (CallAuthorize req name i args) =
     ((\<exists>tool call p. Prepared tool (tool_context_for st i) call p \<in> set pre \<and> tc_id call = i
         \<and> tc_name call = name \<and> pt_authorization p = PermissionRequired (pr_capability req)
         \<and> pt_arguments p = args)
      \<and> published pre i name)"
| "justified_call C st pre (CallSave c x) =
     (history_ok st (sr_messages c) \<and> turn_record_ok C c \<and> sr_id c = sr_id (st_record st)
      \<and> sr_incarnation_id c = sr_incarnation_id (st_record st))"
| "justified_call C st pre (CallStream req) =
     (closed_history (mr_messages req) \<and> mr_session_id req = sr_id (st_record st)
      \<and> mr_turn_id req = st_turn_id st \<and> mr_options req = st_options st)"
| "justified_call C st pre _ = True"

definition justified :: "engine_config \<Rightarrow> turn_start \<Rightarrow> effect list \<Rightarrow> effect \<Rightarrow> bool" where
  "justified C st pre e = (case e of Constructed c \<Rightarrow> justified_call C st pre c | _ \<Rightarrow> True)"

text \<open>Effects that need nothing before them.\<close>

definition plain_effect :: "engine_config \<Rightarrow> turn_start \<Rightarrow> effect \<Rightarrow> bool" where
  "plain_effect C st e \<longleftrightarrow> always (justified C st) e \<and> \<not> marked e"

lemma plain_effects [simp]:
  "plain_effect C st (Polled c)" "plain_effect C st (Saved r v)"
  "plain_effect C st (Prepared tool ctx call p)" "plain_effect C st (Authorized req auth)"
  "plain_effect C st (Admitted adm)" "plain_effect C st (Constructed (CallEmit ev))"
  "plain_effect C st (Constructed (CallLoad i))" "plain_effect C st (Constructed CallNextItem)"
  "plain_effect C st (Constructed (CallPersistArguments tool ctx args))"
  by (simp_all add: plain_effect_def always_def justified_def marked_def is_exec_def is_stream_def)

lemma plain_effect_save:
  "plain_effect C st (Constructed (CallSave c x)) \<longleftrightarrow> justified_call C st [] (CallSave c x)"
  by (simp add: plain_effect_def always_def justified_def marked_def is_exec_def is_stream_def)

lemma plain_transcript_effect:
  assumes "transcript_effect C base ms e" "history_ok st ms" "sr_id base = sr_id (st_record st)"
    "sr_incarnation_id base = sr_incarnation_id (st_record st)"
  shows "plain_effect C st e"
  using assms
  by (auto simp: transcript_effect_def load_effect_def save_effect_def plain_effect_save candidate_for_def)

section \<open>What is carried through a turn\<close>

text \<open>
  The turn started in \<open>s0\<close>; all its effects so far are justified, it executed at most the calls
  \<open>X\<close>, opened at most \<open>m\<close> streams, and the effects \<open>F\<close> are in its log.
\<close>

abbreviation since :: "'w sys \<Rightarrow> 'w sys \<Rightarrow> effect list" where
  "since s0 s \<equiv> drop (length (ss_log s0)) (ss_log s)"

definition turn_at ::
  "engine_config \<Rightarrow> turn_start \<Rightarrow> 'w sys \<Rightarrow> tool_call_id set \<Rightarrow> nat \<Rightarrow> effect set \<Rightarrow> 'w sys \<Rightarrow> bool" where
  "turn_at C st s0 X m F s \<longleftrightarrow> arc_wf s0 \<and> guard_step (justified C st) (length (ss_log s0)) s0 s
     \<and> set (exec_ids (since s0 s)) \<subseteq> X \<and> finite X \<and> card X \<le> max_tool_calls_per_turn (ec_limits C)
     \<and> streams (since s0 s) \<le> m \<and> m \<le> max_model_rounds (ec_limits C)
     \<and> F \<subseteq> set (since s0 s)"

definition turn_safe :: "engine_config \<Rightarrow> turn_start \<Rightarrow> 'w sys \<Rightarrow> 'w sys \<Rightarrow> bool" where
  "turn_safe C st s0 s \<longleftrightarrow> guard_step (justified C st) (length (ss_log s0)) s0 s
     \<and> card (set (exec_ids (since s0 s))) \<le> max_tool_calls_per_turn (ec_limits C)
     \<and> streams (since s0 s) \<le> max_model_rounds (ec_limits C)"

lemma turn_at_safe: "turn_at C st s0 X m F s \<Longrightarrow> turn_safe C st s0 s"
  unfolding turn_at_def turn_safe_def by (meson card_mono le_trans)

lemma turn_at_start: "arc_wf s0 \<Longrightarrow> turn_at C st s0 {} 0 {} s0"
  by (simp add: turn_at_def guard_step_refl exec_ids_def streams_def map_filter_simps)

lemma turn_at_weaken:
  "turn_at C st s0 X m F s \<Longrightarrow> X \<subseteq> X' \<Longrightarrow> finite X' \<Longrightarrow> card X' \<le> max_tool_calls_per_turn (ec_limits C) \<Longrightarrow>
   F' \<subseteq> F \<Longrightarrow> turn_at C st s0 X' m F' s"
  by (auto simp: turn_at_def)

lemma turn_at_log:
  assumes "turn_at C st s0 X m F s"
  shows "arc_wf s" "length (ss_log s0) \<le> length (ss_log s)"
proof -
  have st: "turn_step (\<lambda>_. True) s0 s" "arc_wf s0"
    using assms by (auto simp: turn_at_def guard_step_def)
  then show "arc_wf s" by (rule turn_step_wf)
  show "length (ss_log s0) \<le> length (ss_log s)" using turn_step_new [OF st] by auto
qed

lemma turn_at_calm:
  assumes at: "turn_at C st s0 X m F s" and calm: "calm_step (justified C st) (length (ss_log s0)) s t"
  shows "turn_at C st s0 X m F t"
proof -
  note l = turn_at_log [OF at]
  have step: "turn_step (\<lambda>_. True) s t" using calm by (simp add: calm_step_def guard_step_def)
  have "set (since s0 s) \<subseteq> set (since s0 t)" using turn_step_log_since [OF step l(1)] by blast
  moreover have "guard_step (justified C st) (length (ss_log s0)) s0 t"
    using at calm unfolding turn_at_def calm_step_def by (blast intro: guard_step_trans)
  moreover have "filter marked (since s0 t) = filter marked (since s0 s)"
    using calm l by (simp add: calm_step_def)
  then have "exec_ids (since s0 t) = exec_ids (since s0 s)" "streams (since s0 t) = streams (since s0 s)"
    by (metis exec_ids_filter, metis streams_filter)
  ultimately show ?thesis using at unfolding turn_at_def by auto
qed

lemma wp_calm:
  assumes "keeps (calm_step (justified C st) (length (ss_log s0))) op" and "turn_at C st s0 X m F s"
  shows "wp op (\<lambda>_. turn_at C st s0 X m F) (\<lambda>_. turn_at C st s0 X m F) s"
  by (rule wp_mono [OF keeps_wpI [OF assms(1)]]; rule turn_at_calm [OF assms(2)])

lemma wp_calm_seq:
  assumes "keeps (calm_step (justified C st) (length (ss_log s0))) op" and "turn_at C st s0 X m F s"
    and "\<And>a t. turn_at C st s0 X m F t \<Longrightarrow> wp (f a) Q (\<lambda>_. turn_safe C st s0) t"
  shows "wp (bindE op f) Q (\<lambda>_. turn_safe C st s0) s"
  using wp_calm [OF assms(1,2)] by (rule wp_seq) (auto intro: assms(3) turn_at_safe)

text \<open>One more justified effect.\<close>

lemma turn_at_effect:
  assumes at: "turn_at C st s0 X m F s" and e: "justified C st (since s0 s) e"
    and X: "set (exec_ids [e]) \<subseteq> X'" "X \<subseteq> X'" "finite X'" "card X' \<le> max_tool_calls_per_turn (ec_limits C)"
    and m: "m + streams [e] \<le> m'" "m' \<le> max_model_rounds (ec_limits C)"
  shows "turn_at C st s0 X' m' (insert e F) (s\<lparr>ss_log := ss_log s @ [e]\<rparr>)"
proof -
  note l = turn_at_log [OF at]
  have "guard_step (justified C st) (length (ss_log s0)) s (s\<lparr>ss_log := ss_log s @ [e]\<rparr>)"
    using e l(2) by (simp add: guard_step_def turn_step_def op_step_def canon_step_frame)
  with at have "guard_step (justified C st) (length (ss_log s0)) s0 (s\<lparr>ss_log := ss_log s @ [e]\<rparr>)"
    unfolding turn_at_def by (blast intro: guard_step_trans)
  then show ?thesis using at X m l(2) unfolding turn_at_def by auto
qed

lemma turn_at_plain_effect:
  assumes "turn_at C st s0 X m F s" "plain_effect C st e"
  shows "turn_at C st s0 X m (insert e F) (s\<lparr>ss_log := ss_log s @ [e]\<rparr>)"
proof (rule turn_at_effect [OF assms(1)])
  show "justified C st (since s0 s) e" using assms(2) by (simp add: plain_effect_def always_def)
  have "exec_ids [e] = []" using assms(2) exec_id_marked [of e]
    by (simp add: plain_effect_def exec_ids_def map_filter_simps)
  then show "set (exec_ids [e]) \<subseteq> X" by simp
  show "m + streams [e] \<le> m" using assms(2) by (simp add: plain_effect_def marked_def streams_def)
qed (use assms(1) in \<open>simp_all add: turn_at_def\<close>)

lemma turn_at_in: "turn_at C st s0 X m F s \<Longrightarrow> e \<in> F \<Longrightarrow> e \<in> set (since s0 s)"
  by (auto simp: turn_at_def)

section \<open>The parts of the workflow that stay calm\<close>

locale workflow_env = turn_env R E P
  for R :: "'w sys \<Rightarrow> 'w sys \<Rightarrow> bool" and E :: "('w, 'z) turn_host_scheme" and P +
  assumes gate: "R s (s\<lparr>ss_usage := u\<rparr>)" "R s (s\<lparr>ss_terminal := b\<rparr>)"
    and polls: "P (Polled c)"
    and emits: "P (Constructed (CallEmit ev))"
begin

lemma keeps_emit: "keeps R (emit E ev)"
  unfolding emit_def by (intro keeps_rules keeps_record_effect keeps_await polls emits)

lemma keeps_gate: "keeps R establish_terminal" "keeps R (set_usage usage)"
  unfolding establish_terminal_def set_usage_def by (intro keeps_modify gate)+

lemma keeps_iterate:
  assumes "\<And>x. keeps R (body x)"
  shows "keeps R (iterate n body x)"
proof (induction n arbitrary: x)
  case (Suc n)
  show ?case unfolding iterate.simps by (intro keeps_bindE keeps_sum keeps_ret assms Suc)
qed (simp add: keeps_fail)

lemma keeps_map_op:
  assumes "\<And>x. keeps R (f x)"
  shows "keeps R (map_op f xs)"
  by (induction xs) (auto intro!: keeps_rules assms)

lemma keeps_lift_fail_bind:
  assumes "\<And>a. r = Inr a \<Longrightarrow> keeps R (f a)"
  shows "keeps R (bindE (lift_fail r) f)"
proof (rule keepsI)
  fix s
  show "R s (snd (bindE (lift_fail r) f s))"
    using assms by (cases r) (simp_all add: lift_fail_def lift_err_def map_err_def lift_res_def bindE_def refl keeps_def)
qed

lemma keeps_accept_step: "keeps R (accept_step C E ev tv rv)"
  unfolding accept_step_def
  by (intro keeps_turn_rules keeps_lift_fail keeps_gate keeps_emit)

lemma keeps_model_event_step: "keeps R (model_event_step C E vars)"
proof -
  have "keeps R (case ev of Stop reason \<Rightarrow> bindE (lift_fail (validate_stop_reason reason l))
        (\<lambda>_. ret (Inr (reason, tv, rv)))
      | TextDelta t \<Rightarrow> bindE (accept_step C E (TextDelta t) tv rv) (\<lambda>v. ret (Inl v))
      | ReasoningDelta t \<Rightarrow> bindE (accept_step C E (ReasoningDelta t) tv rv) (\<lambda>v. ret (Inl v))
      | ModelToolCall c \<Rightarrow> bindE (accept_step C E (ModelToolCall c) tv rv) (\<lambda>v. ret (Inl v))
      | Usage u \<Rightarrow> bindE (accept_step C E (Usage u) tv rv) (\<lambda>v. ret (Inl v)))" for ev l tv rv
    by (cases ev) (simp, intro keeps_rules keeps_lift_fail keeps_accept_step)+
  then show ?thesis
    unfolding model_event_step_def Let_def
    by (intro keeps_turn_rules keeps_lift_fail keeps_raise_fail polls)
qed

lemma keeps_model_events_loop: "keeps R (model_events_loop C E tv)"
  unfolding model_events_loop_def by (intro keeps_iterate keeps_model_event_step)

lemma keeps_persist_call:
  assumes "\<And>tool ctx args. P (Constructed (CallPersistArguments tool ctx args))"
  shows "keeps R (persist_call C E st cat entry)"
  unfolding persist_call_def Let_def
  by (intro keeps_turn_rules keeps_record_effect keeps_lift_fail polls assms)

lemma keeps_host_prepare:
  assumes "\<And>p. P (Prepared tool ctx call p)"
  shows "keeps R (host_prepare E tool ctx call)"
proof (rule keepsI)
  fix s :: "'w sys"
  have "R s (s\<lparr>ss_world := w, ss_log := ss_log s @ [Prepared tool ctx call p]\<rparr>)" for w p
    using trans [OF world [of s w] logged [OF assms, of "s\<lparr>ss_world := w\<rparr>"]] by simp
  then show "R s (snd (host_prepare E tool ctx call s))"
    using world by (auto simp: host_prepare_def split: prod.splits sum.splits)
qed

end

locale deferral_env = workflow_env R E P
  for R :: "'w sys \<Rightarrow> 'w sys \<Rightarrow> bool" and E :: "('w, 'z) turn_host_scheme" and P +
  assumes deferrals: "R s (s\<lparr>ss_deferrals := d\<rparr>)"
begin

lemma keeps_defer: "keeps R defer_cancellation"
  unfolding defer_cancellation_def by (intro keeps_modify deferrals)

lemma keeps_releasing:
  assumes "keeps R m"
  shows "keeps R (releasing d m)"
proof (rule keepsI)
  fix s
  obtain r t where m: "m s = (r, t)" by fastforce
  then have "R s t" using assms by (auto dest: keeps_run)
  then show "R s (snd (releasing d m s))"
    using m deferrals by (auto simp: releasing_def intro: trans)
qed

end

lemma deferral_env_calm:
  assumes "env_rely E"
  shows "deferral_env (calm_step (justified C st) n) E (plain_effect C st)"
proof (intro deferral_env.intro workflow_env.intro)
  show "turn_env (calm_step (justified C st) n) E (plain_effect C st)"
    using calm_env [OF assms, of "justified C st" n] by (simp add: plain_effect_def [abs_def])
  have gate: "ss_ptr t = ss_ptr s \<Longrightarrow> ss_record t = ss_record s \<Longrightarrow> ss_fresh t = ss_fresh s \<Longrightarrow>
      ss_lease t = ss_lease s \<Longrightarrow> ss_cancelled t = ss_cancelled s \<Longrightarrow> ss_reconcile t = ss_reconcile s \<Longrightarrow>
      ss_log t = ss_log s \<Longrightarrow> calm_step (justified C st) n s t" for s t :: "'a sys"
    by (rule turn_step_calm [where P = "\<lambda>_. False"])
      (simp_all add: turn_step_def op_step_def canon_step_frame)
  show "workflow_env_axioms (calm_step (justified C st) n :: 'a sys \<Rightarrow> _) (plain_effect C st)"
    by unfold_locales (auto intro: gate)
  show "deferral_env_axioms (calm_step (justified C st) n :: 'a sys \<Rightarrow> _)"
    by unfold_locales (auto intro: gate)
qed

lemmas workflow_env_calm = deferral_env_calm [THEN deferral_env.axioms(1)]

text \<open>Any host, with the reconciliation of a loaded record as the concurrent activity.\<close>

interpretation calm_peer: deferral_env "calm_step (justified C st) n" "peer_host (E\<lparr>sh_yield := \<lambda>s. s\<rparr>) r"
  "plain_effect C st" for C st n and E :: "('w, 'z) turn_host_scheme" and r
  by (intro deferral_env_calm env_rely_peer) (simp add: env_rely_def rel.refl)

section \<open>Histories of a turn\<close>

lemma closure_messages_update:
  assumes "k < length ms" "ms ! k = tool_result_message i out"
  shows "closure_messages (ms[k := tool_result_message i out']) P = closure_messages ms P"
  using assms
proof (induction ms arbitrary: k P)
  case (Cons m ms)
  then show ?case
    by (cases k) (auto simp: tool_result_message_def intro!: arg_cong2 [where f = bind_res])
qed simp

lemma closed_history_update:
  assumes "closed_history ms" "k < length ms" "ms ! k = tool_result_message i out"
  shows "closed_history (ms[k := tool_result_message i out'])"
  using assms closed_history_closure closure_closed_history closure_messages_update by metis

lemma history_ok_update:
  assumes "history_ok st ms" "length (sr_messages (st_record st)) \<le> k" "k < length ms"
    "ms ! k = tool_result_message i out"
  shows "history_ok st (ms[k := tool_result_message i out'])"
  using assms closed_history_update [of ms k i out out']
  by (auto simp: history_ok_def prefix_def list_update_append)

lemma calls_of_map [simp]: "calls_of (map ToolCall cs) = map tc_id cs"
  by (induction cs) auto

lemma results_of_map [simp]: "results_of (map ToolCall cs) = []"
  by (induction cs) auto

lemma closed_round_messages:
  assumes "map tc_id persisted = map tc_id calls" "distinct (map tc_id calls)" "calls \<noteq> []"
  shows "closed_history (round_messages t persisted calls)"
proof -
  let ?m = "\<lparr>m_role = Assistant, m_content = assistant_message_content t persisted\<rparr>"
  let ?rs = "map (\<lambda>call. tool_result_message (tc_id call) unknown_tool_result) calls"
  have ids: "call_ids ?m = map tc_id calls" "result_ids ?m = []"
    using assms(1) by (simp_all add: call_ids_def result_ids_def assistant_message_content_def)
  have "concat (map result_ids ?rs) = map tc_id calls"
    by (induction calls) (simp_all add: result_ids_def tool_result_message_def)
  then have "closed_history (?m # ?rs @ [])"
    using assms ids
    by (intro closed_round) (auto simp: calls_message_def results_message_def tool_result_message_def
        intro: closed_Nil)
  then show ?thesis by (simp add: round_messages_def)
qed

lemma closed_answer: "closed_history [\<lparr>m_role = Assistant, m_content = assistant_message_content t []\<rparr>]"
  by (rule closed_history_plain)
    (simp add: plain_message_def call_ids_def result_ids_def assistant_message_content_def)

lemma history_ok_append: "history_ok st ms \<Longrightarrow> closed_history new \<Longrightarrow> history_ok st (ms @ new)"
  by (auto simp: history_ok_def closed_history_append)

text \<open>The start of a turn: what \<open>start_turn\<close> returns for a session with a closed history.\<close>

definition start_ok :: "turn_start \<Rightarrow> bool" where
  "start_ok st \<longleftrightarrow> closed_history (sr_messages (st_record st))
     \<and> (case st_context st of None \<Rightarrow> True | Some vc \<Rightarrow> context_for vc (sr_messages (st_record st)))"

definition record_at :: "turn_start \<Rightarrow> session_record \<Rightarrow> bool" where
  "record_at st r \<longleftrightarrow> sr_id r = sr_id (st_record st)
     \<and> sr_incarnation_id r = sr_incarnation_id (st_record st) \<and> history_ok st (sr_messages r)"

lemma record_at_start: "start_ok st \<Longrightarrow> record_at st (st_record st)"
  by (simp add: start_ok_def record_at_def history_ok_def)

lemma request_messages_closed:
  assumes "start_ok st" "record_at st r" "request_messages C st r = Inr msgs"
  shows "closed_history msgs"
proof (cases "st_context st")
  case None
  then show ?thesis using assms by (simp add: request_messages_def record_at_def history_ok_def)
next
  case (Some vc)
  obtain new where "sr_messages r = sr_messages (st_record st) @ new"
    using assms(2) by (auto simp: record_at_def history_ok_def prefix_def)
  then have vc: "context_for vc (sr_messages r)"
    using assms(1) Some by (simp add: start_ok_def context_for_append)
  have "context_messages (ec_serializer C) vc (sr_messages r) (ec_limits C) = Inr msgs"
    using assms(3) Some by (simp add: request_messages_def)
  then have "msgs = projected_elements (context_view vc (sr_messages r))"
    by (rule context_messages_Inr [OF context_for_wf [OF vc]])
  then show ?thesis
    using projected_closed [OF vc] assms(2) by (simp add: record_at_def history_ok_def)
qed

section \<open>Values\<close>

lemma wp_with:
  "wp m Q X s \<Longrightarrow> wp m Q' (\<lambda>_ _. True) s \<Longrightarrow> wp m (\<lambda>a t. Q a t \<and> Q' a t) X s"
  using wp_conj [of m Q Q' X "\<lambda>_ _. True"] by simp

lemma map_op_values:
  assumes "\<And>x s. wp (f x) (\<lambda>y _. g y = h x) (\<lambda>_ _. True) s"
  shows "wp (map_op f xs) (\<lambda>ys _. map g ys = map h xs) (\<lambda>_ _. True) s"
proof (induction xs arbitrary: s)
  case (Cons x xs)
  show ?case unfolding map_op.simps
    by (rule wp_seq [OF assms], rule wp_seq [OF Cons.IH]) simp_all
qed simp

lemma persist_call_values:
  "wp (persist_call C E st cat entry)
     (\<lambda>call _. (tc_id call, tc_name call) = (tc_id (fst entry), tc_name (fst entry))) (\<lambda>_ _. True) s"
  unfolding persist_call_def Let_def
  by (auto simp del: wp_bindE intro!: wp_seq_trivial)

text \<open>What the events of a round leave in the variables.\<close>

definition round_ok :: "turn_vars \<Rightarrow> turn_vars \<times> round_vars \<Rightarrow> bool" where
  "round_ok tv0 vars \<longleftrightarrow>
     (let tv = fst vars; rv = snd vars in
      tv_record tv = tv_record tv0 \<and> tv_tools tv = tv_tools tv0
      \<and> tv_seen_call_ids tv = tv_seen_call_ids tv0 \<and> tv_tool_calls tv = tv_tool_calls tv0
      \<and> tv_model_rounds tv = tv_model_rounds tv0
      \<and> length (rv_input_limits rv) = length (rv_calls rv)
      \<and> rv_call_ids rv = tc_id ` set (rv_calls rv)
      \<and> distinct (map tc_id (rv_calls rv))
      \<and> (\<forall>call \<in> set (rv_calls rv). tc_id call \<notin> tv_seen_call_ids tv0))"

lemma accept_tool_call_round_ok:
  assumes "round_ok tv0 (tv, rv)" "accept_tool_call C inputs call tv rv = Inr (tv', rv')"
  shows "round_ok tv0 (tv', rv')"
  using assms
  by (auto simp: round_ok_def accept_tool_call_def charge_arguments_def Let_def split: if_splits)

lemma accept_event_round_ok:
  assumes "round_ok tv0 (tv, rv)" "accept_event C inputs ev tv rv = Inr (tv', rv', u)"
  shows "round_ok tv0 (tv', rv')"
proof (cases ev)
  case (ModelToolCall call)
  then show ?thesis using assms by (auto simp: accept_event_def intro: accept_tool_call_round_ok)
qed (use assms in \<open>auto simp: accept_event_def round_ok_def Let_def\<close>)

lemma round_ok_events [simp]: "round_ok tv0 (tv\<lparr>tv_model_events := n\<rparr>, rv) = round_ok tv0 (tv, rv)"
  by (simp add: round_ok_def)

lemma model_events_loop_round:
  "wp (model_events_loop C E tv) (\<lambda>(reason, tv', rv) _. round_ok tv (tv', rv)) (\<lambda>_ _. True) s"
  unfolding model_events_loop_def
proof (rule wp_iterate [where I = "\<lambda>vars _. round_ok tv vars"])
  fix vars s
  assume ok: "round_ok tv vars"
  have "round_ok tv (fst vars\<lparr>tv_model_events := n\<rparr>, snd vars)" for n using ok by simp
  note step = accept_event_round_ok [OF this]
  show "wp (model_event_step C E vars)
      (\<lambda>r t. case r of Inl y \<Rightarrow> round_ok tv y
         | Inr a \<Rightarrow> (case a of (reason, tv', rv) \<Rightarrow> \<lambda>_. round_ok tv (tv', rv)) t)
      (\<lambda>_ _. True) s"
    by (intro wp_mono [OF model_event_step_outcome])
      (auto split: sum.splits simp: ok intro: step)
qed (simp_all add: round_ok_def round_vars_init_def)

section \<open>Opening and publishing a round\<close>

lemma wp_fail_seq:
  assumes "turn_at C st s0 X m F s" and "\<And>a. r = Inr a \<Longrightarrow> wp (k a) Q (\<lambda>_. turn_safe C st s0) s"
  shows "wp (bindE (lift_fail r) k) Q (\<lambda>_. turn_safe C st s0) s"
  using assms by (intro wp_seq_fail) (auto intro: turn_at_safe)

lemma stream_effect:
  assumes at: "turn_at C st s0 X m F s" and m: "Suc m \<le> max_model_rounds (ec_limits C)"
    and closed: "closed_history msgs"
  shows "turn_at C st s0 X (Suc m) F
    (s\<lparr>ss_log := ss_log s @ [Constructed (CallStream (turn_request C st tv msgs))]\<rparr>)" (is "turn_at C st s0 X _ F ?t")
proof -
  let ?e = "Constructed (CallStream (turn_request C st tv msgs))"
  have "turn_at C st s0 X (Suc m) (insert ?e F) ?t"
    using closed m at
    by (intro turn_at_effect [OF at])
      (simp_all add: justified_def turn_request_def exec_ids_def map_filter_simps streams_def
        is_stream_def turn_at_def)
  then show ?thesis by (auto simp: turn_at_def)
qed

lemma wp_open_round:
  assumes env: "env_rely E" and st: "start_ok st" and r: "record_at st (tv_record tv)"
    and at: "turn_at C st s0 X (tv_model_rounds tv) F s"
  shows "wp (open_round C E st tv)
    (\<lambda>tv' t. tv' = tv\<lparr>tv_model_rounds := Suc (tv_model_rounds tv)\<rparr>
       \<and> turn_at C st s0 X (Suc (tv_model_rounds tv)) F t)
    (\<lambda>_. turn_safe C st s0) s"
proof -
  let ?m = "tv_model_rounds tv" and ?X = "\<lambda>_ :: workflow_abort stop. turn_safe C st s0"
  let ?Q = "\<lambda>tv' t. tv' = tv\<lparr>tv_model_rounds := Suc ?m\<rparr> \<and> turn_at C st s0 X (Suc ?m) F t"
  note W = workflow_env_calm [OF env, of C st "length (ss_log s0)"]
  note T = workflow_env.axioms(1) [OF W]
  note cc = turn_env.keeps_check_cancelled [OF T]
  have await: "wp (bindE (await_cancellable E (CallStream req) f) (\<lambda>res.
      bindE (lift_fail (map_err failure_provider res)) (\<lambda>_. ret (tv\<lparr>tv_model_rounds := n\<rparr>)))) ?Q ?X t"
    if "turn_at C st s0 X n F t" "n = Suc ?m" for req t n and f :: "('a, (provider_error, unit) result) future"
    by (rule wp_calm_seq [OF turn_env.keeps_await_cancellable [OF T] that(1)], simp,
        rule wp_fail_seq, assumption) (simp add: that)
  have stream: "wp (bindE (record_effect (Constructed (CallStream (turn_request C st tv msgs)))) (\<lambda>_.
      bindE (await_cancellable E (CallStream (turn_request C st tv msgs)) (th_stream E (turn_request C st tv msgs)))
        (\<lambda>res. bindE (lift_fail (map_err failure_provider res)) (\<lambda>_. ret (tv\<lparr>tv_model_rounds := n\<rparr>))))) ?Q ?X t"
    if "turn_at C st s0 X ?m F t" "n = Suc ?m" "n \<le> max_model_rounds (ec_limits C)" "closed_history msgs"
    for msgs t n
    using that by (subst wp_bindE) (simp only: wp_record_effect, intro await stream_effect, auto)
  show ?thesis
    unfolding open_round_def Let_def
    by (rule wp_calm_seq [OF cc at], rule wp_fail_seq, assumption,
        rule wp_calm_seq [OF turn_env.keeps_check_turn_record [OF T]], assumption,
        rule wp_fail_seq, assumption, rule wp_fail_seq, assumption, rule wp_calm_seq [OF cc], assumption,
        rule stream)
      (auto simp: bounded_add_Inr intro: request_messages_closed [OF st r])
qed

text \<open>A commit of a turn: calm, and the completed save is in the log.\<close>

lemma turn_step_at:
  assumes at: "turn_at C st s0 X m F s" and step: "turn_step (transcript_effect C base ms) s t"
    and base: "record_at st base" and ms: "history_ok st ms"
  shows "turn_at C st s0 X m F t"
proof (rule turn_at_calm [OF at turn_step_calm [OF step]])
  fix e assume "transcript_effect C base ms e"
  then have "plain_effect C st e"
    using plain_transcript_effect [of C base ms e st] base ms by (simp add: record_at_def)
  then show "always (justified C st) e \<and> \<not> marked e" by (simp add: plain_effect_def)
qed

lemma wp_commit_at:
  assumes env: "env_rely E" and at: "turn_at C st s0 X m F s" and base: "record_at st base"
    and ms: "closed_history ms"
  shows "wp (commit_messages C E base ms mode)
    (\<lambda>r t. record_at st r \<and> sr_messages r = sr_messages base @ ms
       \<and> (\<exists>c v. sr_messages c = sr_messages base @ ms \<and> turn_at C st s0 X m (insert (Saved c v) F) t))
    (\<lambda>_. turn_safe C st s0) s"
proof (rule wp_mono [OF wp_commit_messages [OF env turn_at_log(1) [OF at]]])
  have ok: "history_ok st (sr_messages base @ ms)"
    using base ms by (simp add: record_at_def history_ok_append)
  note step = turn_step_at [OF at _ base ok]
  show "turn_safe C st s0 t" if "turn_step (transcript_effect C base (sr_messages base @ ms)) s t" for t
    using step [OF that] by (rule turn_at_safe)
  fix r t
  assume t: "turn_step (transcript_effect C base (sr_messages base @ ms)) s t
    \<and> stored C base (sr_messages base @ ms) s r t"
  then obtain c where c: "candidate_for C base (sr_messages base @ ms) c"
    "Saved c (sr_revision r) \<in> set (drop (length (ss_log s)) (ss_log t))"
    unfolding stored_def by blast
  have "set (drop (length (ss_log s)) (ss_log t)) \<subseteq> set (since s0 t)"
    using turn_at_log(2) [OF at] by (rule set_drop_subset_set_drop)
  then have "turn_at C st s0 X m (insert (Saved c (sr_revision r)) F) t"
    using step t c(2) unfolding turn_at_def by auto
  moreover have "record_at st r" "sr_messages r = sr_messages base @ ms"
    using stored_sel [of C base _ s r t] t base ok by (auto simp: record_at_def)
  ultimately show "record_at st r \<and> sr_messages r = sr_messages base @ ms
       \<and> (\<exists>c v. sr_messages c = sr_messages base @ ms \<and> turn_at C st s0 X m (insert (Saved c v) F) t)"
    using c(1) by (auto simp: candidate_for_def)
qed

lemma wp_replace_at:
  assumes env: "env_rely E" and at: "turn_at C st s0 X m F s" and base: "record_at st base"
    and ms: "history_ok st ((sr_messages base)[k := msg])"
  shows "wp (replace_message C E base k msg honor)
    (\<lambda>r t. record_at st r \<and> sr_messages r = (sr_messages base)[k := msg] \<and> turn_at C st s0 X m F t)
    (\<lambda>_. turn_at C st s0 X m F) s"
  using stored_sel [of C base "(sr_messages base)[k := msg]" s] base ms
  by (intro wp_mono [OF wp_replace_message [OF env turn_at_log(1) [OF at]]])
    (auto simp: record_at_def intro: turn_step_at [OF at _ base ms])

text \<open>The state of a round whose first \<open>i\<close> calls are settled.\<close>

definition published_calls :: "tool_call list \<Rightarrow> effect set \<Rightarrow> bool" where
  "published_calls calls F \<longleftrightarrow> (\<exists>c v. Saved c v \<in> F \<and> (\<forall>call \<in> set calls.
     published [Saved c v] (tc_id call) (tc_name call)))"

definition round_at ::
  "engine_config \<Rightarrow> turn_start \<Rightarrow> 'w sys \<Rightarrow> tool_call_id set \<Rightarrow> tool_call list \<Rightarrow> round_plan \<Rightarrow> nat \<Rightarrow>
   turn_vars \<Rightarrow> 'w sys \<Rightarrow> bool" where
  "round_at C st s0 X calls plan i tv s \<longleftrightarrow>
     (\<exists>F. turn_at C st s0 (X \<union> tc_id ` set (take i calls)) (tv_model_rounds tv) F s \<and> published_calls calls F)
     \<and> record_at st (tv_record tv)
     \<and> length (sr_messages (tv_record tv)) = rp_placeholder_start plan + length calls
     \<and> (\<forall>j < length calls. \<exists>out. sr_messages (tv_record tv) ! (rp_placeholder_start plan + j) =
          tool_result_message (tc_id (calls ! j)) out)
     \<and> length (sr_messages (st_record st)) \<le> rp_placeholder_start plan
     \<and> tv_seen_call_ids tv = X \<union> tc_id ` set calls
     \<and> card (tv_seen_call_ids tv) \<le> rp_total plan \<and> rp_total plan \<le> max_tool_calls_per_turn (ec_limits C)
     \<and> (\<forall>call \<in> set calls. tc_id call \<notin> X) \<and> distinct (map tc_id calls)
     \<and> catalog_invar C (tv_tools tv)"

definition turn_inv :: "engine_config \<Rightarrow> turn_start \<Rightarrow> 'w sys \<Rightarrow> turn_vars \<Rightarrow> 'w sys \<Rightarrow> bool" where
  "turn_inv C st s0 tv s \<longleftrightarrow>
     turn_at C st s0 (tv_seen_call_ids tv) (tv_model_rounds tv) {} s \<and> record_at st (tv_record tv)
     \<and> card (tv_seen_call_ids tv) \<le> tv_tool_calls tv \<and> catalog_invar C (tv_tools tv)"

lemma published_round:
  assumes "map (\<lambda>c. (tc_id c, tc_name c)) persisted = map (\<lambda>c. (tc_id c, tc_name c)) calls"
    "sr_messages c = base @ round_messages t persisted calls" "call \<in> set calls"
  shows "published [Saved c v] (tc_id call) (tc_name call)"
proof -
  let ?m = "\<lparr>m_role = Assistant, m_content = assistant_message_content t persisted\<rparr>"
  have "(tc_id call, tc_name call) \<in> set (map (\<lambda>c. (tc_id c, tc_name c)) persisted)"
    using assms(1,3) by auto
  then obtain p where "p \<in> set persisted" "tc_id p = tc_id call" "tc_name p = tc_name call" by auto
  then have "ToolCall p \<in> set (m_content ?m)" "tc_id p = tc_id call" "tc_name p = tc_name call"
    by (auto simp: assistant_message_content_def)
  moreover have "?m \<in> set (sr_messages c)" "m_role ?m = Assistant"
    "tool_result_message (tc_id call) unknown_tool_result \<in> set (sr_messages c)"
    using assms(2,3) by (auto simp: round_messages_def)
  ultimately show ?thesis unfolding published_def by (metis list.set_intros(1))
qed

lemma persist_calls_at:
  assumes env: "env_rely E" and at: "turn_at C st s0 X m F s" and len: "length lims = length calls"
  shows "wp (map_op (persist_call C E st cat) (zip calls lims))
    (\<lambda>ps t. turn_at C st s0 X m F t \<and>
       map (\<lambda>c. (tc_id c, tc_name c)) ps = map (\<lambda>c. (tc_id c, tc_name c)) calls)
    (\<lambda>_. turn_safe C st s0) s"
proof -
  note W = workflow_env_calm [OF env, of C st "length (ss_log s0)"]
  have "keeps (calm_step (justified C st) (length (ss_log s0))) (map_op (persist_call C E st cat) (zip calls lims))"
    by (intro workflow_env.keeps_map_op [OF W] workflow_env.keeps_persist_call [OF W]) simp
  from wp_calm [OF this at]
  have "wp (map_op (persist_call C E st cat) (zip calls lims))
      (\<lambda>_. turn_at C st s0 X m F) (\<lambda>_. turn_safe C st s0) s"
    by (rule wp_mono) (auto intro: turn_at_safe)
  moreover have "wp (map_op (persist_call C E st cat) (zip calls lims))
      (\<lambda>ps _. map (\<lambda>c. (tc_id c, tc_name c)) ps = map (\<lambda>e. (tc_id (fst e), tc_name (fst e))) (zip calls lims))
      (\<lambda>_ _. True) s"
    by (intro map_op_values persist_call_values)
  moreover have "map (\<lambda>e. (tc_id (fst e), tc_name (fst e))) (zip calls lims) = map (\<lambda>c. (tc_id c, tc_name c)) calls"
  proof -
    have "map fst (zip calls lims) = calls" using len by simp
    from arg_cong [OF this, of "map (\<lambda>c. (tc_id c, tc_name c))"] show ?thesis by (simp add: comp_def)
  qed
  ultimately show ?thesis by (simp only: wp_with)
qed

lemma round_at_published:
  assumes inv: "turn_inv C st s0 tv s" and len: "length lims = length calls"
    and fresh: "\<forall>call \<in> set calls. tc_id call \<notin> tv_seen_call_ids tv" "distinct (map tc_id calls)"
    and total_ok: "n = tv_tool_calls tv + length calls" "n \<le> max_tool_calls_per_turn (ec_limits C)"
    and ps: "map (\<lambda>c. (tc_id c, tc_name c)) ps = map (\<lambda>c. (tc_id c, tc_name c)) calls"
    and r: "record_at st r" "sr_messages r = sr_messages (tv_record tv) @ round_messages answer' ps calls"
    and c: "sr_messages c = sr_messages (tv_record tv) @ round_messages answer' ps calls"
    and at: "turn_at C st s0 (tv_seen_call_ids tv) (tv_model_rounds tv) (insert (Saved c v) F) t"
  shows "round_at C st s0 (tv_seen_call_ids tv) calls
    \<lparr>rp_total = n, rp_placeholder_bytes = b, rp_placeholder_start = Suc (length (sr_messages (tv_record tv)))\<rparr> 0
    (tv\<lparr>tv_seen_call_ids := tv_seen_call_ids tv \<union> set (map tc_id calls), tv_record := r, tv_result_bytes := cum\<rparr>) t"
proof -
  have card: "card (tv_seen_call_ids tv \<union> tc_id ` set calls) \<le> n"
  proof -
    have "card (tc_id ` set calls) \<le> length calls" by (metis card_length length_map set_map)
    moreover have "card (tv_seen_call_ids tv) \<le> tv_tool_calls tv" using inv by (simp add: turn_inv_def)
    ultimately show ?thesis using total_ok(1) card_Un_le [of "tv_seen_call_ids tv" "tc_id ` set calls"] by linarith
  qed
  have pub: "published_calls calls (insert (Saved c v) F)"
    using published_round [OF ps c] unfolding published_calls_def by blast
  have nth: "sr_messages r ! (Suc (length (sr_messages (tv_record tv))) + j) =
      tool_result_message (tc_id (calls ! j)) unknown_tool_result" if "j < length calls" for j
    using that by (simp add: r(2) nth_append round_messages_def)
  have "length (sr_messages (st_record st)) \<le> length (sr_messages (tv_record tv))"
    using inv by (auto simp: turn_inv_def record_at_def history_ok_def dest: prefix_length_le)
  then show ?thesis
    using inv fresh total_ok r card nth pub at
    by (auto simp: round_at_def turn_inv_def round_messages_def)
qed

lemma wp_publish_round:
  assumes env: "env_rely E" and inv: "turn_inv C st s0 tv s"
    and len: "length (rv_input_limits rv) = length (rv_calls rv)" and some: "rv_calls rv \<noteq> []"
    and fresh: "\<forall>call \<in> set (rv_calls rv). tc_id call \<notin> tv_seen_call_ids tv" "distinct (map tc_id (rv_calls rv))"
  shows "wp (publish_round C E st tv rv reason)
    (\<lambda>(tv', plan) t. round_at C st s0 (tv_seen_call_ids tv) (rv_calls rv) plan 0 tv' t
       \<and> tv_model_rounds tv' = tv_model_rounds tv)
    (\<lambda>_. turn_safe C st s0) s"
proof -
  let ?X = "tv_seen_call_ids tv" and ?m = "tv_model_rounds tv"
  note W = workflow_env_calm [OF env, of C st "length (ss_log s0)"]
  have at: "turn_at C st s0 ?X ?m {} s" and r: "record_at st (tv_record tv)"
    using inv by (auto simp: turn_inv_def)
  let ?tv = "tv\<lparr>tv_seen_call_ids := ?X \<union> set (map tc_id (rv_calls rv))\<rparr>"
  have commit: "wp (bindE (commit_messages C E (tv_record ?tv) (round_messages (rv_text rv) ps (rv_calls rv)) CommitCancellable)
      (\<lambda>r. ret (?tv\<lparr>tv_record := r, tv_result_bytes := cum\<rparr>,
        \<lparr>rp_total = n, rp_placeholder_bytes = b, rp_placeholder_start = k\<rparr>)))
      (\<lambda>(tv', plan) t. round_at C st s0 ?X (rv_calls rv) plan 0 tv' t \<and> tv_model_rounds tv' = ?m)
      (\<lambda>_. turn_safe C st s0) t"
    if t: "turn_at C st s0 ?X ?m {} t" and ps: "map (\<lambda>c. (tc_id c, tc_name c)) ps = map (\<lambda>c. (tc_id c, tc_name c)) (rv_calls rv)"
      and n: "n = tv_tool_calls tv + length (rv_calls rv)" "n \<le> max_tool_calls_per_turn (ec_limits C)"
      and k: "k = Suc (length (sr_messages (tv_record tv)))" for ps n b cum k t
  proof (rule wp_seq [OF wp_commit_at [OF env t]])
    show "record_at st (tv_record ?tv)" using r by simp
    have "map fst (map (\<lambda>c. (tc_id c, tc_name c)) ps) = map fst (map (\<lambda>c. (tc_id c, tc_name c)) (rv_calls rv))"
      using ps by simp
    then have ids: "map tc_id ps = map tc_id (rv_calls rv)" by (simp add: comp_def)
    show "closed_history (round_messages (rv_text rv) ps (rv_calls rv))"
      by (rule closed_round_messages [OF ids fresh(2) some])
  qed (auto simp: k intro: round_at_published [OF inv len fresh n ps, simplified])
  show ?thesis
    unfolding publish_round_def Let_def
    by (rule wp_fail_seq [OF at], rule wp_fail_seq [OF at], subst wp_case_prod,
        rule wp_calm_seq [OF workflow_env.keeps_emit [OF W] at],
        rule wp_seq [OF persist_calls_at [OF env _ len]], assumption, elim conjE,
        rule wp_fail_seq, assumption, rule commit)
      (auto simp: bounded_add_Inr)
qed

section \<open>One call: preparation, permission, execution\<close>

lemma wp_calm_safe:
  assumes "keeps (calm_step (justified C st) (length (ss_log s0))) op" and "turn_at C st s0 X m F s"
  shows "wp op (\<lambda>_. turn_at C st s0 X m F) (\<lambda>_. turn_safe C st s0) s"
  by (rule wp_mono [OF wp_calm [OF assms]]) (auto intro: turn_at_safe)

definition allowed :: "turn_start \<Rightarrow> effect set \<Rightarrow> nat option \<Rightarrow> prepared_tool_call \<Rightarrow> bool" where
  "allowed st F admission p \<longleftrightarrow>
     (case pt_authorization p of
        NoAuthorityRequired \<Rightarrow> True
      | PermissionRequired cap \<Rightarrow>
          (\<exists>i auth scope. Authorized (permission_request_for st i cap) auth \<in> F
             \<and> pa_decision auth = Allow scope \<and> pa_admission auth = admission))"

lemma allowed_permitted:
  assumes "allowed st F admission p" and F: "F \<subseteq> set pre"
    and adm: "\<And>adm. admission = Some adm \<Longrightarrow> Admitted adm \<in> set pre"
  shows "permitted st pre p"
proof (cases "pt_authorization p")
  case (PermissionRequired cap)
  then obtain i auth scope where a: "Authorized (permission_request_for st i cap) auth \<in> F"
    "pa_decision auth = Allow scope" "pa_admission auth = admission"
    using assms(1) by (auto simp: allowed_def)
  then have "case pa_admission auth of None \<Rightarrow> True | Some adm \<Rightarrow> Admitted adm \<in> set pre"
    using adm by (cases admission) auto
  moreover have "Authorized (permission_request_for st i cap) auth \<in> set pre" using a(1) F by blast
  ultimately show ?thesis unfolding permitted_def PermissionRequired prepared_tool_authorization.case
    using a(2) by blast
qed (simp add: permitted_def)

lemma published_mono: "published pre i name \<Longrightarrow> set pre \<subseteq> set pre' \<Longrightarrow> published pre' i name"
  unfolding published_def by blast

lemma published_in:
  assumes "turn_at C st s0 X m F s" "published_calls calls F" "call \<in> set calls"
  shows "published (since s0 s) (tc_id call) (tc_name call)"
proof -
  obtain c v where c: "Saved c v \<in> F" "published [Saved c v] (tc_id call) (tc_name call)"
    using assms(2,3) unfolding published_calls_def by blast
  have "set [Saved c v] \<subseteq> set (since s0 s)" using turn_at_in [OF assms(1) c(1)] by simp
  with c(2) show ?thesis by (rule published_mono)
qed

lemma published_calls_insert: "published_calls calls F \<Longrightarrow> published_calls calls (insert e F)"
  unfolding published_calls_def by blast

lemma wp_effect_seq:
  "wp (k ()) Q X (s\<lparr>ss_log := ss_log s @ [e]\<rparr>) \<Longrightarrow> wp (bindE (record_effect e) k) Q X s"
  by simp

text \<open>Everything that is known when a call is about to run.\<close>

definition ready ::
  "turn_start \<Rightarrow> tool_call list \<Rightarrow> effect set \<Rightarrow> tool_ref \<Rightarrow> tool_call \<Rightarrow> prepared_tool_call \<Rightarrow> bool" where
  "ready st calls F tool call p \<longleftrightarrow> Prepared tool (tool_context_for st (tc_id call)) call p \<in> F
     \<and> published_calls calls F \<and> call \<in> set calls"

lemma ready_insert: "ready st calls F tool call p \<Longrightarrow> ready st calls (insert e F) tool call p"
  by (simp add: ready_def published_calls_insert)

lemma ready_in:
  assumes "turn_at C st s0 X m F s" "ready st calls F tool call p"
  shows "Prepared tool (tool_context_for st (tc_id call)) call p \<in> set (since s0 s)"
    "published (since s0 s) (tc_id call) (tc_name call)"
  using turn_at_in [OF assms(1)] published_in [OF assms(1), of calls call] assms(2)
  unfolding ready_def by blast+

lemma authorize_effect:
  assumes at: "turn_at C st s0 X m F s" and ready: "ready st calls F tool call p"
    and cap: "pt_authorization p = PermissionRequired cap"
  shows "turn_at C st s0 X m F (s\<lparr>ss_log := ss_log s @
    [Constructed (CallAuthorize (permission_request_for st i cap) (tc_name call) (tc_id call) (pt_arguments p))]\<rparr>)"
proof -
  let ?e = "Constructed (CallAuthorize (permission_request_for st i cap) (tc_name call) (tc_id call) (pt_arguments p))"
  have "Prepared tool (tool_context_for st (tc_id call)) call p \<in> set (since s0 s)"
    "published (since s0 s) (tc_id call) (tc_name call)"
    using ready_in [OF at ready] by blast+
  then have "justified C st (since s0 s) ?e"
    using cap by (auto simp: justified_def permission_request_for_def)
  then have "turn_at C st s0 X m (insert ?e F) (s\<lparr>ss_log := ss_log s @ [?e]\<rparr>)"
    using at by (intro turn_at_effect [OF at])
      (simp_all add: exec_ids_def map_filter_simps streams_def is_stream_def turn_at_def)
  then show ?thesis by (auto simp: turn_at_def)
qed

lemma wp_authorize_call:
  assumes env: "env_rely E" and at: "turn_at C st s0 X m F s" and ready: "ready st calls F tool call p"
  shows "wp (authorize_call C E st n k call p)
    (\<lambda>(denied, admission) t. \<exists>F'. turn_at C st s0 X m F' t \<and> ready st calls F' tool call p
       \<and> (\<not> denied \<longrightarrow> allowed st F' admission p))
    (\<lambda>_. turn_safe C st s0) s"
proof (cases "pt_authorization p")
  case NoAuthorityRequired
  then show ?thesis using at ready by (auto simp: authorize_call_def allowed_def)
next
  case (PermissionRequired cap)
  note W = workflow_env_calm [OF env, of C st "length (ss_log s0)"]
  note T = workflow_env.axioms(1) [OF W]
  note emit = wp_calm_seq [OF workflow_env.keeps_emit [OF W]]
  let ?Q = "\<lambda>(denied, admission) t. \<exists>F'. turn_at C st s0 X m F' t \<and> ready st calls F' tool call p
       \<and> (\<not> denied \<longrightarrow> allowed st F' admission p)"
  have resolved: "wp (bindE (record_effect (Authorized (permission_request_for st i cap) auth)) (\<lambda>_.
      let decision = bounded_decision (ec_limits C) (pa_decision auth) in
      bindE (emit E (PermissionResolved i decision)) (\<lambda>_. ret (is_deny decision, pa_admission auth))))
      ?Q (\<lambda>_. turn_safe C st s0) t" if t: "turn_at C st s0 X m F t" for i auth t
  proof -
    let ?F = "insert (Authorized (permission_request_for st i cap) auth) F"
    have "\<not> is_deny (bounded_decision (ec_limits C) (pa_decision auth)) \<longrightarrow> allowed st ?F (pa_admission auth) p"
      using PermissionRequired
      by (auto simp: allowed_def is_deny_def bounded_decision_def split: permission_decision.splits)
    then show ?thesis
      using ready_insert [OF ready] unfolding Let_def
      by (intro wp_effect_seq emit [OF turn_at_plain_effect [OF t]]) auto
  qed
  have ask: "wp (bindE (record_effect (Constructed (CallAuthorize (permission_request_for st i cap) (tc_name call)
        (tc_id call) (pt_arguments p)))) (\<lambda>_.
      bindE (await_cancellable E c f) (\<lambda>res. bindE (lift_fail (map_err failure_permission res)) (\<lambda>auth.
      bindE (record_effect (Authorized (permission_request_for st i cap) auth)) (\<lambda>_.
      let decision = bounded_decision (ec_limits C) (pa_decision auth) in
      bindE (emit E (PermissionResolved i decision)) (\<lambda>_. ret (is_deny decision, pa_admission auth)))))))
      ?Q (\<lambda>_. turn_safe C st s0) t" if t: "turn_at C st s0 X m F t" for i c f t
    by (rule wp_effect_seq, rule wp_calm_seq [OF turn_env.keeps_await_cancellable [OF T] authorize_effect [OF t ready PermissionRequired]],
        simp, rule wp_fail_seq, assumption, rule resolved)
  show ?thesis
    unfolding authorize_call_def PermissionRequired Let_def prepared_tool_authorization.case
    by (rule wp_fail_seq [OF at], rule wp_fail_seq [OF at], rule emit [OF at])
      (rule ask [unfolded Let_def])
qed

lemma execute_effect:
  assumes at: "turn_at C st s0 X m F s" and ready: "ready st calls F tool call p"
    and allow: "allowed st F admission p" and adm: "\<And>adm. admission = Some adm \<Longrightarrow> Admitted adm \<in> F"
    and new: "tc_id call \<notin> X" "card (insert (tc_id call) X) \<le> max_tool_calls_per_turn (ec_limits C)"
  shows "turn_at C st s0 (insert (tc_id call) X) m F (s\<lparr>ss_log := ss_log s @
    [Constructed (CallExecute tool (tool_context_for st (tc_id call)) (tc_name call) (pt_arguments p))]\<rparr>)"
proof -
  let ?e = "Constructed (CallExecute tool (tool_context_for st (tc_id call)) (tc_name call) (pt_arguments p))"
  have "permitted st (since s0 s) p"
    using allow adm turn_at_in [OF at] by (intro allowed_permitted) auto
  moreover have "tc_id call \<notin> set (exec_ids (since s0 s))" using at new(1) by (auto simp: turn_at_def)
  moreover have "tctx_call_id (tool_context_for st (tc_id call)) = tc_id call" by (simp add: tool_context_for_def)
  ultimately have "justified C st (since s0 s) ?e"
    using ready_in [OF at ready] by (auto simp: justified_def)
  then have "turn_at C st s0 (insert (tc_id call) X) m (insert ?e F) (s\<lparr>ss_log := ss_log s @ [?e]\<rparr>)"
    using at new by (intro turn_at_effect [OF at])
      (simp_all add: exec_ids_def map_filter_simps streams_def is_stream_def turn_at_def
        tool_context_for_def subset_insertI)
  then show ?thesis by (auto simp: turn_at_def)
qed

lemma turn_at_world: "turn_at C st s0 X m F (s\<lparr>ss_world := w\<rparr>) = turn_at C st s0 X m F s"
  by (simp add: turn_at_def guard_step_def turn_step_def op_step_def canon_step_def arc_wf_def)

lemma turn_safe_gate [simp]:
  "turn_safe C st s0 (s\<lparr>ss_deferrals := d\<rparr>) = turn_safe C st s0 s"
  "turn_safe C st s0 (s\<lparr>ss_terminal := b\<rparr>) = turn_safe C st s0 s"
  by (simp_all add: turn_safe_def guard_step_def turn_step_def op_step_def canon_step_def arc_wf_def)

lemma turn_at_gate [simp]:
  "turn_at C st s0 X m F (s\<lparr>ss_deferrals := d\<rparr>) = turn_at C st s0 X m F s"
  "turn_at C st s0 X m F (s\<lparr>ss_terminal := b\<rparr>) = turn_at C st s0 X m F s"
  by (simp_all add: turn_at_def guard_step_def turn_step_def op_step_def canon_step_def arc_wf_def)

lemma wp_host_admit:
  assumes "turn_at C st s0 X m F s"
  shows "wp (host_admit E adm) (\<lambda>_. turn_at C st s0 X m (insert (Admitted adm) F)) (\<lambda>_. turn_safe C st s0) s"
proof -
  have t: "turn_at C st s0 X m F (s\<lparr>ss_world := w\<rparr>)" for w using assms by (simp add: turn_at_world)
  show ?thesis
    using turn_at_plain_effect [OF t] turn_at_safe [OF t]
    by (simp add: host_admit_def wp_def split: prod.splits sum.splits)
qed

text \<open>The first poll may construct the execution; later polls only poll it.\<close>

lemma wp_poll_first:
  fixes E :: "('w, 'z) turn_host_scheme"
  assumes env: "env_rely E" and at: "turn_at C st s0 X m F s"
    and first: "\<And>t. turn_at C st s0 X m F t \<Longrightarrow>
      wp (closure True) (\<lambda>_. turn_at C st s0 X' m F) (\<lambda>_. turn_safe C st s0) t"
    and later: "keeps (calm_step (justified C st) (length (ss_log s0))) (closure False)"
  shows "wp (poll_fn E n closure True) (\<lambda>_. turn_at C st s0 X' m F) (\<lambda>_. turn_safe C st s0) s"
proof (cases n)
  case 0
  then show ?thesis using turn_at_safe [OF at] by simp
next
  case (Suc k)
  note W = workflow_env_calm [OF env, of C st "length (ss_log s0)"]
  note T = workflow_env.axioms(1) [OF W]
  have "keeps (calm_step (justified C st) (length (ss_log s0))) (poll_fn E k closure False)"
    by (induction k) (auto intro!: calm.keeps_rules
        session_env.keeps_interleave [OF turn_env.axioms(1) [OF T]] later)
  note rest = wp_calm_safe [OF this]
  have "turn_at C st s0 X m F (sh_yield E s)"
    using session_env.yield [OF turn_env.axioms(1) [OF T]] by (rule turn_at_calm [OF at])
  then show ?thesis
    unfolding Suc poll_fn.simps
    by (subst wp_bindE, subst wp_interleave, intro wp_seq [OF first]) (auto split: option.splits intro: rest)
qed

lemma keeps_execution_poll:
  assumes "env_rely E" and "admission = None \<or> \<not> first"
  shows "keeps (calm_step (justified C st) n) (execution_poll E admission c f first)"
  using assms(2)
    turn_env.keeps_host_poll [OF workflow_env.axioms(1) [OF workflow_env_calm [OF assms(1)]], of C st c n f]
  by (auto simp: execution_poll_def intro!: calm.keeps_rules split: option.splits)

lemma wp_execution_poll_first:
  assumes env: "env_rely E" and at: "turn_at C st s0 X m F s" and ready: "ready st calls F tool call p"
    and allow: "allowed st F (Some adm) p"
    and new: "tc_id call \<notin> X" "card (insert (tc_id call) X) \<le> max_tool_calls_per_turn (ec_limits C)"
  shows "wp (execution_poll E (Some adm)
      (CallExecute tool (tool_context_for st (tc_id call)) (tc_name call) (pt_arguments p)) f True)
    (\<lambda>_. turn_at C st s0 (insert (tc_id call) X) m F) (\<lambda>_. turn_safe C st s0) s"
proof -
  note W = workflow_env_calm [OF env, of C st "length (ss_log s0)"]
  note T = workflow_env.axioms(1) [OF W]
  let ?c = "CallExecute tool (tool_context_for st (tc_id call)) (tc_name call) (pt_arguments p)"
  let ?F = "insert (Admitted adm) F"
  have run: "turn_at C st s0 (insert (tc_id call) X) m F (t\<lparr>ss_log := ss_log t @ [Constructed ?c]\<rparr>)"
    if "turn_at C st s0 X m ?F t" for t
  proof -
    have "allowed st ?F (Some adm) p"
      using allow by (auto simp: allowed_def split: prepared_tool_authorization.splits)
    then have "turn_at C st s0 (insert (tc_id call) X) m ?F (t\<lparr>ss_log := ss_log t @ [Constructed ?c]\<rparr>)"
      by (rule execute_effect [OF that ready_insert [OF ready] _ _ new]) simp_all
    then show ?thesis by (auto simp: turn_at_def)
  qed
  have admit: "wp (bindE (check_cancelled E) (\<lambda>_. bindE (host_admit E adm) (\<lambda>_.
      bindE (check_cancelled E) (\<lambda>_. record_effect (Constructed ?c)))))
      (\<lambda>_. turn_at C st s0 (insert (tc_id call) X) m F) (\<lambda>_. turn_safe C st s0) s"
    by (rule wp_calm_seq [OF turn_env.keeps_check_cancelled [OF T] at], rule wp_seq [OF wp_host_admit], assumption,
        rule wp_calm_seq [OF turn_env.keeps_check_cancelled [OF T]], assumption)
      (simp_all add: run)
  have poll: "wp (host_poll ?c f) (\<lambda>_. turn_at C st s0 (insert (tc_id call) X) m F) (\<lambda>_. turn_safe C st s0) t"
    if "turn_at C st s0 (insert (tc_id call) X) m F t" for t
    using that by (intro wp_calm_safe turn_env.keeps_host_poll [OF T]) simp_all
  show ?thesis
    unfolding execution_poll_def option.case if_True by (rule wp_seq [OF admit poll])
qed

lemma wp_scoped_deferral:
  "wp (scoped_deferral op) Q X s = wp op Q (\<lambda>e t. X e (t\<lparr>ss_deferrals := ss_deferrals s\<rparr>)) s"
  by (simp add: wp_def scoped_deferral_def split: prod.splits sum.splits)

lemma keeps_execution_polls:
  assumes "env_rely E" and "admission = None \<or> \<not> first"
  shows "keeps (calm_step (justified C st) n) (cancellable_execution_poll E admission c f first)"
    "keeps (calm_step (justified C st) n) (committed_execution_poll E admission c f first)"
proof -
  note W = workflow_env_calm [OF assms(1), of C st n]
  note k = keeps_execution_poll [OF assms] deferral_env.keeps_defer [OF deferral_env_calm [OF assms(1)]]
    turn_env.keeps_check_cancelled [OF workflow_env.axioms(1) [OF W]]
  show "keeps (calm_step (justified C st) n) (cancellable_execution_poll E admission c f first)"
    "keeps (calm_step (justified C st) n) (committed_execution_poll E admission c f first)"
    unfolding cancellable_execution_poll_def committed_execution_poll_def
    by (intro calm.keeps_rules k)+
qed

lemma wp_execution_polls_first:
  assumes env: "env_rely E" and at: "turn_at C st s0 X m F s" and ready: "ready st calls F tool call p"
    and allow: "allowed st F (Some adm) p"
    and new: "tc_id call \<notin> X" "card (insert (tc_id call) X) \<le> max_tool_calls_per_turn (ec_limits C)"
  shows "wp (cancellable_execution_poll E (Some adm)
      (CallExecute tool (tool_context_for st (tc_id call)) (tc_name call) (pt_arguments p)) f True)
    (\<lambda>_. turn_at C st s0 (insert (tc_id call) X) m F) (\<lambda>_. turn_safe C st s0) s"
    "wp (committed_execution_poll E (Some adm)
      (CallExecute tool (tool_context_for st (tc_id call)) (tc_name call) (pt_arguments p)) f True)
    (\<lambda>_. turn_at C st s0 (insert (tc_id call) X) m F) (\<lambda>_. turn_safe C st s0) s"
proof -
  note W = workflow_env_calm [OF env, of C st "length (ss_log s0)"]
  note cc = turn_env.keeps_check_cancelled [OF workflow_env.axioms(1) [OF W]]
  note first = wp_execution_poll_first [OF env _ ready allow new]
  show "wp (cancellable_execution_poll E (Some adm)
      (CallExecute tool (tool_context_for st (tc_id call)) (tc_name call) (pt_arguments p)) f True)
    (\<lambda>_. turn_at C st s0 (insert (tc_id call) X) m F) (\<lambda>_. turn_safe C st s0) s"
    unfolding cancellable_execution_poll_def
    by (rule wp_calm_seq [OF cc at], rule wp_seq [OF first], assumption, rule wp_calm_seq [OF cc], assumption)
      simp_all
  show "wp (committed_execution_poll E (Some adm)
      (CallExecute tool (tool_context_for st (tc_id call)) (tc_name call) (pt_arguments p)) f True)
    (\<lambda>_. turn_at C st s0 (insert (tc_id call) X) m F) (\<lambda>_. turn_safe C st s0) s"
    unfolding committed_execution_poll_def if_True
    by (rule wp_calm_seq [OF _ at], intro calm.keeps_rules cc deferral_env.keeps_defer [OF deferral_env_calm [OF env]]) (rule first)
qed

lemma wp_await_tool_execution:
  assumes env: "env_rely E" and at: "turn_at C st s0 X m F s" and ready: "ready st calls F tool call p"
    and allow: "allowed st F admission p"
    and new: "tc_id call \<notin> X" "card (insert (tc_id call) X) \<le> max_tool_calls_per_turn (ec_limits C)"
  shows "wp (await_tool_execution E admission
      (CallExecute tool (tool_context_for st (tc_id call)) (tc_name call) (pt_arguments p)) f mode)
    (\<lambda>_. turn_at C st s0 (insert (tc_id call) X) m F) (\<lambda>_. turn_safe C st s0) s"
proof -
  let ?c = "CallExecute tool (tool_context_for st (tc_id call)) (tc_name call) (pt_arguments p)"
  let ?Q = "\<lambda>_. turn_at C st s0 (insert (tc_id call) X) m F" and ?S = "\<lambda>_. turn_safe C st s0"
  have polls: "wp (await_poll_fn E (cancellable_execution_poll E admission ?c f)) ?Q ?S t"
    "wp (await_poll_fn E (committed_execution_poll E admission ?c f)) ?Q ?S t"
    if t: "turn_at C st s0 (if admission = None then insert (tc_id call) X else X) m F t" for t
  proof -
    have first: "wp (cancellable_execution_poll E admission ?c f True) ?Q ?S u"
      "wp (committed_execution_poll E admission ?c f True) ?Q ?S u"
      if "turn_at C st s0 (if admission = None then insert (tc_id call) X else X) m F u" for u
      using that allow
      by (cases admission; simp add: wp_calm_safe keeps_execution_polls [OF env]
          wp_execution_polls_first [OF env _ ready _ new])+
    show "wp (await_poll_fn E (cancellable_execution_poll E admission ?c f)) ?Q ?S t"
      "wp (await_poll_fn E (committed_execution_poll E admission ?c f)) ?Q ?S t"
      unfolding await_poll_fn_def
      by (simp, intro wp_poll_first [OF env t] first keeps_execution_polls [OF env]; simp)+
  qed
  have start: "wp (if admission = None then record_effect (Constructed ?c) else ret ())
      (\<lambda>_. turn_at C st s0 (if admission = None then insert (tc_id call) X else X) m F) ?S s"
    using at execute_effect [OF at ready allow _ new] by (cases admission) simp_all
  show ?thesis
    unfolding await_tool_execution_def
    by (rule wp_seq [OF start], cases mode)
      (auto simp: wp_scoped_deferral intro!: wp_mono [OF polls(1)] wp_mono [OF polls(2)])
qed

lemma wp_host_prepare:
  assumes "turn_at C st s0 X m F s"
  shows "wp (host_prepare E tool ctx call)
    (\<lambda>r. turn_at C st s0 X m (case r of Inl _ \<Rightarrow> F | Inr p \<Rightarrow> insert (Prepared tool ctx call p) F)) Q s"
proof -
  have t: "turn_at C st s0 X m F (s\<lparr>ss_world := w\<rparr>)" for w using assms by (simp add: turn_at_world)
  show ?thesis
    using turn_at_plain_effect [OF t] t
    by (simp add: host_prepare_def wp_def split: prod.splits sum.splits)
qed

lemma wp_run_call:
  assumes env: "env_rely E" and at: "turn_at C st s0 X m F s" and pub: "published_calls calls F" "call \<in> set calls"
    and new: "tc_id call \<notin> X" "card (insert (tc_id call) X) \<le> max_tool_calls_per_turn (ec_limits C)"
  shows "wp (run_call C E st n k tool call input)
    (\<lambda>_ t. \<exists>F. turn_at C st s0 (insert (tc_id call) X) m F t \<and> published_calls calls F)
    (\<lambda>_. turn_safe C st s0) s"
proof -
  let ?ctx = "tool_context_for st (tc_id call)" and ?X = "insert (tc_id call) X" and ?S = "\<lambda>_. turn_safe C st s0"
  let ?Q = "\<lambda>_ t. \<exists>F. turn_at C st s0 ?X m F t \<and> published_calls calls F"
  note W = workflow_env_calm [OF env, of C st "length (ss_log s0)"]
  note cc = turn_env.keeps_check_cancelled [OF workflow_env.axioms(1) [OF W]]
  note emit = wp_calm_seq [OF workflow_env.keeps_emit [OF W]]
  have fin: "\<exists>F. turn_at C st s0 ?X m F t \<and> published_calls calls F"
    if "turn_at C st s0 X m F' t" "published_calls calls F'" for F' t
    using that new(2) by (auto simp: turn_at_def)
  have exec: "wp (execute_call E tool ?ctx call p admission) ?Q ?S t"
    if "turn_at C st s0 X m F' t" "ready st calls F' tool call p" "allowed st F' admission p" for F' p admission t
    unfolding execute_call_def
    by (rule emit [OF that(1)], rule wp_seq [OF wp_await_tool_execution [OF env _ that(2,3) new]])
      (use that(2) in \<open>auto simp: ready_def\<close>)
  have decided: "wp (if denied then bindE (emit E ev) (\<lambda>_. ret co) else execute_call E tool ?ctx call p admission) ?Q ?S t"
    if ex: "\<exists>F'. turn_at C st s0 X m F' t \<and> ready st calls F' tool call p \<and> (\<not> denied \<longrightarrow> allowed st F' admission p)"
    for denied admission p t ev co
  proof -
    obtain F' where F': "turn_at C st s0 X m F' t" "ready st calls F' tool call p"
      "\<not> denied \<longrightarrow> allowed st F' admission p" using ex by blast
    have "wp (bindE (emit E ev) (\<lambda>_. ret co)) ?Q ?S t"
      using F'(2) by (intro emit [OF F'(1)]) (auto simp: ready_def intro: fin)
    with exec [OF F'(1,2)] F'(3) show ?thesis by simp
  qed
  have prepared: "wp (bindE (lift_fail v) (\<lambda>_. bindE (authorize_call C E st n k call p) (\<lambda>(denied, admission).
      if denied then bindE (emit E ev) (\<lambda>_. ret co) else execute_call E tool ?ctx call p admission))) ?Q ?S t"
    if t: "turn_at C st s0 X m (insert (Prepared tool ?ctx call p) F) t" for p t ev co and v :: "(turn_failure, unit) result"
  proof (rule wp_fail_seq [OF t], rule wp_seq [OF wp_authorize_call [OF env t]])
    show "ready st calls (insert (Prepared tool ?ctx call p) F) tool call p"
      using pub by (simp add: ready_def published_calls_insert)
    fix r t
    assume "(case r of (denied, admission) \<Rightarrow> \<lambda>t. \<exists>F'. turn_at C st s0 X m F' t \<and> ready st calls F' tool call p
      \<and> (\<not> denied \<longrightarrow> allowed st F' admission p)) t"
    then show "wp (case r of (denied, admission) \<Rightarrow> if denied then bindE (emit E ev) (\<lambda>_. ret co)
        else execute_call E tool ?ctx call p admission) ?Q ?S t"
      by (cases r) (simp only: prod.case, rule decided)
  qed
  show ?thesis
    unfolding run_call_def Let_def
  proof (rule wp_seq [OF wp_host_prepare [OF at]], rule wp_calm_seq [OF cc], assumption)
    fix r :: "(tool_error, prepared_tool_call) result" and t :: "'a sys"
    assume "turn_at C st s0 X m (case r of Inl _ \<Rightarrow> F | Inr p \<Rightarrow> insert (Prepared tool ?ctx call p) F) t"
    then show "wp (case r of Inl e \<Rightarrow> ret (refused_outcome (tool_error_output e))
      | Inr p \<Rightarrow> bindE (lift_fail (validate_prepared_tool_call (ec_serializer C) p (ec_limits C) input)) (\<lambda>_.
          bindE (authorize_call C E st n k call p) (\<lambda>(denied, admission).
            if denied then bindE (emit E (ToolDenied (tc_id call) (tc_name call)))
              (\<lambda>_. ret (refused_outcome permission_denied_output))
            else execute_call E tool ?ctx call p admission))) ?Q ?S t"
      using prepared pub by (cases r) (auto simp del: wp_bindE intro: fin)
  qed
qed

section \<open>Settling a call, and the loops\<close>

text \<open>
  What a completed turn has made durable: a record that ends with the answer, or one with a call
  and the place of its result.
\<close>

definition durable :: "effect list \<Rightarrow> bool" where
  "durable log \<longleftrightarrow> (\<exists>i name. published log i name)
     \<or> (\<exists>c v answer. Saved c v \<in> set log
          \<and> last (sr_messages c) = \<lparr>m_role = Assistant, m_content = assistant_message_content answer []\<rparr>)"

definition turn_done :: "engine_config \<Rightarrow> turn_start \<Rightarrow> 'w sys \<Rightarrow> 'w sys \<Rightarrow> bool" where
  "turn_done C st s0 s \<longleftrightarrow> turn_safe C st s0 s \<and> durable (since s0 s)"

definition same_round :: "turn_vars \<Rightarrow> turn_vars \<Rightarrow> bool" where
  "same_round tv tv' \<longleftrightarrow> tv_record tv' = tv_record tv \<and> tv_tools tv' = tv_tools tv
     \<and> tv_seen_call_ids tv' = tv_seen_call_ids tv \<and> tv_tool_calls tv' = tv_tool_calls tv
     \<and> tv_model_rounds tv' = tv_model_rounds tv"

lemma check_outcome_Inr:
  assumes "check_outcome C ol tv n co = Inr (tv', ins)"
  shows "same_round tv tv'"
    "ins \<Longrightarrow> \<exists>reg. co_registration co = Some reg \<and> validate_registration C (tv_tools tv) reg = Inr True"
  using assms by (auto simp: check_outcome_def same_round_def Let_def split: option.splits if_splits)

lemma round_at_turn_at:
  assumes "round_at C st s0 X calls plan i tv s"
  obtains F where "turn_at C st s0 (X \<union> tc_id ` set (take i calls)) (tv_model_rounds tv) F s" "published_calls calls F"
  using assms unfolding round_at_def by blast

lemma round_at_safe: "round_at C st s0 X calls plan i tv s \<Longrightarrow> turn_safe C st s0 s"
  by (erule round_at_turn_at) (rule turn_at_safe)

lemma turn_done_gate [simp]: "turn_done C st s0 (s\<lparr>ss_terminal := b\<rparr>) = turn_done C st s0 s"
  by (simp add: turn_done_def)

lemma round_at_durable:
  assumes "round_at C st s0 X calls plan i tv s" "call \<in> set calls"
  shows "turn_done C st s0 s"
proof -
  obtain F where F: "turn_at C st s0 (X \<union> tc_id ` set (take i calls)) (tv_model_rounds tv) F s" "published_calls calls F"
    using assms(1) by (rule round_at_turn_at)
  then show ?thesis
    using published_in [OF F assms(2)] by (auto simp: turn_done_def durable_def turn_at_safe)
qed

lemma round_at_move:
  assumes "round_at C st s0 X calls plan i tv s"
    and "\<And>F. turn_at C st s0 (X \<union> tc_id ` set (take i calls)) (tv_model_rounds tv) F s \<Longrightarrow>
      turn_at C st s0 (X \<union> tc_id ` set (take i calls)) (tv_model_rounds tv) F t"
  shows "round_at C st s0 X calls plan i tv t"
proof -
  obtain F where F: "turn_at C st s0 (X \<union> tc_id ` set (take i calls)) (tv_model_rounds tv) F s" "published_calls calls F"
    using assms(1) by (rule round_at_turn_at)
  then have "\<exists>F. turn_at C st s0 (X \<union> tc_id ` set (take i calls)) (tv_model_rounds tv) F t \<and> published_calls calls F"
    using assms(2) by iprover
  then show ?thesis using assms(1) unfolding round_at_def by blast
qed

lemma round_at_calm_seq:
  assumes k: "keeps (calm_step (justified C st) (length (ss_log s0))) op" and r: "round_at C st s0 X calls plan i tv s"
    and f: "\<And>a t. round_at C st s0 X calls plan i tv t \<Longrightarrow> wp (f a) Q (\<lambda>_. turn_safe C st s0) t"
  shows "wp (bindE op f) Q (\<lambda>_. turn_safe C st s0) s"
proof (rule wp_seq [OF keeps_wpI [OF k]])
  show "wp (f a) Q (\<lambda>_. turn_safe C st s0) t" if "calm_step (justified C st) (length (ss_log s0)) s t" for a t
    by (rule f, rule round_at_move [OF r], rule turn_at_calm [OF _ that])
  show "turn_safe C st s0 t" if "calm_step (justified C st) (length (ss_log s0)) s t" for e :: 'c and t
    by (rule round_at_safe, rule round_at_move [OF r], rule turn_at_calm [OF _ that])
qed

lemma round_at_same:
  "same_round tv tv' \<Longrightarrow> round_at C st s0 X calls plan i tv' s = round_at C st s0 X calls plan i tv s"
  by (simp add: round_at_def same_round_def)

lemma wp_replace_or_establish:
  assumes env: "env_rely E" and r: "round_at C st s0 X calls plan i tv s" and j: "j < length calls"
  shows "wp (replace_or_establish C E (tv_record tv) (rp_placeholder_start plan + j)
      (tool_result_message (tc_id (calls ! j)) out) deferred)
    (\<lambda>rec. round_at C st s0 X calls plan i (tv\<lparr>tv_record := rec\<rparr>)) (\<lambda>_. turn_safe C st s0) s"
proof -
  let ?k = "rp_placeholder_start plan + j" and ?msg = "tool_result_message (tc_id (calls ! j)) out"
  obtain F where at: "turn_at C st s0 (X \<union> tc_id ` set (take i calls)) (tv_model_rounds tv) F s"
    and pub: "published_calls calls F" using r by (rule round_at_turn_at)
  obtain out' where old: "sr_messages (tv_record tv) ! ?k = tool_result_message (tc_id (calls ! j)) out'"
    and len: "?k < length (sr_messages (tv_record tv))" "length (sr_messages (st_record st)) \<le> ?k"
    and base: "record_at st (tv_record tv)"
    using r j unfolding round_at_def by fastforce
  have "history_ok st ((sr_messages (tv_record tv))[?k := ?msg])"
    using base len old by (intro history_ok_update) (auto simp: record_at_def)
  note replace = wp_replace_at [OF env at base this]
  have next_round: "round_at C st s0 X calls plan i (tv\<lparr>tv_record := rec\<rparr>) t"
    if "record_at st rec" "sr_messages rec = (sr_messages (tv_record tv))[?k := ?msg]"
      "turn_at C st s0 (X \<union> tc_id ` set (take i calls)) (tv_model_rounds tv) F t" for rec t
  proof -
    have "\<exists>out. sr_messages rec ! (rp_placeholder_start plan + l) = tool_result_message (tc_id (calls ! l)) out"
      if "l < length calls" for l
      using that r len(1) \<open>sr_messages rec = _\<close> unfolding round_at_def by (cases "l = j") auto
    then show ?thesis using r that pub unfolding round_at_def by auto
  qed
  show ?thesis
    unfolding replace_or_establish_def wp_catchE
    by (rule wp_mono [OF replace])
      (simp_all add: next_round turn_at_safe split: stop.split)
qed

lemma wp_lift_outcome_seq:
  assumes "turn_safe C st s0 s" and "\<And>a. r = Inr a \<Longrightarrow> wp (k a) Q (\<lambda>_. turn_safe C st s0) s"
  shows "wp (bindE (lift_outcome r) k) Q (\<lambda>_. turn_safe C st s0) s"
  using assms by (cases r) (simp_all add: lift_outcome_def raise_outcome_def)

lemma round_at_tools:
  "round_at C st s0 X calls plan i tv s \<Longrightarrow> catalog_invar C cat \<Longrightarrow>
   round_at C st s0 X calls plan i (tv\<lparr>tv_tools := cat\<rparr>) s"
  by (auto simp: round_at_def)

lemma round_at_catalog: "round_at C st s0 X calls plan i tv s \<Longrightarrow> catalog_invar C (tv_tools tv)"
  by (simp add: round_at_def)

lemma wp_settle_call:
  assumes env: "env_rely E" and r: "round_at C st s0 X calls plan i tv s" and j: "j < length calls"
  shows "wp (settle_call C E plan j tool (calls ! j) co tv)
    (\<lambda>tv' t. round_at C st s0 X calls plan i tv' t
       \<and> tv_model_rounds tv' = tv_model_rounds tv \<and> tv_tool_calls tv' = tv_tool_calls tv)
    (\<lambda>_. turn_safe C st s0) s"
proof -
  note W = workflow_env_calm [OF env, of C st "length (ss_log s0)"]
  let ?tools = "\<lambda>tv1 ins. if ins then case co_registration co of
      Some reg \<Rightarrow> catalog_insert (tv_tools tv1) reg | None \<Rightarrow> tv_tools tv1 else tv_tools tv1"
  let ?Q = "\<lambda>tv' t. round_at C st s0 X calls plan i tv' t
       \<and> tv_model_rounds tv' = tv_model_rounds tv \<and> tv_tool_calls tv' = tv_tool_calls tv"
  have rest: "wp (bindE (replace_or_establish C E (tv_record tv1) k (tool_result_message (tc_id (calls ! j)) out) d)
      (\<lambda>rec. bindE (if b then emit E ev else ret ()) (\<lambda>_. ret (tv1\<lparr>tv_record := rec, tv_tools := ?tools tv1 ins\<rparr>))))
      ?Q (\<lambda>_. turn_safe C st s0) t"
    if r: "round_at C st s0 X calls plan i tv t" and ok: "check_outcome C ol tv n co = Inr (tv1, ins)"
      and k: "k = rp_placeholder_start plan + j"
    for ol n tv1 ins k out d b ev t
  proof -
    have tv1: "same_round tv tv1" by (rule check_outcome_Inr(1) [OF ok])
    have r1: "round_at C st s0 X calls plan i tv1 t" using r by (simp add: round_at_same [OF tv1])
    have tools: "catalog_invar C (?tools tv1 ins)"
      using check_outcome_Inr(2) [OF ok] round_at_catalog [OF r] catalog_invar_insert tv1
      by (fastforce simp: same_round_def)
    have same: "tv_model_rounds tv1 = tv_model_rounds tv" "tv_tool_calls tv1 = tv_tool_calls tv"
      using tv1 by (simp_all add: same_round_def)
    show ?thesis
      unfolding k
      by (rule wp_seq [OF wp_replace_or_establish [OF env r1 j]],
          rule round_at_calm_seq [OF calm.keeps_if [OF workflow_env.keeps_emit [OF W] calm.keeps_ret]], assumption)
        (auto simp: same dest: round_at_tools [OF _ tools])
  qed
  have index: "usize_checked_add a b = Some k \<Longrightarrow> k = a + b" for a b k
    by (simp add: usize_checked_add_def split: if_splits)
  show ?thesis
    unfolding settle_call_def Let_def
    apply (rule round_at_calm_seq [OF calm.keeps_get r], rule wp_lift_outcome_seq, erule round_at_safe)
    subgoal for ol t x
      by (cases x, simp only: prod.case, rule wp_seq_fail, erule round_at_safe, rule rest)
        (auto dest: index simp: ok_or_def split: option.splits)
    done
qed

lemma wp_call_step:
  assumes env: "env_rely E" and r: "round_at C st s0 X calls plan i tv s" and i: "i < length calls"
  shows "wp (call_step C E st plan i (calls ! i) input tv)
    (\<lambda>r t. case r of
       Inl tv' \<Rightarrow> round_at C st s0 X calls plan (Suc i) tv' t \<and> tv_model_rounds tv' = tv_model_rounds tv
     | Inr _ \<Rightarrow> turn_done C st s0 t)
    (\<lambda>_. turn_safe C st s0) s"
proof -
  note W = workflow_env_calm [OF env, of C st "length (ss_log s0)"]
  note cc = turn_env.keeps_check_cancelled [OF workflow_env.axioms(1) [OF W]]
  let ?Q = "\<lambda>r t. case r of
       Inl tv' \<Rightarrow> round_at C st s0 X calls plan (Suc i) tv' t \<and> tv_model_rounds tv' = tv_model_rounds tv
     | Inr _ \<Rightarrow> turn_done C st s0 t"
  have split: "X \<union> tc_id ` set (take (Suc i) calls) = insert (tc_id (calls ! i)) (X \<union> tc_id ` set (take i calls))"
    using i by (simp add: take_Suc_conv_app_nth)
  have run: "wp (run_call C E st n i tool (calls ! i) input)
      (\<lambda>_. round_at C st s0 X calls plan (Suc i) tv) (\<lambda>_. turn_safe C st s0) t"
    if r: "round_at C st s0 X calls plan i tv t" for n tool t
  proof -
    obtain F where at: "turn_at C st s0 (X \<union> tc_id ` set (take i calls)) (tv_model_rounds tv) F t"
      and pub: "published_calls calls F" using r by (rule round_at_turn_at)
    have seen: "tv_seen_call_ids tv = X \<union> tc_id ` set calls" "card (tv_seen_call_ids tv) \<le> max_tool_calls_per_turn (ec_limits C)"
      and fresh: "tc_id (calls ! i) \<notin> X" "distinct (map tc_id calls)"
      using r i unfolding round_at_def by auto
    have "tc_id (calls ! i) \<notin> tc_id ` set (take i calls)"
      using fresh(2) i by (auto simp: in_set_conv_nth distinct_conv_nth)
    moreover have "finite X" using at by (auto simp: turn_at_def)
    then have "card (X \<union> tc_id ` set (take (Suc i) calls)) \<le> card (X \<union> tc_id ` set calls)"
      using set_take_subset [of "Suc i" calls] by (intro card_mono) auto
    ultimately show ?thesis
      using seen fresh i
      by (intro wp_mono [OF wp_run_call [OF env at pub, of "calls ! i"]])
        (use r in \<open>auto simp: round_at_def split\<close>)
  qed
  have settle: "wp (releasing d (settle_call C E plan i tool (calls ! i) co tv))
      (\<lambda>tv' t. round_at C st s0 X calls plan (Suc i) tv' t \<and> tv_model_rounds tv' = tv_model_rounds tv)
      (\<lambda>_. turn_safe C st s0) t"
    if "round_at C st s0 X calls plan (Suc i) tv t" for d tool co t
    unfolding wp_releasing
    by (rule wp_mono [OF wp_settle_call [OF env that i]]) (auto intro: round_at_move)
  have finish: "wp (if b then bindE (check_cancelled E) (\<lambda>_. bindE establish_terminal (\<lambda>_. ret (Inr c)))
      else ret (Inl tv')) ?Q (\<lambda>_. turn_safe C st s0) t"
    if "round_at C st s0 X calls plan (Suc i) tv' t \<and> tv_model_rounds tv' = tv_model_rounds tv" for b c tv' t
    using that
    by (auto simp del: wp_bindE intro!: round_at_calm_seq [OF cc])
      (use i in \<open>auto intro: round_at_durable [OF _ nth_mem]\<close>)
  show ?thesis
    unfolding call_step_def
    by (rule round_at_calm_seq [OF cc r], rule wp_seq_fail, erule round_at_safe)
      (rule wp_seq [OF run], assumption, rule wp_seq [OF settle], assumption, erule finish)
qed

lemma wp_calls_loop:
  assumes env: "env_rely E" and "round_at C st s0 X calls plan i tv s"
    and "entries = drop i (zip calls inputs)" and len: "length inputs = length calls"
  shows "wp (calls_loop C E st plan i entries tv)
    (\<lambda>r t. case r of
       Inl tv' \<Rightarrow> round_at C st s0 X calls plan (length calls) tv' t \<and> tv_model_rounds tv' = tv_model_rounds tv
     | Inr _ \<Rightarrow> turn_done C st s0 t)
    (\<lambda>_. turn_safe C st s0) s"
  using assms(2,3)
proof (induction entries arbitrary: i tv s)
  case Nil
  then have "length calls \<le> i" using len by simp
  then show ?case using Nil(1) by (auto simp: round_at_def)
next
  case (Cons e entries)
  have i: "i < length calls" using Cons.prems(2) len by (cases "i < length calls") simp_all
  then have e: "e = (calls ! i, inputs ! i)" "entries = drop (Suc i) (zip calls inputs)"
    using Cons.prems(2) len by (simp_all add: Cons_nth_drop_Suc [symmetric])
  show ?case
    unfolding e(1) calls_loop.simps
    by (rule wp_seq [OF wp_call_step [OF env Cons.prems(1) i]])
      (auto split: sum.splits intro: wp_mono [OF Cons.IH [OF _ e(2)]])
qed

lemma round_at_done:
  assumes "round_at C st s0 X calls plan (length calls) tv s"
  shows "turn_inv C st s0 (tv\<lparr>tv_tool_calls := rp_total plan\<rparr>) s"
proof -
  obtain F where "turn_at C st s0 (X \<union> tc_id ` set calls) (tv_model_rounds tv) F s"
    using assms by (auto elim: round_at_turn_at)
  then have "turn_at C st s0 (X \<union> tc_id ` set calls) (tv_model_rounds tv) {} s"
    by (auto simp: turn_at_def)
  then show ?thesis using assms by (auto simp: turn_inv_def round_at_def)
qed

lemma turn_inv_safe: "turn_inv C st s0 tv s \<Longrightarrow> turn_safe C st s0 s"
  by (auto simp: turn_inv_def intro: turn_at_safe)

lemma wp_tool_round:
  assumes env: "env_rely E" and inv: "turn_inv C st s0 tv s"
    and ok: "length (rv_input_limits rv) = length (rv_calls rv)" "rv_calls rv \<noteq> []"
      "\<forall>call \<in> set (rv_calls rv). tc_id call \<notin> tv_seen_call_ids tv" "distinct (map tc_id (rv_calls rv))"
  shows "wp (tool_round C E st reason tv rv)
    (\<lambda>r t. case r of Inl tv' \<Rightarrow> turn_inv C st s0 tv' t | Inr _ \<Rightarrow> turn_done C st s0 t) (\<lambda>_. turn_safe C st s0) s"
  unfolding tool_round_def
  by (rule wp_seq [OF wp_publish_round [OF env inv ok]])
    (auto simp del: wp_bindE simp: ok(1) intro!: wp_seq [OF wp_calls_loop [OF env]]
      dest!: round_at_done split: sum.splits)

lemma turn_at_answered:
  assumes "turn_at C st s0 X m (insert (Saved c v) F) s"
    and "sr_messages c = ms @ [\<lparr>m_role = Assistant, m_content = assistant_message_content answer []\<rparr>]"
  shows "turn_done C st s0 s"
  using turn_at_in [OF assms(1), of "Saved c v"] turn_at_safe [OF assms(1)] assms(2)
  by (auto simp: turn_done_def durable_def intro!: exI [of _ c] exI [of _ v] exI [of _ answer])

lemma wp_finish_without_calls:
  assumes env: "env_rely E" and inv: "turn_inv C st s0 tv s"
  shows "wp (finish_without_calls C E tv rv reason) (\<lambda>_. turn_done C st s0) (\<lambda>_. turn_safe C st s0) s"
proof -
  note W = workflow_env_calm [OF env, of C st "length (ss_log s0)"]
  have at: "turn_at C st s0 (tv_seen_call_ids tv) (tv_model_rounds tv) {} s" "record_at st (tv_record tv)"
    using inv by (auto simp: turn_inv_def)
  have wp_terminal: "wp establish_terminal (\<lambda>_. turn_at C st s0 X m F) (\<lambda>_. turn_safe C st s0) t"
    if "turn_at C st s0 X m F t" for X m F t using that by simp
  note commit = wp_commit_at [OF env at closed_answer]
  show ?thesis
    unfolding finish_without_calls_def commit_message_def
    by (rule wp_seq [OF commit])
      (auto simp del: wp_bindE intro!: wp_seq [OF wp_terminal] wp_calm_seq [OF workflow_env.keeps_emit [OF W]]
        elim: turn_at_answered)
qed

section \<open>The whole turn\<close>

lemma turn_inv_usage: "turn_inv C st s0 (tv\<lparr>tv_usage := u\<rparr>) s = turn_inv C st s0 tv s"
  by (simp add: turn_inv_def)

lemma turn_inv_round_ok: "turn_inv C st s0 tv s \<Longrightarrow> round_ok tv (tv', rv) \<Longrightarrow> turn_inv C st s0 tv' s"
  by (simp add: turn_inv_def round_ok_def Let_def)

lemma wp_close_round:
  assumes env: "env_rely E" and inv: "turn_inv C st s0 tv s" and ok: "round_ok tv (tv, rv)"
  shows "wp (close_round C E st reason tv rv)
    (\<lambda>r t. case r of Inl tv' \<Rightarrow> turn_inv C st s0 tv' t | Inr _ \<Rightarrow> turn_done C st s0 t) (\<lambda>_. turn_safe C st s0) s"
proof -
  have inv': "turn_inv C st s0 (tv\<lparr>tv_usage := u\<rparr>) s" for u using inv by (simp add: turn_inv_usage)
  have calls: "wp (tool_round C E st reason (tv\<lparr>tv_usage := u\<rparr>) rv)
      (\<lambda>r t. case r of Inl tv' \<Rightarrow> turn_inv C st s0 tv' t | Inr _ \<Rightarrow> turn_done C st s0 t) (\<lambda>_. turn_safe C st s0) s"
    if "rv_calls rv \<noteq> []" for u
    using ok that by (intro wp_tool_round [OF env inv']) (simp_all add: round_ok_def Let_def)
  show ?thesis
    unfolding close_round_def Let_def
    by (rule wp_seq_fail, rule turn_inv_safe [OF inv], rule wp_seq_fail, rule turn_inv_safe [OF inv])
      (auto simp del: wp_bindE simp: calls intro: wp_seq [OF wp_finish_without_calls [OF env inv']])
qed

lemma wp_run_round:
  assumes env: "env_rely E" and st: "start_ok st" and inv: "turn_inv C st s0 tv s"
  shows "wp (run_round C E st tv)
    (\<lambda>r t. case r of Inl tv' \<Rightarrow> turn_inv C st s0 tv' t | Inr _ \<Rightarrow> turn_done C st s0 t) (\<lambda>_. turn_safe C st s0) s"
proof -
  note W = workflow_env_calm [OF env, of C st "length (ss_log s0)"]
  have at: "turn_at C st s0 (tv_seen_call_ids tv) (tv_model_rounds tv) {} s" "record_at st (tv_record tv)"
    using inv by (auto simp: turn_inv_def)
  note opened = wp_open_round [OF env st at(2,1)]
  have events: "wp (model_events_loop C E tv')
      (\<lambda>(reason, tv'', rv) t. turn_inv C st s0 tv'' t \<and> round_ok tv'' (tv'', rv)) (\<lambda>_. turn_safe C st s0) t"
    if tv': "tv' = tv\<lparr>tv_model_rounds := Suc (tv_model_rounds tv)\<rparr>"
      and t: "turn_at C st s0 (tv_seen_call_ids tv) (Suc (tv_model_rounds tv)) {} t" for tv' t
  proof -
    have inv': "turn_inv C st s0 tv' u"
      if "turn_at C st s0 (tv_seen_call_ids tv) (Suc (tv_model_rounds tv)) {} u" for u
      using inv that by (simp add: turn_inv_def tv')
    have "round_ok tv'' (tv'', rv)" if "round_ok tv' (tv'', rv)" for tv'' rv
      using that by (simp add: round_ok_def Let_def)
    then show ?thesis
      by (intro wp_mono [OF wp_conj [THEN iffD2, OF conjI,
              OF wp_calm_safe [OF workflow_env.keeps_model_events_loop [OF W] t] model_events_loop_round]])
        (auto intro: turn_inv_round_ok inv')
  qed
  show ?thesis
    unfolding run_round_def
    by (rule wp_seq [OF opened])
      (auto simp del: wp_bindE intro!: wp_seq [OF events] wp_close_round [OF env])
qed

lemma wp_run_turn_inner:
  assumes env: "env_rely E" and st: "start_ok st" and wf: "arc_wf s0"
  shows "wp (run_turn_inner C E st) (\<lambda>_. turn_done C st s0) (\<lambda>_. turn_safe C st s0) s0"
proof -
  note W = workflow_env_calm [OF env, of C st "length (ss_log s0)"]
  have inv: "turn_inv C st s0 (turn_vars_init (st_record st)) t" if "turn_at C st s0 {} 0 {} t" for t
    using that record_at_start [OF st] by (simp add: turn_inv_def turn_vars_init_def catalog_invar_default)
  show ?thesis
    unfolding run_turn_inner_def
    by (rule wp_calm_seq [OF workflow_env.keeps_emit [OF W] turn_at_start [OF wf]],
        rule wp_iterate [where I = "turn_inv C st s0"], rule wp_run_round [OF env st], assumption)
      (auto intro: turn_inv_safe inv)
qed

lemma run_turn_state: "snd (run_turn C E st s) = snd (run_turn_inner C E st s)"
  by (auto simp: run_turn_def split: prod.splits sum.splits stop.splits workflow_abort.splits)

lemma run_turn_safe:
  assumes "env_rely E" "start_ok st" "arc_wf s"
  shows "turn_safe C st s (snd (run_turn C E st s))"
  using wp_run_turn_inner [OF assms, of C]
  by (auto simp: run_turn_state wp_def turn_done_def split: prod.splits sum.splits)

lemma run_turn_durable:
  assumes "env_rely E" "start_ok st" "arc_wf s" "run_turn C E st s = (Some (ExitCompleted reason usage), t)"
  shows "durable (since s t)"
  using wp_run_turn_inner [OF assms(1-3), of C] assms(4)
  by (auto simp: run_turn_def wp_def turn_done_def split: prod.splits sum.splits stop.splits workflow_abort.splits)

definition turn_log :: "engine_config \<Rightarrow> ('w, 'z) turn_host_scheme \<Rightarrow> turn_start \<Rightarrow> 'w sys \<Rightarrow> effect list" where
  "turn_log C E st s = since s (snd (run_turn C E st s))"

lemma turn_log_extends:
  assumes "env_rely E" "start_ok st" "arc_wf s"
  shows "ss_log (snd (run_turn C E st s)) = ss_log s @ turn_log C E st s"
proof -
  have "turn_step (\<lambda>_. True) s (snd (run_turn C E st s))"
    using run_turn_safe [OF assms] by (simp add: turn_safe_def guard_step_def)
  then show ?thesis using turn_step_new [OF _ assms(3)] by (fastforce simp: turn_log_def)
qed

lemma turn_log_justified:
  assumes "env_rely E" "start_ok st" "arc_wf s" and "i < length (turn_log C E st s)"
  shows "justified C st (take i (turn_log C E st s)) (turn_log C E st s ! i)"
  using run_turn_safe [OF assms(1-3), of C] assms(3,4)
  by (simp add: turn_safe_def guard_step_def turn_log_def safe_def)

lemma exec_ids_single: "exec_ids [e] = (case exec_id e of None \<Rightarrow> [] | Some i \<Rightarrow> [i])"
  by (simp add: exec_ids_def map_filter_simps split: option.split)

lemma safe_exec_ids_distinct:
  assumes "safe (justified C st) log"
  shows "distinct (exec_ids log)"
  using assms
proof (induction log rule: rev_induct)
  case (snoc e log)
  then have "distinct (exec_ids log)" "justified C st log e" by simp_all
  then show ?case
    by (cases e rule: exec_id.cases) (auto simp: exec_ids_single justified_def)
qed (simp add: exec_ids_def map_filter_simps)

end
