(* ===== verification/Turn_Outcome.thy ===== *)
theory Turn_Outcome
  imports Turn_Safety
begin

text \<open>
  How a turn ends. Deferred cancellation is released on every exit; a turn that is cancelled before
  it starts stops without calling anything but the event consumer.
\<close>

section \<open>Everything the workflow does, at once\<close>

locale free_env = workflow_env R E P
  for R :: "'w sys \<Rightarrow> 'w sys \<Rightarrow> bool" and E :: "('w, 'z) turn_host_scheme" and P +
  assumes free: "P e"
begin

lemma keeps_save_answer: "keeps R (save_answer C E F base honor c res)"
proof -
  have "keeps R (publish_candidate E c')" for c'
    unfolding publish_candidate_def by (intro keeps_turn_rules keeps_map_op_err)
  then show ?thesis
    unfolding save_answer_def by (intro keeps_turn_rules keeps_raise_fail keeps_resolve_conflict free)
qed

lemma keeps_commit_messages: "keeps R (commit_messages C E base ms mode)"
  unfolding commit_messages_def commit_attempt_def Let_def
  by (intro keeps_turn_rules keeps_raise_fail keeps_lift_fail keeps_check_turn_record keeps_commit_save
      keeps_save_answer free)

lemma keeps_replace_message: "keeps R (replace_message C E base k m honor)"
  unfolding replace_message_def replace_attempt_def replace_save_def Let_def
  by (intro keeps_turn_rules keeps_raise_fail keeps_lift_fail keeps_check_turn_record keeps_record_effect
      keeps_save_answer free)

lemma keeps_open_round: "keeps R (open_round C E st tv)"
  unfolding open_round_def Let_def
  by (intro keeps_turn_rules keeps_lift_fail keeps_check_turn_record keeps_record_effect free)

lemma keeps_finish_without_calls: "keeps R (finish_without_calls C E tv rv reason)"
  unfolding finish_without_calls_def commit_message_def
  by (intro keeps_turn_rules keeps_commit_messages keeps_gate keeps_emit)

lemma keeps_publish_round: "keeps R (publish_round C E st tv rv reason)"
  unfolding publish_round_def Let_def
  by (intro keeps_turn_rules keeps_lift_fail keeps_commit_messages keeps_emit keeps_map_op keeps_persist_call free)

lemma keeps_replace_or_establish: "keeps R (replace_or_establish C E base k m d)"
proof -
  have "keeps R (case e of Error _ \<Rightarrow> bindE (if d then establish_terminal else ret ()) (\<lambda>_. fail e)
      | Dropped \<Rightarrow> fail Dropped)" for e :: "workflow_abort stop"
    by (cases e; simp only: stop.case; intro keeps_rules keeps_gate)
  then show ?thesis
    unfolding replace_or_establish_def by (intro keeps_rules keeps_replace_message)
qed

lemma keeps_settle_call: "keeps R (settle_call C E plan i tool call co tv)"
proof -
  have "keeps R (lift_outcome r)" for r :: "(bool \<times> turn_failure, 'a) result"
    unfolding lift_outcome_def raise_outcome_def by (intro keeps_rules keeps_gate keeps_raise_fail)
  then show ?thesis
    unfolding settle_call_def Let_def
    by (intro keeps_turn_rules keeps_lift_fail keeps_replace_or_establish keeps_emit)
qed

lemma keeps_authorize_call: "keeps R (authorize_call C E st n i call p)"
  unfolding authorize_call_def Let_def
  by (cases "pt_authorization p"; simp only: prepared_tool_authorization.case;
      intro keeps_turn_rules keeps_lift_fail keeps_record_effect keeps_emit free)

lemma keeps_any_execution_poll: "keeps R (execution_poll E admission c f first)"
proof -
  have "keeps R (host_admit E adm)" for adm
  proof (rule keepsI)
    fix s :: "'w sys"
    have "R s (s\<lparr>ss_world := w, ss_log := ss_log s @ [Admitted adm]\<rparr>)" for w
      using trans [OF world [of s w] logged [OF free, of "s\<lparr>ss_world := w\<rparr>"]] by simp
    then show "R s (snd (host_admit E adm s))"
      using world by (auto simp: host_admit_def split: prod.splits sum.splits)
  qed
  then show ?thesis
    unfolding execution_poll_def
    by (intro keeps_turn_rules keeps_record_effect keeps_host_poll free)
qed

end

section \<open>Deferrals are balanced\<close>

definition up_step :: "nat \<Rightarrow> 'w sys \<Rightarrow> 'w sys \<Rightarrow> bool" where
  "up_step k s t \<longleftrightarrow> canon_step s t \<and> (arc_wf s \<longrightarrow> ss_deferrals t = ss_deferrals s + k)"

lemma up_step_trans: "up_step k s t \<Longrightarrow> up_step l t u \<Longrightarrow> up_step (k + l) s u"
  using canon_step_arc_wf [of s t] by (auto simp: up_step_def elim: canon_step_trans)

interpretation level: step_relation "up_step 0"
  by unfold_locales (simp add: up_step_def canon_step_refl, use up_step_trans [of 0 _ _ 0] in simp)

lemma free_env_level:
  assumes "env_rely E"
  shows "free_env (up_step 0) E (\<lambda>_. True)"
  using assms
  by unfold_locales (auto simp: env_rely_def rely_def up_step_def canon_step_frame canon_step_def arc_wf_def)

interpretation level_peer: free_env "up_step 0" "peer_host (E\<lparr>sh_yield := \<lambda>s. s\<rparr>) r" "\<lambda>_. True"
  for E :: "('w, 'z) turn_host_scheme" and r
  by (intro free_env_level env_rely_peer) (simp add: env_rely_def rel.refl)

lemma keeps_up:
  assumes "keeps (up_step 0) m" and "up_step k s0 s"
  shows "wp m (\<lambda>_. up_step k s0) (\<lambda>_. up_step k s0) s"
  by (rule wp_mono [OF keeps_wpI [OF assms(1)]]) (use up_step_trans [OF assms(2), where l = 0] in simp_all)

lemma wp_up_seq:
  assumes "keeps (up_step 0) m" and "up_step k s0 s"
    and "\<And>a t. up_step k s0 t \<Longrightarrow> wp (f a) Q X t" and "\<And>e t. up_step k s0 t \<Longrightarrow> X e t"
  shows "wp (bindE m f) Q X s"
  using keeps_up [OF assms(1,2)] by (rule wp_seq) (rule assms(3,4), assumption)+

lemma up_step_defer: "up_step 0 s t \<Longrightarrow> up_step (Suc 0) s (t\<lparr>ss_deferrals := Suc (ss_deferrals t)\<rparr>)"
  by (simp add: up_step_def canon_step_def arc_wf_def)

lemma up_step_reset:
  assumes "up_step 0 s t" "canon_step t u"
  shows "up_step 0 s (u\<lparr>ss_deferrals := ss_deferrals t\<rparr>)"
proof -
  have "canon_step s u" using assms by (auto simp: up_step_def elim: canon_step_trans)
  then show ?thesis using assms(1) by (simp add: up_step_def canon_step_def arc_wf_def)
qed

lemma up_step_canon: "up_step k s t \<Longrightarrow> canon_step s t"
  by (simp add: up_step_def)

lemma up_step_refl: "up_step 0 s s"
  by (simp add: up_step_def canon_step_refl)

lemma poll_fn_False: "poll_fn E n closure False = poll_fn E n (\<lambda>_. closure False) False"
proof (induction n)
  case (Suc n)
  show ?case unfolding poll_fn.simps Suc ..
qed simp

lemma wp_committed_poll_fn:
  assumes env: "env_rely E"
  shows "wp (poll_fn E n (committed_execution_poll E admission c f) True)
    (\<lambda>_. up_step 1 s) (\<lambda>_. canon_step s) s"
proof (cases n)
  case (Suc k)
  note F = free_env_level [OF env]
  note T = F [THEN free_env.axioms(1), THEN workflow_env.axioms(1)]
  note S = T [THEN turn_env.axioms(1)]
  note poll = free_env.keeps_any_execution_poll [OF F]
  have "keeps (up_step 0) (committed_execution_poll E admission c f False)"
    unfolding committed_execution_poll_def by (simp add: poll level.keeps_rules)
  then have rest: "keeps (up_step 0) (poll_fn E m (committed_execution_poll E admission c f) False)" for m
    unfolding poll_fn_False [of E m "committed_execution_poll E admission c f"] by (rule turn_env.keeps_poll_fn [OF T])
  have first: "wp (bindE (committed_execution_poll E admission c f True) (\<lambda>r.
      case r of Some a \<Rightarrow> ret a | None \<Rightarrow> poll_fn E k (committed_execution_poll E admission c f) False))
      (\<lambda>_. up_step 1 s) (\<lambda>_. canon_step s) t"
    if t: "up_step 0 s t" for t
  proof (rule wp_seq)
    have deferred: "wp (bindE (check_cancelled E) (\<lambda>_. defer_cancellation)) (\<lambda>_. up_step 1 s) (\<lambda>_. canon_step s) t"
      by (rule wp_up_seq [OF turn_env.keeps_check_cancelled [OF T] t]) (simp_all add: up_step_defer up_step_canon)
    show "wp (committed_execution_poll E admission c f True) (\<lambda>_. up_step 1 s) (\<lambda>_. canon_step s) t"
      unfolding committed_execution_poll_def if_True
      by (rule wp_seq [OF deferred]) (auto intro: wp_mono [OF keeps_up [OF poll]] up_step_canon)
    show "wp (case r of Some a \<Rightarrow> ret a | None \<Rightarrow> poll_fn E k (committed_execution_poll E admission c f) False)
        (\<lambda>_. up_step 1 s) (\<lambda>_. canon_step s) u" if "up_step 1 s u" for r u
      using that
      by (cases r) (auto intro: wp_mono [OF keeps_up [OF rest that]] up_step_canon)
  qed
  show ?thesis
    unfolding Suc poll_fn.simps
    by (rule wp_up_seq [OF session_env.keeps_interleave [OF S] up_step_refl first], assumption, erule up_step_canon)
qed (simp add: canon_step_refl)

lemma wp_await_tool_execution_level:
  assumes env: "env_rely E" and s: "up_step 0 s0 s"
  shows "wp (await_tool_execution E admission c f mode)
    (\<lambda>(r, d). up_step (if d then 1 else 0) s0) (\<lambda>_. up_step 0 s0) s"
proof -
  note F = free_env_level [OF env]
  note T = F [THEN free_env.axioms(1), THEN workflow_env.axioms(1)]
  have cancellable: "keeps (up_step 0) (await_poll_fn E (cancellable_execution_poll E admission c f))"
    by (rule turn_env.keeps_await_poll_fn [OF T], unfold cancellable_execution_poll_def,
        intro level.keeps_rules turn_env.keeps_check_cancelled [OF T] free_env.keeps_any_execution_poll [OF F])
  have committed: "wp (scoped_deferral (await_poll_fn E (committed_execution_poll E admission c f)))
      (\<lambda>_. up_step 1 s0) (\<lambda>_. up_step 0 s0) t" if t: "up_step 0 s0 t" for t
    unfolding wp_scoped_deferral await_poll_fn_def
    using up_step_trans [OF t, where l = 1]
    by (simp, intro wp_mono [OF wp_committed_poll_fn [OF env]]) (simp_all add: up_step_reset [OF t])
  show ?thesis
    unfolding await_tool_execution_def
    by (rule wp_up_seq [OF _ s], intro level.keeps_rules turn_env.keeps_record_effect [OF T] TrueI)
      (auto simp del: wp_bindE split: tool_execution_cancellation.split
        intro!: wp_up_seq [OF cancellable] wp_seq [OF committed])
qed

lemma wp_run_call_level:
  assumes env: "env_rely E" and s: "up_step 0 s0 s"
  shows "wp (run_call C E st n i tool call input)
    (\<lambda>co. up_step (if co_deferred co then 1 else 0) s0) (\<lambda>_. up_step 0 s0) s"
proof -
  note F = free_env_level [OF env]
  note W = F [THEN free_env.axioms(1)]
  note T = W [THEN workflow_env.axioms(1)]
  note cc = turn_env.keeps_check_cancelled [OF T]
  have exec: "wp (execute_call E tool ctx call p adm)
      (\<lambda>co. up_step (if co_deferred co then 1 else 0) s0) (\<lambda>_. up_step 0 s0) t" if "up_step 0 s0 t" for ctx p adm t
    unfolding execute_call_def
    by (rule wp_up_seq [OF workflow_env.keeps_emit [OF W] that], rule wp_seq [OF wp_await_tool_execution_level [OF env]])
      (auto simp: execution_outcome_def split: sum.splits)
  show ?thesis
    unfolding run_call_def Let_def
    by (rule wp_up_seq [OF workflow_env.keeps_host_prepare [OF W] s], simp, rule wp_up_seq [OF cc], assumption)
      (auto simp del: wp_bindE simp: refused_outcome_def split: sum.split
        intro!: wp_up_seq [OF turn_env.keeps_lift_fail [OF T]] wp_up_seq [OF free_env.keeps_authorize_call [OF F]]
          wp_up_seq [OF workflow_env.keeps_emit [OF W]] exec)
qed

lemma keeps_call_step_level:
  assumes env: "env_rely E"
  shows "keeps (up_step 0) (call_step C E st plan i call input tv)"
proof (rule session_env.keeps_arc_wfI [OF free_env_level [OF env, THEN free_env.axioms(1), THEN workflow_env.axioms(1),
      THEN turn_env.axioms(1)]])
  fix s :: "'a sys"
  assume "arc_wf s"
  note F = free_env_level [OF env]
  note W = F [THEN free_env.axioms(1)]
  note T = W [THEN workflow_env.axioms(1)]
  note cc = turn_env.keeps_check_cancelled [OF T]
  have settle: "wp (releasing (co_deferred co) (settle_call C E plan i tool call co tv))
      (\<lambda>_. up_step 0 s) (\<lambda>_. up_step 0 s) t" if "up_step (if co_deferred co then 1 else 0) s t" for co tool t
    unfolding wp_releasing
    by (rule wp_mono [OF keeps_up [OF free_env.keeps_settle_call [OF F] that]])
      (auto simp: up_step_def canon_step_def arc_wf_def)
  show "wp (call_step C E st plan i call input tv) (\<lambda>_. up_step 0 s) (\<lambda>_. up_step 0 s) s"
    unfolding call_step_def
    by (rule wp_up_seq [OF cc up_step_refl], rule wp_up_seq [OF turn_env.keeps_lift_fail [OF T]], assumption,
        rule wp_seq [OF wp_run_call_level [OF env]], assumption, rule wp_seq [OF settle], assumption)
      (auto simp del: wp_bindE intro!: wp_up_seq [OF cc] wp_up_seq [OF workflow_env.keeps_gate(1) [OF W]])
qed

lemma keeps_run_turn_inner_level:
  assumes env: "env_rely E"
  shows "keeps (up_step 0) (run_turn_inner C E st)"
proof -
  note F = free_env_level [OF env]
  note W = F [THEN free_env.axioms(1)]
  note T = W [THEN workflow_env.axioms(1)]
  have loop: "keeps (up_step 0) (calls_loop C E st plan i entries tv)" for plan i entries tv
  proof (induction entries arbitrary: i tv)
    case (Cons e entries)
    then show ?case
      by (cases e) (simp, intro level.keeps_rules keeps_call_step_level [OF env] Cons)
  qed (simp add: level.keeps_ret)
  have round: "keeps (up_step 0) (run_round C E st tv)" for tv
    unfolding run_round_def close_round_def tool_round_def Let_def
    by (intro level.keeps_rules free_env.keeps_open_round [OF F] workflow_env.keeps_model_events_loop [OF W]
        turn_env.keeps_lift_fail [OF T] free_env.keeps_finish_without_calls [OF F] free_env.keeps_publish_round [OF F] loop)
  show ?thesis
    unfolding run_turn_inner_def
    by (intro level.keeps_rules workflow_env.keeps_emit [OF W] workflow_env.keeps_iterate [OF W] round)
qed

section \<open>A turn that is cancelled before it starts\<close>

definition is_emit :: "effect \<Rightarrow> bool" where
  "is_emit e = (case e of Constructed (CallEmit _) \<Rightarrow> True | Polled (CallEmit _) \<Rightarrow> True | _ \<Rightarrow> False)"

lemma keeps_emit_only:
  assumes "env_rely E"
  shows "keeps (turn_step is_emit) (emit E ev)"
  unfolding emit_def
  by (intro tn.keeps_rules turn_env.keeps_record_effect [OF turn_env_turn_step [OF assms]]
      turn_env.keeps_await [OF turn_env_turn_step [OF assms]]) (simp_all add: is_emit_def)

lemma wp_host_poll:
  "wp (host_poll c f) Q X s =
   Q (fst (f (ss_world s))) (s\<lparr>ss_world := snd (f (ss_world s)), ss_log := ss_log s @ [Polled c]\<rparr>)"
  by (simp add: wp_def host_poll_def split: prod.splits)

lemma emit_dropped: "wp (emit E ev) (\<lambda>_ _. True) (\<lambda>e _. e = Dropped) s"
proof -
  have "wp (poll_fn E n (\<lambda>_. host_poll c f) first) (\<lambda>_ _. True) (\<lambda>e _. e = Dropped) t"
    for n c first and f :: "('a, unit) future" and t :: "'a sys"
    by (induction n arbitrary: first t) (auto simp: wp_host_poll split: option.split)
  then show ?thesis by (simp add: emit_def await_def await_poll_fn_def)
qed

lemma emit_taken:
  assumes "\<And>w. 0 < sh_polls E w" "\<And>w. fst (th_emit E ev w) = Some ()"
  shows "wp (emit E ev) (\<lambda>_ _. True) (\<lambda>_ _. False) s"
proof -
  have "wp (poll_fn E n (\<lambda>_. host_poll c (th_emit E ev)) first :: ('a, unit) workflow_op)
      (\<lambda>_ _. True) (\<lambda>_ _. False) t"
    if n: "0 < n" for n c first and t :: "'a sys"
    using n assms(2) by (cases n) (simp_all add: wp_host_poll)
  then show ?thesis using assms(1) by (simp add: emit_def await_def await_poll_fn_def)
qed

lemma wp_run_turn_inner_cancelled:
  assumes env: "env_rely E" and wf: "arc_wf s" and c: "ss_cancelled s"
    and emitted: "wp (emit E Started) (\<lambda>_ _. True) (\<lambda>e _. D e) s"
  shows "wp (run_turn_inner C E st) (\<lambda>_ _. False)
    (\<lambda>e t. turn_step is_emit s t \<and> (e = Error AbortCancelled \<or> D e)) s"
proof -
  have cancelled: "wp (run_round C E st tv) (\<lambda>_ _. False)
      (\<lambda>e u. turn_step is_emit s u \<and> e = Error AbortCancelled) t" if t: "turn_step is_emit s t" for tv t
  proof -
    have u: "turn_step is_emit s (sh_yield E t)"
      using t env by (auto intro: turn_step_trans turn_step_rely simp: env_rely_def)
    then have "ss_cancelled (sh_yield E t)" using c wf by (simp add: turn_step_def op_step_def)
    then show ?thesis using u by (simp add: run_round_def open_round_def Let_def)
  qed
  have "wp (emit E Started) (\<lambda>_. turn_step is_emit s) (\<lambda>e t. turn_step is_emit s t \<and> D e) s"
    by (rule wp_mono [OF wp_conj [THEN iffD2, OF conjI, OF keeps_wpI [OF keeps_emit_only [OF env]] emitted]])
      simp_all
  then show ?thesis
    unfolding run_turn_inner_def by (rule wp_seq) (auto intro!: wp_mono [OF cancelled])
qed

lemma emit_only_log:
  "list_all is_emit log \<Longrightarrow> streams log = 0 \<and> exec_ids log = []"
proof (induction log)
  case (Cons e log)
  then show ?case
    by (cases e rule: exec_id.cases) (auto simp: is_emit_def is_stream_def streams_def exec_ids_def map_filter_simps)
qed (simp add: streams_def exec_ids_def map_filter_simps)


lemma run_turn_error: "wp (run_turn_inner C E st) (\<lambda>_ _. False) X s \<Longrightarrow>
  \<exists>e. X e (snd (run_turn C E st s)) \<and> fst (run_turn C E st s) =
    (case e of Dropped \<Rightarrow> None | Error AbortCancelled \<Rightarrow> Some ExitCancelled | Error (AbortFailed f) \<Rightarrow> Some (ExitFailed f))"
  by (auto simp: run_turn_def wp_def split: prod.splits sum.splits stop.split workflow_abort.split)

end
