(* ===== verification/Demo_Turn.thy ===== *)
theory Demo_Turn
  imports Turn_Outcome "HOL-Library.Code_Target_Numeral"
begin

text \<open>
  A concrete turn, to which the theorems about turns are applied. A host with one tool. The provider calls it in the first round and answers in the second; the
  world counts the provider's items and the saves. Nothing interferes, and every future is ready on
  its first poll.
\<close>

definition demo_tool :: registered_tool where
  "demo_tool = \<lparr>rt_spec = \<lparr>ts_name = ToolName ''echo'', ts_description = ''d'', ts_input_schema = JNull\<rparr>, rt_tool = 7\<rparr>"

definition demo_call :: tool_call where
  "demo_call = \<lparr>tc_id = ToolCallId ''c1'', tc_name = ToolName ''echo'', tc_arguments = JNull\<rparr>"

definition demo_config :: engine_config where
  "demo_config = \<lparr>ec_serializer = sample_serializer, ec_limits = limits_default,
     ec_sha256 = (\<lambda>_. replicate 32 (CHR 0x00)),
     ec_tools = [(ToolName ''echo'', demo_tool)], ec_tool_specs = [rt_spec demo_tool]\<rparr>"

definition demo_script :: "model_event list" where
  "demo_script = [ModelToolCall demo_call, Stop StopToolCalls, TextDelta ''ok'', Stop StopCompleted]"

definition demo_host :: "(nat \<times> u64) turn_host" where
  "demo_host = \<lparr>sh_yield = (\<lambda>s. s), sh_polls = (\<lambda>_. 1), sh_host_open = (\<lambda>_. True),
     sh_load = (\<lambda>_ w. (Some (Inr None), w)),
     sh_save = (\<lambda>r _ (i, v). (Some (Inr (sr_revision r + 1)), i, v + 1)),
     th_stream = (\<lambda>_ w. (Some (Inr ()), w)),
     th_next_item = (\<lambda>(i, v). (Some (if i < length demo_script then Some (Inr (demo_script ! i)) else None), Suc i, v)),
     th_input_limits = (\<lambda>_ _. None), th_output_limits = (\<lambda>_ _. None),
     th_persist_arguments = (\<lambda>_ _ _ w. (Some (Inr None), w)),
     th_prepare = (\<lambda>_ _ call w. (Inr (prepared_new (CapTool (tc_name call) (tc_id call) JNull) (tc_arguments call)), w)),
     th_authorize = (\<lambda>_ _ _ _ w. (Some (Inr (authorization_new (Allow GrantOnce))), w)),
     th_admit = (\<lambda>_ w. (Inr (), w)),
     th_execute = (\<lambda>_ _ _ _ w. (Some (Inr (execution_output \<lparr>to_content = JBool True, to_is_error = False\<rparr>)), w)),
     th_emit = (\<lambda>_ w. (Some (), w))\<rparr>"

definition demo_start :: turn_start where
  "demo_start = \<lparr>st_turn_id = TurnId ''t1'', st_record = sample_record,
     st_options = \<lparr>io_model = None, io_max_output_tokens = None, io_temperature = None, io_metadata = []\<rparr>,
     st_context = None\<rparr>"

definition demo_state :: "(nat \<times> u64) sys" where
  "demo_state = \<lparr>ss_ptr = 0, ss_record = sample_record, ss_persisted = True, ss_lease = Mine,
     ss_reconcile = False, ss_cancelled = False, ss_deferrals = 0, ss_usage = usage_default,
     ss_terminal = False, ss_fresh = 1, ss_world = (0, 0), ss_log = []\<rparr>"

definition is_call :: "(host_call \<Rightarrow> bool) \<Rightarrow> effect \<Rightarrow> bool" where
  "is_call p e = (case e of Constructed c \<Rightarrow> p c | _ \<Rightarrow> False)"

fun is_save_call :: "host_call \<Rightarrow> bool" where
  "is_save_call (CallSave _ _) = True"
| "is_save_call _ = False"

fun is_stream_call :: "host_call \<Rightarrow> bool" where
  "is_stream_call (CallStream _) = True"
| "is_stream_call _ = False"

fun is_authorize_call :: "host_call \<Rightarrow> bool" where
  "is_authorize_call (CallAuthorize _ _ _ _) = True"
| "is_authorize_call _ = False"

fun run_summary :: "workflow_exit option \<times> 'w sys \<Rightarrow> workflow_exit option \<times> effect list \<times> bool \<times> bool \<times> bool" where
  "run_summary (r, t) = (r, filter is_exec (ss_log t), list_ex (is_call is_save_call) (ss_log t),
     list_ex (is_call is_stream_call) (ss_log t), list_ex (is_call is_authorize_call) (ss_log t))"

text \<open>The turn completes; it asks for permission, saves, and executes the tool once.\<close>

lemma demo_run:
  "run_summary (run_turn demo_config demo_host demo_start demo_state) =
     (Some (ExitCompleted StopCompleted usage_default),
      [Constructed (CallExecute 7 (tool_context_for demo_start (ToolCallId ''c1'')) (ToolName ''echo'') JNull)],
      True, True, True)"
  by code_simp

lemma demo_env: "env_rely demo_host"
  by (simp add: env_rely_def demo_host_def rel.refl)

lemma demo_wf: "arc_wf demo_state"
  by (simp add: arc_wf_def demo_state_def)

lemma demo_start_ok: "start_ok demo_start"
  by (simp add: start_ok_def demo_start_def sample_record_def closed_history_plain plain_message_def
      message_text_def call_ids_def result_ids_def)

abbreviation demo_log :: "effect list" where
  "demo_log \<equiv> turn_log demo_config demo_host demo_start demo_state"

lemma demo_completed:
  "\<exists>t. run_turn demo_config demo_host demo_start demo_state = (Some (ExitCompleted StopCompleted usage_default), t)"
  using demo_run by (cases "run_turn demo_config demo_host demo_start demo_state") simp

lemma demo_log_summary:
  "filter is_exec demo_log =
     [Constructed (CallExecute 7 (tool_context_for demo_start (ToolCallId ''c1'')) (ToolName ''echo'') JNull)]"
  "list_ex (is_call is_save_call) demo_log" "list_ex (is_call is_stream_call) demo_log"
  "list_ex (is_call is_authorize_call) demo_log"
proof -
  have "demo_log = ss_log (snd (run_turn demo_config demo_host demo_start demo_state))"
    by (simp add: turn_log_def demo_state_def)
  moreover obtain r t where "run_turn demo_config demo_host demo_start demo_state = (r, t)" by fastforce
  ultimately show "filter is_exec demo_log =
       [Constructed (CallExecute 7 (tool_context_for demo_start (ToolCallId ''c1'')) (ToolName ''echo'') JNull)]"
    "list_ex (is_call is_save_call) demo_log" "list_ex (is_call is_stream_call) demo_log"
    "list_ex (is_call is_authorize_call) demo_log"
    using demo_run by simp_all
qed

lemma demo_log_exec:
  obtains i where "i < length demo_log"
    "demo_log ! i =
       Constructed (CallExecute 7 (tool_context_for demo_start (ToolCallId ''c1'')) (ToolName ''echo'') JNull)"
proof -
  have "Constructed (CallExecute 7 (tool_context_for demo_start (ToolCallId ''c1'')) (ToolName ''echo'') JNull)
      \<in> set (filter is_exec demo_log)"
    unfolding demo_log_summary(1) by simp
  then have "Constructed (CallExecute 7 (tool_context_for demo_start (ToolCallId ''c1'')) (ToolName ''echo'') JNull)
      \<in> set demo_log" by simp
  then show ?thesis using that unfolding in_set_conv_nth by blast
qed

lemma is_call_iff: "is_call p e \<longleftrightarrow> (\<exists>c. e = Constructed c \<and> p c)"
  by (cases e) (simp_all add: is_call_def)

lemma call_kinds:
  "is_save_call c \<longleftrightarrow> (\<exists>r x. c = CallSave r x)" "is_stream_call c \<longleftrightarrow> (\<exists>req. c = CallStream req)"
  "is_authorize_call c \<longleftrightarrow> (\<exists>req name i args. c = CallAuthorize req name i args)"
  by (cases c; simp)+

lemma demo_log_save: obtains c x where "Constructed (CallSave c x) \<in> set demo_log"
  using demo_log_summary(2) unfolding list_ex_iff is_call_iff call_kinds by blast

lemma demo_log_stream: obtains req where "Constructed (CallStream req) \<in> set demo_log"
  using demo_log_summary(3) unfolding list_ex_iff is_call_iff call_kinds by blast

lemma demo_log_authorize:
  obtains i req name call_id args where "i < length demo_log"
    "demo_log ! i = Constructed (CallAuthorize req name call_id args)"
proof -
  obtain req name call_id args where "Constructed (CallAuthorize req name call_id args) \<in> set demo_log"
    using demo_log_summary(4) unfolding list_ex_iff is_call_iff call_kinds by blast
  then show ?thesis using that unfolding in_set_conv_nth by blast
qed

definition demo_cancelled :: "(nat \<times> u64) sys" where
  "demo_cancelled = demo_state\<lparr>ss_cancelled := True\<rparr>"

lemma demo_cancelled_wf: "arc_wf demo_cancelled" "ss_cancelled demo_cancelled"
  by (simp_all add: arc_wf_def demo_cancelled_def demo_state_def)

section \<open>Concrete session operations\<close>

definition demo_idle :: "(nat \<times> u64) sys" where
  "demo_idle = demo_state\<lparr>ss_lease := Free\<rparr>"

definition demo_busy :: "(nat \<times> u64) sys" where
  "demo_busy = demo_state\<lparr>ss_lease := Others\<rparr>"

lemma demo_idle_ok: "arc_wf demo_idle" "ss_lease demo_idle \<noteq> Mine" "arc_wf demo_busy" "ss_lease demo_busy \<noteq> Mine"
  by (simp_all add: arc_wf_def demo_idle_def demo_busy_def demo_state_def)

fun result_of :: "('e, 'a) result \<times> 'w sys \<Rightarrow> ('a \<Rightarrow> 'b) \<Rightarrow> 'b option" where
  "result_of (Inr a, t) f = Some (f a)"
| "result_of (Inl e, t) f = None"

lemma result_of_Some: "result_of p f = Some b \<longleftrightarrow> (\<exists>a t. p = (Inr a, t) \<and> f a = b)"
  by (cases p; cases "fst p") auto

lemma result_of_None: "result_of p f = None \<longleftrightarrow> (\<exists>e t. p = (Inl e, t))"
  by (cases p; cases "fst p") auto

lemma demo_start_turn:
  "\<exists>st t. start_turn demo_config demo_host (Some ''go'') (st_options demo_start) None demo_idle = (Inr st, t)
     \<and> st_turn_id st = TurnId ''turn-1''"
proof -
  have "result_of (start_turn demo_config demo_host (Some ''go'') (st_options demo_start) None demo_idle) st_turn_id =
      Some (TurnId ''turn-1'')" by code_simp
  then show ?thesis unfolding result_of_Some by blast
qed

lemma demo_update_metadata:
  "\<exists>t. update_metadata demo_config demo_host 1 [(''k'', JNull)] demo_idle = (Inr 2, t)"
proof -
  have "result_of (update_metadata demo_config demo_host 1 [(''k'', JNull)] demo_idle) (\<lambda>v. v) = Some 2" by code_simp
  then show ?thesis unfolding result_of_Some by blast
qed

lemma demo_commit:
  "\<exists>r t. commit_messages demo_config demo_host sample_record [message_text User ''more''] CommitCancellable demo_state =
     (Inr r, t) \<and> sr_revision r = 2"
proof -
  have "result_of (commit_messages demo_config demo_host sample_record [message_text User ''more''] CommitCancellable
      demo_state) sr_revision = Some 2" by code_simp
  then show ?thesis unfolding result_of_Some by blast
qed

end
