(* ===== verification/Cancel_Token.thy ===== *)
theory Cancel_Token
  imports MG_Prelude
begin

text \<open>
  The cancellation token (\<open>cancel.rs\<close>): a flag, a registry of wakers, and the protocol by which
  tasks that wait for the cancellation register themselves while others request it. The operations
  are given as sequences of atomic steps (one load or exchange of the flag, or one critical section
  of the registry), which any number of tasks interleave.
\<close>

section \<open>The registry\<close>

type_synonym waiter_id = u64

text \<open>A waker is named by the task it wakes; two wakers of one task \<open>will_wake\<close> each other.\<close>

type_synonym waker = nat

record waiter_registry =
  wr_next_id :: waiter_id
  wr_waiters :: "(waiter_id, waker) btree"

record cancellation =
  ct_cancelled :: bool
  ct_registry :: waiter_registry

definition token_new :: cancellation where
  "token_new = \<lparr>ct_cancelled = False, ct_registry = \<lparr>wr_next_id = 0, wr_waiters = []\<rparr>\<rparr>"

text \<open>\<open>None\<close> is the failed assertion: every identifier is taken.\<close>

function vacant_from :: "waiter_id \<Rightarrow> waiter_registry \<Rightarrow> (waiter_id \<times> waiter_registry) option" where
  "vacant_from start r =
     (let candidate = wr_next_id r; r' = r\<lparr>wr_next_id := candidate + 1\<rparr> in
      if bt_lookup (wr_waiters r) candidate = None then Some (candidate, r')
      else if wr_next_id r' = start then None
      else vacant_from start r')"
  by auto
termination
proof (relation "measure (\<lambda>(start, r). unat (start - 1 - wr_next_id r))")
  fix start :: u64 and r r' :: waiter_registry and candidate
  assume c: "candidate = wr_next_id r" and r': "r' = r\<lparr>wr_next_id := candidate + 1\<rparr>" and "wr_next_id r' \<noteq> start"
  then have "start - 1 - wr_next_id r \<noteq> 0" by (auto simp: algebra_simps)
  then have "unat (start - 1 - wr_next_id r - 1) < unat (start - 1 - wr_next_id r)"
    by (metis measure_unat)
  then show "((start, r'), start, r) \<in> measure (\<lambda>(start, r). unat (start - 1 - wr_next_id r))"
    by (simp add: c r' algebra_simps)
qed simp

declare vacant_from.simps [simp del]

definition vacant_id :: "waiter_registry \<Rightarrow> (waiter_id \<times> waiter_registry) option" where
  "vacant_id r = vacant_from (wr_next_id r) r"

section \<open>The critical sections\<close>

text \<open>What \<open>register\<close> does under the lock.\<close>

definition insert_waiter :: "waiter_id option \<Rightarrow> waker \<Rightarrow> waiter_registry \<Rightarrow> (waiter_id \<times> waiter_registry) option" where
  "insert_waiter wid w r =
     (case (case wid of Some i \<Rightarrow> Some (i, r) | None \<Rightarrow> vacant_id r) of
        None \<Rightarrow> None
      | Some (i, r') \<Rightarrow>
          (case bt_lookup (wr_waiters r') i of
             Some existing \<Rightarrow>
               if existing = w then Some (i, r') else Some (i, r'\<lparr>wr_waiters := bt_insert i w (wr_waiters r')\<rparr>)
           | None \<Rightarrow> Some (i, r'\<lparr>wr_waiters := bt_insert i w (wr_waiters r')\<rparr>)))"

definition deregister :: "waiter_id option \<Rightarrow> cancellation \<Rightarrow> cancellation" where
  "deregister wid c =
     (case wid of None \<Rightarrow> c
      | Some i \<Rightarrow> c\<lparr>ct_registry := (ct_registry c)\<lparr>wr_waiters := bt_remove i (wr_waiters (ct_registry c))\<rparr>\<rparr>)"

text \<open>\<open>mem::take\<close> of the waiters by the request that set the flag.\<close>

definition take_waiters :: "cancellation \<Rightarrow> waker list \<times> cancellation" where
  "take_waiters c =
     (bt_values (wr_waiters (ct_registry c)), c\<lparr>ct_registry := (ct_registry c)\<lparr>wr_waiters := []\<rparr>\<rparr>)"

section \<open>Tasks\<close>

text \<open>
  Where a task is. A task either holds a future \<open>Cancelled\<close> (\<open>Parked\<close> between two polls, with the
  identifier it registered under, if any) or requests the cancellation.
\<close>

datatype pc =
    Parked "waiter_id option"
  | PollLoad "waiter_id option"
  | RegisterLoad "waiter_id option"
  | RegisterInsert "waiter_id option"
  | RegisterReload "waiter_id option"
  | RegisterWake "waiter_id option"
  | PollReload "waiter_id option"
  | PollReady "waiter_id option"
  | Finished
  | Panicked
  | CancelSwap
  | CancelTake
  | CancelWake "waker list"
  | CancelDone bool

text \<open>
  One atomic step of a task, with the wakers it wakes and whether its poll returned \<open>Pending\<close>.
  \<open>PollLoad\<close>, \<open>PollReload\<close> and \<open>PollReady\<close> are \<open>Cancelled::poll\<close>; \<open>RegisterLoad\<close> to \<open>RegisterWake\<close>
  are \<open>register\<close>; the rest is \<open>cancel\<close>.
\<close>

fun task_step :: "nat \<Rightarrow> pc \<Rightarrow> cancellation \<Rightarrow> pc \<times> cancellation \<times> waker list \<times> bool" where
  "task_step t (PollLoad wid) c = ((if ct_cancelled c then PollReady wid else RegisterLoad wid), c, [], False)"
| "task_step t (RegisterLoad wid) c = ((if ct_cancelled c then RegisterWake wid else RegisterInsert wid), c, [], False)"
| "task_step t (RegisterInsert wid) c =
     (case insert_waiter wid t (ct_registry c) of
        None \<Rightarrow> (Panicked, c, [], False)
      | Some (i, r) \<Rightarrow> (RegisterReload (Some i), c\<lparr>ct_registry := r\<rparr>, [], False))"
| "task_step t (RegisterReload wid) c = ((if ct_cancelled c then RegisterWake wid else PollReload wid), c, [], False)"
| "task_step t (RegisterWake wid) c = (PollReload None, deregister wid c, [t], False)"
| "task_step t (PollReload wid) c =
     (if ct_cancelled c then (PollReady wid, c, [], False) else (Parked wid, c, [], True))"
| "task_step t (PollReady wid) c = (Finished, deregister wid c, [], False)"
| "task_step t CancelSwap c =
     (if ct_cancelled c then (CancelDone False, c, [], False)
      else (CancelTake, c\<lparr>ct_cancelled := True\<rparr>, [], False))"
| "task_step t CancelTake c = (case take_waiters c of (ws, c') \<Rightarrow> (CancelWake ws, c', [], False))"
| "task_step t (CancelWake (w # ws)) c = (CancelWake ws, c, [w], False)"
| "task_step t (CancelWake []) c = (CancelDone True, c, [], False)"
| "task_step t p c = (p, c, [], False)"

text \<open>The whole system: the token, the tasks, and which of them are asleep.\<close>

record tasks =
  ts_token :: cancellation
  ts_pc :: "nat \<Rightarrow> pc"
  ts_asleep :: "nat set"

text \<open>
  A task may be polled at any time (it was woken, or spuriously), and its future may be dropped.
\<close>

inductive tasks_step :: "tasks \<Rightarrow> tasks \<Rightarrow> bool" where
  poll: "ts_pc s t = Parked wid \<Longrightarrow>
    tasks_step s (s\<lparr>ts_pc := (ts_pc s)(t := PollLoad wid), ts_asleep := ts_asleep s - {t}\<rparr>)"
| dropped: "ts_pc s t = Parked wid \<Longrightarrow>
    tasks_step s (s\<lparr>ts_token := deregister wid (ts_token s), ts_pc := (ts_pc s)(t := Finished),
      ts_asleep := ts_asleep s - {t}\<rparr>)"
| run: "task_step t (ts_pc s t) (ts_token s) = (p, c, woken, sleeps) \<Longrightarrow> \<forall>wid. ts_pc s t \<noteq> Parked wid \<Longrightarrow>
    tasks_step s (s\<lparr>ts_token := c, ts_pc := (ts_pc s)(t := p),
      ts_asleep := (ts_asleep s - set woken) \<union> (if sleeps then {t} else {})\<rparr>)"

definition tasks_start :: "tasks \<Rightarrow> bool" where
  "tasks_start s \<longleftrightarrow> ts_token s = token_new \<and> ts_asleep s = {}
     \<and> (\<forall>t. ts_pc s t \<in> {Parked None, CancelSwap, Finished})"

inductive tasks_reach :: "tasks \<Rightarrow> bool" where
  start: "tasks_start s \<Longrightarrow> tasks_reach s"
| step: "tasks_reach s \<Longrightarrow> tasks_step s s' \<Longrightarrow> tasks_reach s'"

section \<open>Vacant identifiers\<close>

lemma vacant_from_Some:
  "vacant_from start r = Some (i, r') \<Longrightarrow> bt_lookup (wr_waiters r) i = None \<and> wr_waiters r' = wr_waiters r"
proof (induction start r rule: vacant_from.induct)
  case (1 start r)
  show ?case
    using 1 by (subst (asm) (2) vacant_from.simps) (auto simp: Let_def split: if_splits)
qed

lemma u64_minus_one_mono: "x \<noteq> 0 \<Longrightarrow> x \<le> y \<Longrightarrow> x - 1 \<le> (y :: u64) - 1"
  by (cases "y = 0") (auto simp: word_le_nat_alt unat_minus_one)

lemma vacant_from_None:
  "vacant_from start r = None \<Longrightarrow> k - wr_next_id r \<le> start - 1 - wr_next_id r \<Longrightarrow>
   bt_lookup (wr_waiters r) k \<noteq> None"
proof (induction start r rule: vacant_from.induct)
  case (1 start r)
  let ?n = "wr_next_id r" and ?r = "r\<lparr>wr_next_id := wr_next_id r + 1\<rparr>"
  have used: "bt_lookup (wr_waiters r) ?n \<noteq> None"
    using "1.prems"(1) by (subst (asm) vacant_from.simps) (simp add: Let_def split: if_splits)
  show ?case
  proof (cases "k = ?n")
    case True
    then show ?thesis using used by simp
  next
    case False
    then have k: "k - ?n \<noteq> 0" by simp
    have "start - 1 - ?n \<noteq> 0" using k "1.prems"(2) by auto
    then have n: "?n + 1 \<noteq> start" by (auto simp: algebra_simps)
    have "vacant_from start ?r = None"
      using "1.prems"(1) used n by (subst (asm) vacant_from.simps) (simp add: Let_def split: if_splits)
    moreover have "k - ?n - 1 \<le> start - 1 - ?n - 1"
      using k "1.prems"(2) by (rule u64_minus_one_mono)
    ultimately show ?thesis
      using "1.IH" [of ?n ?r] used n by (simp add: algebra_simps)
  qed
qed

lemma vacant_id_Some:
  "vacant_id r = Some (i, r') \<Longrightarrow> bt_lookup (wr_waiters r) i = None \<and> wr_waiters r' = wr_waiters r"
  unfolding vacant_id_def by (rule vacant_from_Some)

lemma vacant_id_None: "vacant_id r = None \<Longrightarrow> bt_lookup (wr_waiters r) k \<noteq> None"
  unfolding vacant_id_def by (erule vacant_from_None) simp

section \<open>No lost wakeups\<close>

fun pc_waiter :: "pc \<Rightarrow> waiter_id option" where
  "pc_waiter (Parked wid) = wid"
| "pc_waiter (PollLoad wid) = wid"
| "pc_waiter (RegisterLoad wid) = wid"
| "pc_waiter (RegisterInsert wid) = wid"
| "pc_waiter (RegisterReload wid) = wid"
| "pc_waiter (RegisterWake wid) = wid"
| "pc_waiter (PollReload wid) = wid"
| "pc_waiter (PollReady wid) = wid"
| "pc_waiter _ = None"

fun winner :: "pc \<Rightarrow> bool" where
  "winner CancelTake = True"
| "winner (CancelWake ws) = True"
| "winner (CancelDone b) = b"
| "winner _ = False"

fun taken_by :: "pc \<Rightarrow> bool" where
  "taken_by (CancelWake ws) = True"
| "taken_by (CancelDone b) = b"
| "taken_by _ = False"

fun to_wake :: "pc \<Rightarrow> waker set" where
  "to_wake (CancelWake ws) = set ws"
| "to_wake _ = {}"

text \<open>What a task has seen of the flag.\<close>

fun pc_ok :: "bool \<Rightarrow> pc \<Rightarrow> bool" where
  "pc_ok b (RegisterWake wid) = b"
| "pc_ok b (RegisterReload wid) = (wid = None \<longrightarrow> b)"
| "pc_ok b (PollReload wid) = (wid = None \<longrightarrow> b)"
| "pc_ok b _ = True"

lemma pc_ok_True [simp]: "pc_ok True p"
  by (cases p) simp_all

abbreviation waiters_of :: "tasks \<Rightarrow> (waiter_id, waker) btree" where
  "waiters_of s \<equiv> wr_waiters (ct_registry (ts_token s))"

text \<open>
  Before the waiters are taken, a task holds an identifier exactly when the registry has its waker
  under it, and every sleeping task holds one; afterwards every sleeping task is still to be woken by the
  request that took them.
\<close>

definition tasks_inv :: "tasks \<Rightarrow> bool" where
  "tasks_inv s \<longleftrightarrow> bt_invar (waiters_of s) \<and> (\<forall>t. pc_ok (ct_cancelled (ts_token s)) (ts_pc s t))
     \<and> (if ct_cancelled (ts_token s) then \<exists>!t. winner (ts_pc s t) else \<forall>t. \<not> winner (ts_pc s t))
     \<and> ((\<forall>t. \<not> taken_by (ts_pc s t)) \<longrightarrow>
          (\<forall>t i. pc_waiter (ts_pc s t) = Some i \<longleftrightarrow> bt_lookup (waiters_of s) i = Some t)
          \<and> (\<forall>t \<in> ts_asleep s. pc_waiter (ts_pc s t) \<noteq> None))
     \<and> (\<forall>t \<in> ts_asleep s. \<exists>wid. ts_pc s t = Parked wid)
     \<and> ((\<exists>t. taken_by (ts_pc s t)) \<longrightarrow> ts_asleep s \<subseteq> (\<Union>t. to_wake (ts_pc s t)))"

lemma tasks_inv_start: "tasks_start s \<Longrightarrow> tasks_inv s"
proof -
  assume s: "tasks_start s"
  then have p: "ts_pc s t = Parked None \<or> ts_pc s t = CancelSwap \<or> ts_pc s t = Finished" for t
    unfolding tasks_start_def by blast
  have "\<not> winner (ts_pc s t) \<and> \<not> taken_by (ts_pc s t) \<and> pc_waiter (ts_pc s t) = None \<and> pc_ok b (ts_pc s t)" for t b
    using p [of t] by auto
  then show ?thesis
    using s by (simp add: tasks_inv_def tasks_start_def token_new_def bt_invar_def bt_lookup_def)
qed

lemma deregister_token [simp]:
  "ct_cancelled (deregister wid c) = ct_cancelled c"
  "bt_invar (wr_waiters (ct_registry c)) \<Longrightarrow> bt_invar (wr_waiters (ct_registry (deregister wid c)))"
  "bt_lookup (wr_waiters (ct_registry (deregister wid c))) i =
     (if wid = Some i then None else bt_lookup (wr_waiters (ct_registry c)) i)"
  by (auto simp: deregister_def bt_invar_remove bt_lookup_remove split: option.split)

lemma insert_waiter_Some:
  assumes ins: "insert_waiter wid w r = Some (i, r')" and inv: "bt_invar (wr_waiters r)"
  shows "bt_invar (wr_waiters r')" "bt_lookup (wr_waiters r') j = (if j = i then Some w else bt_lookup (wr_waiters r) j)"
    "wid = Some i \<or> wid = None \<and> bt_lookup (wr_waiters r) i = None"
proof -
  obtain r1 where r1: "(case wid of Some i \<Rightarrow> Some (i, r) | None \<Rightarrow> vacant_id r) = Some (i, r1)"
    using ins by (auto simp: insert_waiter_def split: option.splits if_splits)
  then have same: "wr_waiters r1 = wr_waiters r"
    and "wid = Some i \<or> wid = None \<and> bt_lookup (wr_waiters r) i = None"
    using vacant_id_Some by (fastforce split: option.splits)+
  then show "wid = Some i \<or> wid = None \<and> bt_lookup (wr_waiters r) i = None" by blast
  show "bt_invar (wr_waiters r')" "bt_lookup (wr_waiters r') j = (if j = i then Some w else bt_lookup (wr_waiters r) j)"
    using ins inv same
    by (auto simp: insert_waiter_def r1 bt_lookup_insert bt_invar_insert split: option.splits if_splits)
qed

lemma winnerI: "taken_by p \<Longrightarrow> winner p" "x \<in> to_wake p \<Longrightarrow> winner p"
  by (cases p; simp)+

lemma not_winner: "\<not> winner p \<Longrightarrow> \<not> taken_by p \<and> to_wake p = {}"
  by (cases p) simp_all

lemma tasks_inv_winner:
  assumes "tasks_inv s" "winner (ts_pc s t)"
  shows "ct_cancelled (ts_token s)" "winner (ts_pc s u) \<longleftrightarrow> u = t"
  using assms unfolding tasks_inv_def by metis+

lemma asleep_parked: "tasks_inv s \<Longrightarrow> u \<in> ts_asleep s \<Longrightarrow> \<exists>wid. ts_pc s u = Parked wid"
  by (simp add: tasks_inv_def)

text \<open>A step that neither requests the cancellation nor changes the flag.\<close>

lemma tasks_inv_quiet:
  assumes inv: "tasks_inv s" and t: "\<not> winner (ts_pc s t)" and p: "\<not> winner p"
    and c: "ct_cancelled c = ct_cancelled (ts_token s)" "bt_invar (wr_waiters (ct_registry c))"
    and reg: "(\<forall>u. \<not> taken_by (ts_pc s u)) \<Longrightarrow>
      \<forall>u i. pc_waiter (((ts_pc s)(t := p)) u) = Some i \<longleftrightarrow> bt_lookup (wr_waiters (ct_registry c)) i = Some u"
    and ok: "pc_ok (ct_cancelled c) p"
    and asleep: "A \<subseteq> insert t (ts_asleep s)" "t \<in> A \<Longrightarrow> (\<exists>i. p = Parked (Some i)) \<and> \<not> ct_cancelled c"
  shows "tasks_inv (s\<lparr>ts_token := c, ts_pc := (ts_pc s)(t := p), ts_asleep := A\<rparr>)"
proof -
  let ?s = "s\<lparr>ts_token := c, ts_pc := (ts_pc s)(t := p), ts_asleep := A\<rparr>"
  have win: "winner (ts_pc ?s u) = winner (ts_pc s u)" for u using t p by simp
  have tak: "taken_by (ts_pc ?s u) = taken_by (ts_pc s u)" for u using not_winner [OF t] not_winner [OF p] by simp
  have wake: "to_wake (ts_pc ?s u) = to_wake (ts_pc s u)" for u using not_winner [OF t] not_winner [OF p] by simp
  have sleepers: "\<forall>u \<in> A. \<exists>wid. ts_pc ?s u = Parked wid"
    using inv asleep by (auto simp: tasks_inv_def)
  have holds: "\<forall>u \<in> A. pc_waiter (ts_pc ?s u) \<noteq> None" if "\<forall>u. \<not> taken_by (ts_pc s u)"
    using inv asleep that by (auto simp: tasks_inv_def)
  have pending: "A \<subseteq> (\<Union>u. to_wake (ts_pc s u))" if "\<exists>u. taken_by (ts_pc s u)"
  proof
    fix u assume u: "u \<in> A"
    have "ct_cancelled (ts_token s)" using inv that winnerI(1) by (auto simp: tasks_inv_def split: if_splits)
    then have "u \<noteq> t" using asleep(2) u c(1) by auto
    then show "u \<in> (\<Union>u. to_wake (ts_pc s u))" using inv that asleep(1) u by (auto simp: tasks_inv_def)
  qed
  have oks: "\<forall>u. pc_ok (ct_cancelled c) (ts_pc ?s u)"
  proof
    show "pc_ok (ct_cancelled c) (ts_pc ?s u)" for u using inv ok c(1) by (cases "u = t") (simp_all add: tasks_inv_def)
  qed
  show ?thesis
    using inv c reg oks sleepers holds pending unfolding tasks_inv_def win tak wake by simp
qed

lemma tasks_inv_poll:
  assumes inv: "tasks_inv s" and t: "ts_pc s t = Parked wid"
  shows "tasks_inv (s\<lparr>ts_pc := (ts_pc s)(t := PollLoad wid), ts_asleep := ts_asleep s - {t}\<rparr>)"
proof -
  have "tasks_inv (s\<lparr>ts_token := ts_token s, ts_pc := (ts_pc s)(t := PollLoad wid), ts_asleep := ts_asleep s - {t}\<rparr>)"
  proof (rule tasks_inv_quiet [OF inv])
    assume "\<forall>u. \<not> taken_by (ts_pc s u)"
    then have "pc_waiter (ts_pc s u) = Some i \<longleftrightarrow> bt_lookup (waiters_of s) i = Some u" for u i
      using inv by (simp add: tasks_inv_def)
    from this [of t] this show "\<forall>u i. pc_waiter (((ts_pc s)(t := PollLoad wid)) u) = Some i \<longleftrightarrow>
        bt_lookup (waiters_of s) i = Some u" by (simp add: t)
  qed (use inv t in \<open>auto simp: tasks_inv_def\<close>)
  then show ?thesis by simp
qed

lemma tasks_inv_deregister:
  assumes inv: "tasks_inv s" and t: "pc_waiter (ts_pc s t) = wid" "\<not> winner (ts_pc s t)"
    and p: "pc_waiter p = None" "\<not> winner p" "pc_ok (ct_cancelled (ts_token s)) p" and A: "A \<subseteq> ts_asleep s - {t}"
    and c: "c = deregister wid (ts_token s)"
  shows "tasks_inv (s\<lparr>ts_token := c, ts_pc := (ts_pc s)(t := p), ts_asleep := A\<rparr>)"
  unfolding c
proof (rule tasks_inv_quiet [OF inv t(2) p(2)])
  assume "\<forall>u. \<not> taken_by (ts_pc s u)"
  then have held: "pc_waiter (ts_pc s u) = Some i \<longleftrightarrow> bt_lookup (waiters_of s) i = Some u" for u i
    using inv by (simp add: tasks_inv_def)
  show "\<forall>u i. pc_waiter (((ts_pc s)(t := p)) u) = Some i \<longleftrightarrow>
      bt_lookup (wr_waiters (ct_registry (deregister wid (ts_token s)))) i = Some u"
    using held [of t] t(1) p(1) by (auto simp: held)
qed (use inv A p(3) in \<open>auto simp: tasks_inv_def\<close>)

lemma tasks_inv_moved:
  assumes inv: "tasks_inv s" and c: "c = ts_token s" and t: "pc_waiter p = pc_waiter (ts_pc s t)" "\<not> winner (ts_pc s t)" "\<not> winner p"
    and ok: "pc_ok (ct_cancelled (ts_token s)) p"
    and A: "A \<subseteq> insert t (ts_asleep s)" "t \<in> A \<Longrightarrow> (\<exists>i. p = Parked (Some i)) \<and> \<not> ct_cancelled (ts_token s)"
  shows "tasks_inv (s\<lparr>ts_token := c, ts_pc := (ts_pc s)(t := p), ts_asleep := A\<rparr>)"
unfolding c
proof (rule tasks_inv_quiet [OF inv t(2,3)])
  assume "\<forall>u. \<not> taken_by (ts_pc s u)"
  then have "pc_waiter (ts_pc s u) = Some i \<longleftrightarrow> bt_lookup (waiters_of s) i = Some u" for u i
    using inv by (simp add: tasks_inv_def)
  from this [of t] this show "\<forall>u i. pc_waiter (((ts_pc s)(t := p)) u) = Some i \<longleftrightarrow> bt_lookup (waiters_of s) i = Some u"
    by (simp add: t(1))
qed (use inv A ok in \<open>auto simp: tasks_inv_def\<close>)

lemma tasks_inv_insert:
  assumes inv: "tasks_inv s" and t: "ts_pc s t = RegisterInsert wid"
    and ins: "insert_waiter wid t (ct_registry (ts_token s)) = Some (i, r)"
  shows "tasks_inv (s\<lparr>ts_token := (ts_token s)\<lparr>ct_registry := r\<rparr>, ts_pc := (ts_pc s)(t := RegisterReload (Some i)),
    ts_asleep := ts_asleep s\<rparr>)"
proof (rule tasks_inv_quiet [OF inv])
  have bt: "bt_invar (waiters_of s)" using inv by (simp add: tasks_inv_def)
  note ins = insert_waiter_Some [OF ins bt]
  show "bt_invar (wr_waiters (ct_registry ((ts_token s)\<lparr>ct_registry := r\<rparr>)))" using ins(1) by simp
  assume "\<forall>u. \<not> taken_by (ts_pc s u)"
  then have held: "pc_waiter (ts_pc s u) = Some i \<longleftrightarrow> bt_lookup (waiters_of s) i = Some u" for u i
    using inv by (simp add: tasks_inv_def)
  have mine: "bt_lookup (waiters_of s) j = Some t \<longleftrightarrow> wid = Some j" for j using held [of t j] t by simp
  show "\<forall>u j. pc_waiter (((ts_pc s)(t := RegisterReload (Some i))) u) = Some j \<longleftrightarrow>
      bt_lookup (wr_waiters (ct_registry ((ts_token s)\<lparr>ct_registry := r\<rparr>))) j = Some u"
  proof (intro allI)
    fix u j
    show "pc_waiter (((ts_pc s)(t := RegisterReload (Some i))) u) = Some j \<longleftrightarrow>
        bt_lookup (wr_waiters (ct_registry ((ts_token s)\<lparr>ct_registry := r\<rparr>))) j = Some u"
      using ins(2) [of j] ins(3) mine [of i] mine [of j] by (cases "j = i"; cases "u = t") (auto simp: held)
  qed
next
  show "t \<in> ts_asleep s \<Longrightarrow> (\<exists>ia. RegisterReload (Some i) = Parked (Some ia)) \<and>
      \<not> ct_cancelled ((ts_token s)\<lparr>ct_registry := r\<rparr>)"
    using inv t by (auto simp: tasks_inv_def)
qed (use t in auto)

lemma tasks_inv_swap:
  assumes inv: "tasks_inv s" and t: "ts_pc s t = CancelSwap" and c: "\<not> ct_cancelled (ts_token s)"
  shows "tasks_inv (s\<lparr>ts_token := (ts_token s)\<lparr>ct_cancelled := True\<rparr>, ts_pc := (ts_pc s)(t := CancelTake),
    ts_asleep := ts_asleep s\<rparr>)"
proof -
  have none: "\<not> winner (ts_pc s u)" for u using inv c by (simp add: tasks_inv_def)
  have tak: "\<not> taken_by (ts_pc s u)" for u using not_winner [OF none] by blast
  have held: "pc_waiter (ts_pc s u) = Some i \<longleftrightarrow> bt_lookup (waiters_of s) i = Some u" for u i
    using inv tak by (simp add: tasks_inv_def)
  have "\<not> (bt_lookup (waiters_of s) i = Some t)" for i using held [of t i] t by simp
  moreover have "t \<notin> ts_asleep s" using inv t by (auto simp: tasks_inv_def)
  ultimately show ?thesis
    using inv none tak held by (auto simp: tasks_inv_def)
qed

lemma tasks_inv_won:
  assumes c: "bt_invar (wr_waiters (ct_registry c))" "ct_cancelled c" and p: "winner p" "taken_by p"
    and uniq: "\<And>u. winner (ts_pc s u) \<longleftrightarrow> u = t"
    and A: "A \<subseteq> to_wake p" "\<forall>u \<in> A. u \<noteq> t \<and> (\<exists>wid. ts_pc s u = Parked wid)"
  shows "tasks_inv (s\<lparr>ts_token := c, ts_pc := (ts_pc s)(t := p), ts_asleep := A\<rparr>)" (is "tasks_inv ?s")
proof -
  have "\<exists>!u. winner (ts_pc ?s u)" using p(1) uniq by (intro ex1I [of _ t]) (auto split: if_splits)
  moreover have "taken_by (ts_pc ?s t)" using p(2) by simp
  then have "\<not> (\<forall>u. \<not> taken_by (ts_pc ?s u))" "\<exists>u. taken_by (ts_pc ?s u)" by blast+
  moreover have "A \<subseteq> (\<Union>u. to_wake (ts_pc ?s u))" using A(1) by (auto intro!: exI [of _ t])
  moreover have "\<forall>u \<in> A. \<exists>wid. ts_pc ?s u = Parked wid" using A(2) by auto
  ultimately show ?thesis using c unfolding tasks_inv_def by (simp del: fun_upd_apply not_all)
qed

lemma tasks_inv_take:
  assumes inv: "tasks_inv s" and t: "ts_pc s t = CancelTake"
  shows "tasks_inv (s\<lparr>ts_token := snd (take_waiters (ts_token s)),
    ts_pc := (ts_pc s)(t := CancelWake (fst (take_waiters (ts_token s)))), ts_asleep := ts_asleep s\<rparr>)"
proof (rule tasks_inv_won)
  have c: "ct_cancelled (ts_token s)" and uniq: "winner (ts_pc s u) \<longleftrightarrow> u = t" for u
    using tasks_inv_winner [OF inv, of t] t by simp_all
  then show "winner (ts_pc s u) \<longleftrightarrow> u = t" "ct_cancelled (snd (take_waiters (ts_token s)))" for u
    by (simp_all add: take_waiters_def)
  show "bt_invar (wr_waiters (ct_registry (snd (take_waiters (ts_token s)))))"
    by (simp add: take_waiters_def bt_invar_def)
  show "\<forall>u \<in> ts_asleep s. u \<noteq> t \<and> (\<exists>wid. ts_pc s u = Parked wid)" using inv t by (auto simp: tasks_inv_def)
  have tak: "\<not> taken_by (ts_pc s u)" for u using uniq [of u] winnerI(1) t by (cases "u = t") auto
  have held: "pc_waiter (ts_pc s u) = Some i \<longleftrightarrow> bt_lookup (waiters_of s) i = Some u" for u i
    using inv tak by (simp add: tasks_inv_def)
  show "ts_asleep s \<subseteq> to_wake (CancelWake (fst (take_waiters (ts_token s))))"
  proof
    fix u assume "u \<in> ts_asleep s"
    then obtain i where "pc_waiter (ts_pc s u) = Some i" using inv tak by (auto simp: tasks_inv_def)
    then have "(i, u) \<in> set (waiters_of s)" using held by (auto simp: bt_lookup_def dest: map_of_SomeD)
    then show "u \<in> to_wake (CancelWake (fst (take_waiters (ts_token s))))"
      by (force simp: bt_values_def take_waiters_def)
  qed
qed simp_all

lemma tasks_inv_wake:
  assumes inv: "tasks_inv s" and t: "ts_pc s t = CancelWake ws" and p: "winner p" "taken_by p"
    and A: "A \<subseteq> ts_asleep s" "A \<inter> set ws \<subseteq> to_wake p" and tok: "c = ts_token s"
  shows "tasks_inv (s\<lparr>ts_token := c, ts_pc := (ts_pc s)(t := p), ts_asleep := A\<rparr>)"
  unfolding tok
proof (rule tasks_inv_won)
  have c: "ct_cancelled (ts_token s)" and uniq: "winner (ts_pc s u) \<longleftrightarrow> u = t" for u
    using tasks_inv_winner [OF inv, of t] t by simp_all
  then show "winner (ts_pc s u) \<longleftrightarrow> u = t" "ct_cancelled (ts_token s)" for u by simp_all
  have "to_wake (ts_pc s u) \<subseteq> set ws" for u
    using not_winner uniq t by (cases "u = t") auto
  moreover have "\<exists>u. taken_by (ts_pc s u)" using t by (intro exI [of _ t]) simp
  then have "ts_asleep s \<subseteq> (\<Union>u. to_wake (ts_pc s u))" using inv by (simp add: tasks_inv_def)
  ultimately have "ts_asleep s \<subseteq> set ws" by blast
  then show "A \<subseteq> to_wake p" using A by auto
  show "\<forall>u \<in> A. u \<noteq> t \<and> (\<exists>wid. ts_pc s u = Parked wid)" using asleep_parked [OF inv] t A(1) by fastforce
qed (use inv p in \<open>simp_all add: tasks_inv_def\<close>)

lemma tasks_inv_run:
  assumes inv: "tasks_inv s" and step: "task_step t (ts_pc s t) (ts_token s) = (p, c, woken, sleeps)"
    and t: "\<forall>wid. ts_pc s t \<noteq> Parked wid"
  shows "tasks_inv (s\<lparr>ts_token := c, ts_pc := (ts_pc s)(t := p),
    ts_asleep := (ts_asleep s - set woken) \<union> (if sleeps then {t} else {})\<rparr>)"
proof -
  have awake: "t \<notin> ts_asleep s" using inv t by (auto simp: tasks_inv_def)
  note moved = tasks_inv_moved [OF inv] and removed = tasks_inv_deregister [OF inv]
  show ?thesis
  proof (cases "ts_pc s t")
    case (RegisterInsert wid)
    show ?thesis
    proof (cases "insert_waiter wid t (ct_registry (ts_token s))")
      case None
      then have "wid = None" by (auto simp: insert_waiter_def split: option.splits if_splits)
      with None show ?thesis by (intro moved) (use step awake RegisterInsert in auto)
    next
      case (Some ir)
      then show ?thesis
        using step RegisterInsert tasks_inv_insert [OF inv RegisterInsert] by (cases ir) auto
    qed
  next
    case CancelSwap
    show ?thesis
    proof (cases "ct_cancelled (ts_token s)")
      case True
      then show ?thesis by (intro moved) (use step awake CancelSwap in auto)
    next
      case False
      then show ?thesis using step CancelSwap tasks_inv_swap [OF inv CancelSwap False] by auto
    qed
  next
    case CancelTake
    then show ?thesis using step tasks_inv_take [OF inv CancelTake] by (auto split: prod.splits)
  next
    case (CancelWake ws)
    then show ?thesis by (intro tasks_inv_wake [OF inv CancelWake]; use step in \<open>cases ws; auto\<close>)
  next
    case (RegisterWake wid)
    have "ct_cancelled (ts_token s)"
      using inv RegisterWake unfolding tasks_inv_def by (metis pc_ok.simps(1))
    then show ?thesis by (intro removed) (use step awake RegisterWake in auto)
  next
    case (PollReady wid)
    then show ?thesis by (intro removed) (use step awake in auto)
  next
    case (PollReload wid)
    have "wid = None \<longrightarrow> ct_cancelled (ts_token s)"
      using inv PollReload unfolding tasks_inv_def by (metis pc_ok.simps(3))
    then show ?thesis by (intro moved) (use step awake PollReload in \<open>auto split: if_splits\<close>)
  next
    case (RegisterReload wid)
    have "wid = None \<longrightarrow> ct_cancelled (ts_token s)"
      using inv RegisterReload unfolding tasks_inv_def by (metis pc_ok.simps(2))
    then show ?thesis by (intro moved) (use step awake RegisterReload in \<open>auto split: if_splits\<close>)
  next
    case (PollLoad wid)
    then show ?thesis by (intro moved) (use step awake in \<open>auto split: if_splits\<close>)
  next
    case (RegisterLoad wid)
    then show ?thesis by (intro moved) (use step awake in \<open>auto split: if_splits\<close>)
  next
    case (Parked wid)
    then show ?thesis using t by blast
  next
    case Finished
    then show ?thesis by (intro moved) (use step awake in auto)
  next
    case Panicked
    then show ?thesis by (intro moved) (use step awake in auto)
  next
    case (CancelDone b)
    then have "s\<lparr>ts_token := c, ts_pc := (ts_pc s)(t := p), ts_asleep := (ts_asleep s - set woken) \<union> (if sleeps then {t} else {})\<rparr> = s"
      using step by auto
    then show ?thesis using inv by simp
  qed
qed

lemma tasks_inv_step: "tasks_step s s' \<Longrightarrow> tasks_inv s \<Longrightarrow> tasks_inv s'"
proof (induction rule: tasks_step.induct)
  case (poll s t wid)
  then show ?case by (simp add: tasks_inv_poll)
next
  case (dropped s t wid)
  then show ?case by (intro tasks_inv_deregister) simp_all
next
  case (run t s p c woken sleeps)
  then show ?case by (intro tasks_inv_run)
qed

lemma tasks_reach_inv: "tasks_reach s \<Longrightarrow> tasks_inv s"
  by (induction rule: tasks_reach.induct) (auto intro: tasks_inv_start tasks_inv_step)

section \<open>Schedules\<close>

text \<open>One step of the named task, and a whole schedule.\<close>

definition advance :: "tasks \<Rightarrow> nat \<Rightarrow> tasks" where
  "advance s t =
     (case ts_pc s t of
        Parked wid \<Rightarrow> s\<lparr>ts_pc := (ts_pc s)(t := PollLoad wid), ts_asleep := ts_asleep s - {t}\<rparr>
      | _ \<Rightarrow> (case task_step t (ts_pc s t) (ts_token s) of
          (p, c, woken, sleeps) \<Rightarrow>
            s\<lparr>ts_token := c, ts_pc := (ts_pc s)(t := p),
              ts_asleep := (ts_asleep s - set woken) \<union> (if sleeps then {t} else {})\<rparr>))"

lemma advance_step: "tasks_step s (advance s t)"
proof (cases "\<exists>wid. ts_pc s t = Parked wid")
  case True
  then show ?thesis by (auto simp: advance_def intro: tasks_step.poll)
next
  case False
  obtain p c woken sleeps where st: "task_step t (ts_pc s t) (ts_token s) = (p, c, woken, sleeps)"
    by (metis prod_cases4)
  have "advance s t = s\<lparr>ts_token := c, ts_pc := (ts_pc s)(t := p),
      ts_asleep := (ts_asleep s - set woken) \<union> (if sleeps then {t} else {})\<rparr>"
    unfolding advance_def st using False by (cases "ts_pc s t") simp_all
  then show ?thesis using tasks_step.run [OF st] False by simp
qed

lemma tasks_reach_schedule: "tasks_reach s \<Longrightarrow> tasks_reach (foldl advance s ts)"
  by (induction ts arbitrary: s) (auto intro: tasks_reach.step advance_step)

lemma advance_others: "u \<noteq> t \<Longrightarrow> ts_pc (advance s t) u = ts_pc s u"
proof -
  assume "u \<noteq> t"
  moreover obtain p c woken sleeps where st: "task_step t (ts_pc s t) (ts_token s) = (p, c, woken, sleeps)"
    by (metis prod_cases4)
  ultimately show ?thesis unfolding advance_def st by (cases "ts_pc s t") simp_all
qed

lemma schedule_others: "t \<notin> set ts \<Longrightarrow> ts_pc (foldl advance s ts) t = ts_pc s t"
  by (induction ts arbitrary: s) (simp_all add: advance_others)

section \<open>Properties\<close>

text \<open>
  C25. No task sleeps through a cancellation: in every interleaving of registering, dropping and cancelling tasks,
  once the token is cancelled and the request that cancelled it has returned, every task whose
  poll found the token not cancelled has been woken.
\<close>

theorem no_lost_wakeup:
  assumes "tasks_reach s" and "ct_cancelled (ts_token s)"
    and "\<forall>t. ts_pc s t \<noteq> CancelTake" and "\<forall>t ws. ts_pc s t \<noteq> CancelWake ws"
  shows "ts_asleep s = {}"
proof -
  have inv: "tasks_inv s" using assms(1) by (rule tasks_reach_inv)
  then obtain t where "winner (ts_pc s t)" using assms(2) unfolding tasks_inv_def by auto
  then have "taken_by (ts_pc s t)" using assms(3,4) by (cases "ts_pc s t") auto
  then have "ts_asleep s \<subseteq> (\<Union>t. to_wake (ts_pc s t))" using inv unfolding tasks_inv_def by blast
  moreover have "to_wake (ts_pc s u) = {}" for u using assms(4) by (cases "ts_pc s u") auto
  ultimately show ?thesis by blast
qed

text \<open>A task that waits, and one that cancels while the other is asleep.\<close>

definition demo_tasks :: tasks where
  "demo_tasks = \<lparr>ts_token = token_new,
     ts_pc = (\<lambda>t. if t = 0 then Parked None else if t = 1 then CancelSwap else Finished), ts_asleep = {}\<rparr>"

definition demo_woken :: tasks where
  "demo_woken = foldl advance demo_tasks [0, 0, 0, 0, 0, 0, 1, 1, 1, 1]"

lemma demo_woken_pc:
  "ts_pc demo_woken t = (if t = 0 then Parked (Some 0) else if t = 1 then CancelDone True else Finished)"
proof -
  have "ts_pc demo_woken 0 = Parked (Some 0)" "ts_pc demo_woken 1 = CancelDone True" by code_simp+
  moreover have "ts_pc demo_woken t = Finished" if "t \<noteq> 0" "t \<noteq> 1"
    using that schedule_others [of t "[0, 0, 0, 0, 0, 0, 1, 1, 1, 1]" demo_tasks]
    unfolding demo_woken_def by (simp add: demo_tasks_def del: foldl_Cons)
  ultimately show ?thesis by simp
qed

lemma demo_tasks_reach: "tasks_reach (foldl advance demo_tasks ts)"
  by (intro tasks_reach_schedule tasks_reach.start) (simp add: tasks_start_def demo_tasks_def)

theorem no_lost_wakeup_witness:
  "0 \<in> ts_asleep (foldl advance demo_tasks [0, 0, 0, 0, 0, 0]) \<and> ts_asleep demo_woken = {}"
proof -
  have "tasks_reach demo_woken" unfolding demo_woken_def by (rule demo_tasks_reach)
  moreover have "ct_cancelled (ts_token demo_woken)" by code_simp
  ultimately have "ts_asleep demo_woken = {}" by (rule no_lost_wakeup) (simp_all add: demo_woken_pc)
  moreover have "0 \<in> ts_asleep (foldl advance demo_tasks [0, 0, 0, 0, 0, 0])" by code_simp
  ultimately show ?thesis by blast
qed

text \<open>
  C27. The search for a waiter identifier returns one that is not in use and changes nothing else, and it fails only when
  all identifiers are in use, although the counter wraps around.
\<close>

theorem vacant_id_fresh:
  "(case vacant_id r of
      Some (i, r') \<Rightarrow> bt_lookup (wr_waiters r) i = None \<and> wr_waiters r' = wr_waiters r
    | None \<Rightarrow> \<forall>k. bt_lookup (wr_waiters r) k \<noteq> None)"
  using vacant_id_Some vacant_id_None by (auto split: option.splits)

text \<open>
  C26. A request reports success only if it made the change: at most one task ever gets \<open>true\<close> from a request for the
  cancellation of a token, and then the token is cancelled.
\<close>

theorem cancel_reports_once:
  assumes "tasks_reach s" and "ts_pc s t = CancelDone True"
  shows "ct_cancelled (ts_token s) \<and> (\<forall>u. ts_pc s u = CancelDone True \<longrightarrow> u = t)"
  using tasks_inv_winner [OF tasks_reach_inv [OF assms(1)], of t] assms(2) by (metis winner.simps(3))

theorem cancel_reports_once_witness:
  "ct_cancelled (ts_token demo_woken)"
proof -
  have "tasks_reach demo_woken" unfolding demo_woken_def by (rule demo_tasks_reach)
  moreover have "ts_pc demo_woken 1 = CancelDone True" by (simp add: demo_woken_pc)
  ultimately show ?thesis using cancel_reports_once by blast
qed

end
