(* ===== verification/Turn_Stream.thy ===== *)
theory Turn_Stream
  imports Turn_Workflow Cancel_Token
begin

text \<open>
  The event stream of a turn (\<open>Turn\<close>, \<open>TurnHandle\<close>, \<open>EmissionGate\<close>, \<open>EmitFuture\<close> in
  \<open>session.rs\<close>): the consumer polls the stream, the stream polls the workflow, each event the
  workflow stages is numbered and offered to the event sink before the consumer gets it, and the
  workflow goes on when the consumer has it. A cancellation replaces what is being delivered. The
  workflow, the sink and the other users of the cancellation token are parameters.
\<close>

section \<open>The emission gate\<close>

record staged_turn_event =
  se_payload :: turn_event
  se_establishes_terminal :: bool

record emission_state =
  es_pending :: "staged_turn_event option"
  es_acknowledged :: bool
  es_usage :: token_usage
  es_terminal_established :: bool
  es_cancellation_deferrals :: usize

definition emission_default :: emission_state where
  "emission_default = \<lparr>es_pending = None, es_acknowledged = False, es_usage = usage_default,
     es_terminal_established = False, es_cancellation_deferrals = 0\<rparr>"

definition take_pending :: "emission_state \<Rightarrow> staged_turn_event option \<times> emission_state" where
  "take_pending g = (es_pending g, g\<lparr>es_pending := None\<rparr>)"

definition acknowledge :: "emission_state \<Rightarrow> emission_state" where
  "acknowledge g = g\<lparr>es_acknowledged := True\<rparr>"

definition gate_clear :: "emission_state \<Rightarrow> emission_state" where
  "gate_clear g = g\<lparr>es_pending := None, es_acknowledged := False, es_terminal_established := False\<rparr>"

definition cancellation_deferred :: "emission_state \<Rightarrow> bool" where
  "cancellation_deferred g \<longleftrightarrow> es_cancellation_deferrals g \<noteq> 0"

text \<open>A failed assertion is a panic with its message.\<close>

type_synonym panic = string

text \<open>
  The future of one emission. The first poll stages the event; a later one is ready when the
  consumer has taken it.
\<close>

record emit_future =
  ef_event :: "staged_turn_event option"
  ef_staged :: bool

definition emit_new :: "turn_event \<Rightarrow> bool \<Rightarrow> emit_future" where
  "emit_new payload terminal =
     \<lparr>ef_event = Some \<lparr>se_payload = payload, se_establishes_terminal = terminal\<rparr>, ef_staged = False\<rparr>"

definition emit_poll :: "emit_future \<Rightarrow> emission_state \<Rightarrow> (panic, bool \<times> emit_future \<times> emission_state) result" where
  "emit_poll f g =
     (if \<not> ef_staged f then
        (case ef_event f of
           None \<Rightarrow> Inl ''unstaged event is available''
         | Some event \<Rightarrow>
             if es_pending g \<noteq> None then Inl ''only one turn event may be staged''
             else if es_acknowledged g then Inl ''an acknowledgement cannot precede an event''
             else Inr (False, \<lparr>ef_event = None, ef_staged = True\<rparr>, g\<lparr>es_pending := Some event\<rparr>))
      else if es_acknowledged g then Inr (True, f, g\<lparr>es_acknowledged := False\<rparr>)
      else Inr (False, f, g))"

section \<open>The turn\<close>

datatype 'k turn_state = Running 'k | EmitTerminal turn_event | Done

record 'd pending_delivery =
  pd_event :: engine_event
  pd_future :: 'd

text \<open>
  The turn, with what it shares: the cancellation token, the flag \<open>active_turn\<close> of its session that
  the lease holds, the flag \<open>open\<close> of the invocation scope, and the flag \<open>admission_closed\<close> and
  the token \<open>closed\<close> of the metadata scope. \<open>'k\<close> is the workflow future, \<open>'d\<close> the sink's.
\<close>

record ('k, 'd, 'w) turn =
  tn_session_id :: session_id
  tn_session_incarnation_id :: session_incarnation_id
  tn_id :: turn_id
  tn_state :: "'k turn_state"
  tn_gate :: emission_state
  tn_delivery :: "'d pending_delivery option"
  tn_sequence :: u64
  tn_usage :: token_usage
  tn_terminal_seen :: bool
  tn_locally_synthesized :: bool
  tn_waiter :: "waiter_id option"
  tn_lease :: bool
  tn_token :: cancellation
  tn_active_turn :: bool
  tn_invocation_open :: bool
  tn_admission_closed :: bool
  tn_closed :: cancellation
  tn_world :: 'w

definition turn_new ::
  "session_id \<Rightarrow> session_incarnation_id \<Rightarrow> turn_id \<Rightarrow> 'k \<Rightarrow> cancellation \<Rightarrow> 'w \<Rightarrow> ('k, 'd, 'w) turn" where
  "turn_new sid inc tid workflow token w =
     \<lparr>tn_session_id = sid, tn_session_incarnation_id = inc, tn_id = tid, tn_state = Running workflow,
      tn_gate = emission_default, tn_delivery = None, tn_sequence = 0, tn_usage = usage_default,
      tn_terminal_seen = False, tn_locally_synthesized = False, tn_waiter = None, tn_lease = True,
      tn_token = token, tn_active_turn = True, tn_invocation_open = True, tn_admission_closed = False,
      tn_closed = token_new, tn_world = w\<rparr>"

text \<open>
  The surroundings: what other tasks do to the token between two steps of this one, a poll of the
  workflow (which sees the token and the gate), and the future of the sink and its poll.
\<close>

record ('k, 'd, 'w) turn_env =
  te_others :: "cancellation \<Rightarrow> 'w \<Rightarrow> cancellation \<times> 'w"
  te_workflow_poll :: "'k \<Rightarrow> cancellation \<Rightarrow> emission_state \<Rightarrow> 'w \<Rightarrow>
    (panic, workflow_exit option) result \<times> 'k \<times> emission_state \<times> 'w"
  te_sink_emit :: "engine_event \<Rightarrow> 'd"
  te_sink_poll :: "'d \<Rightarrow> 'w \<Rightarrow> (event_sink_error, unit) result option \<times> 'd \<times> 'w"

type_synonym ('k, 'd, 'w, 'a) turn_op = "(('k, 'd, 'w) turn, panic, 'a) op"

text \<open>\<open>Poll<Option<Result<EngineEvent, EngineError>>>\<close>.\<close>

datatype stream_poll =
    StreamPending
  | StreamItem "(engine_error, engine_event) result"
  | StreamEnd

subsection \<open>The token\<close>

definition token_cancel :: "cancellation \<Rightarrow> cancellation" where
  "token_cancel c = (if ct_cancelled c then c else snd (take_waiters (c\<lparr>ct_cancelled := True\<rparr>)))"

definition others :: "('k, 'd, 'w) turn_env \<Rightarrow> ('k, 'd, 'w, unit) turn_op" where
  "others E = modify (\<lambda>t. case te_others E (tn_token t) (tn_world t) of
     (c, w) \<Rightarrow> t\<lparr>tn_token := c, tn_world := w\<rparr>)"

definition is_cancelled :: "('k, 'd, 'w) turn_env \<Rightarrow> ('k, 'd, 'w, bool) turn_op" where
  "is_cancelled E = bindE (others E) (\<lambda>_. get (\<lambda>t. ct_cancelled (tn_token t)))"

definition request_cancel :: "('k, 'd, 'w) turn_env \<Rightarrow> ('k, 'd, 'w, unit) turn_op" where
  "request_cancel E = bindE (others E) (\<lambda>_. modify (\<lambda>t. t\<lparr>tn_token := token_cancel (tn_token t)\<rparr>))"

definition deregister_waiter :: "('k, 'd, 'w) turn_env \<Rightarrow> ('k, 'd, 'w, unit) turn_op" where
  "deregister_waiter E = bindE (others E) (\<lambda>_. modify (\<lambda>t.
     t\<lparr>tn_token := deregister (tn_waiter t) (tn_token t), tn_waiter := None\<rparr>))"

definition insert_turn_waiter :: "('k, 'd, 'w) turn_env \<Rightarrow> waker \<Rightarrow> ('k, 'd, 'w, unit) turn_op" where
  "insert_turn_waiter E cx = bindE (others E) (\<lambda>_.
     bindE (get (\<lambda>t. insert_waiter (tn_waiter t) cx (ct_registry (tn_token t)))) (\<lambda>ins.
       case ins of
         None \<Rightarrow> fail ''cancellation waiter ID space exhausted''
       | Some (i, r) \<Rightarrow> modify (\<lambda>t. t\<lparr>tn_token := (tn_token t)\<lparr>ct_registry := r\<rparr>, tn_waiter := Some i\<rparr>)))"

definition register_waiter :: "('k, 'd, 'w) turn_env \<Rightarrow> waker \<Rightarrow> ('k, 'd, 'w, unit) turn_op" where
  "register_waiter E cx =
     bindE (is_cancelled E) (\<lambda>cancelled.
       if cancelled then deregister_waiter E
       else bindE (insert_turn_waiter E cx) (\<lambda>_.
         bindE (is_cancelled E) (\<lambda>cancelled. if cancelled then deregister_waiter E else ret ())))"

subsection \<open>Steps of a turn\<close>

definition finish :: "('k, 'd, 'w) turn_env \<Rightarrow> ('k, 'd, 'w, unit) turn_op" where
  "finish E =
     bindE (modify (\<lambda>t. t\<lparr>tn_invocation_open := False, tn_admission_closed := True\<rparr>)) (\<lambda>_.
     bindE (deregister_waiter E) (\<lambda>_.
     modify (\<lambda>t. t\<lparr>tn_state := Done, tn_gate := gate_clear (tn_gate t),
       tn_active_turn := (if tn_lease t then False else tn_active_turn t), tn_lease := False,
       tn_closed := token_cancel (tn_closed t)\<rparr>)))"

definition fail_before_terminal :: "('k, 'd, 'w) turn_env \<Rightarrow> ('k, 'd, 'w, unit) turn_op" where
  "fail_before_terminal E =
     bindE (get tn_terminal_seen) (\<lambda>seen.
     bindE (if \<not> seen then request_cancel E else ret ()) (\<lambda>_.
     bindE (modify (\<lambda>t. t\<lparr>tn_terminal_seen := True\<rparr>)) (\<lambda>_. finish E)))"

text \<open>The next event: it takes the current sequence number, and the counter saturates.\<close>

definition number_event :: "turn_event \<Rightarrow> ('k, 'd, 'w, engine_event) turn_op" where
  "number_event payload =
     bindE (get (\<lambda>t. \<lparr>ev_session_id = tn_session_id t, ev_session_incarnation_id = tn_session_incarnation_id t,
        ev_turn_id = tn_id t, ev_sequence = tn_sequence t, ev_payload = payload\<rparr>)) (\<lambda>event.
     bindE (modify (\<lambda>t. t\<lparr>tn_sequence := u64_saturating_add (tn_sequence t) 1\<rparr>)) (\<lambda>_. ret event))"

definition stage :: "('k, 'd, 'w) turn_env \<Rightarrow> turn_event \<Rightarrow> ('k, 'd, 'w, unit) turn_op" where
  "stage E payload =
     bindE (number_event payload) (\<lambda>event.
     modify (\<lambda>t. t\<lparr>tn_delivery := Some \<lparr>pd_event = event, pd_future = te_sink_emit E event\<rparr>\<rparr>))"

definition update_cancellation_waiter :: "('k, 'd, 'w) turn_env \<Rightarrow> waker \<Rightarrow> ('k, 'd, 'w, unit) turn_op" where
  "update_cancellation_waiter E cx =
     bindE (get tn_terminal_seen) (\<lambda>seen.
     bindE (if seen then ret True else is_cancelled E) (\<lambda>b.
     if b then deregister_waiter E else register_waiter E cx))"

definition establish_cancellation :: "('k, 'd, 'w, unit) turn_op" where
  "establish_cancellation = modify (\<lambda>t. t\<lparr>tn_terminal_seen := True, tn_locally_synthesized := True,
     tn_state := EmitTerminal (Completed StopCancelled (tn_usage t))\<rparr>)"

definition establish_cancellation_if_observed :: "('k, 'd, 'w) turn_env \<Rightarrow> ('k, 'd, 'w, bool) turn_op" where
  "establish_cancellation_if_observed E =
     bindE (is_cancelled E) (\<lambda>cancelled.
     bindE (get (\<lambda>t. cancelled \<and> \<not> tn_terminal_seen t \<and> \<not> cancellation_deferred (tn_gate t))) (\<lambda>b.
     if b then bindE establish_cancellation (\<lambda>_. ret True) else ret False))"

fun is_cancellation :: "turn_event \<Rightarrow> bool" where
  "is_cancellation (Completed StopCancelled u) = True"
| "is_cancellation _ = False"

fun is_terminal :: "turn_event \<Rightarrow> bool" where
  "is_terminal (Completed r u) = True"
| "is_terminal (Failed c d m b) = True"
| "is_terminal _ = False"

text \<open>
  Whether a cancellation that was seen ends the delivery in progress, and with which event: its own
  when it already is the cancellation made up here, otherwise a new one in its place.
\<close>

definition delivers_cancellation :: "('k, 'd, 'w) turn \<Rightarrow> bool" where
  "delivers_cancellation t \<longleftrightarrow> tn_locally_synthesized t
     \<and> (case tn_delivery t of None \<Rightarrow> False | Some d \<Rightarrow> is_cancellation (ev_payload (pd_event d)))"

definition replace_delivery ::
  "('k, 'd, 'w) turn_env \<Rightarrow> 'd pending_delivery \<Rightarrow> bool \<Rightarrow> ('k, 'd, 'w, engine_event) turn_op" where
  "replace_delivery E pending delivers =
     bindE (modify (\<lambda>t. t\<lparr>tn_delivery := None\<rparr>)) (\<lambda>_.
     bindE (if delivers then ret (pd_event pending)
            else bindE (modify (\<lambda>t. t\<lparr>tn_locally_synthesized := True\<rparr>)) (\<lambda>_.
              bindE (get tn_usage) (\<lambda>u. number_event (Completed StopCancelled u)))) (\<lambda>event.
     bindE (modify (\<lambda>t. t\<lparr>tn_terminal_seen := True\<rparr>)) (\<lambda>_.
     bindE (finish E) (\<lambda>_. ret event))))"

definition cancel_pending_delivery :: "('k, 'd, 'w) turn_env \<Rightarrow> ('k, 'd, 'w, engine_event option) turn_op" where
  "cancel_pending_delivery E =
     bindE (is_cancelled E) (\<lambda>cancelled.
     bindE (get (\<lambda>t. cancellation_deferred (tn_gate t))) (\<lambda>deferred.
     if \<not> cancelled \<or> deferred then ret None
     else bindE (get delivers_cancellation) (\<lambda>delivers.
       bindE (get tn_terminal_seen) (\<lambda>seen.
       if seen \<and> \<not> delivers then ret None
       else bindE (get tn_delivery) (\<lambda>delivery.
         case delivery of
           None \<Rightarrow> ret None
         | Some pending \<Rightarrow> bindE (replace_delivery E pending delivers) (\<lambda>event. ret (Some event)))))))"

definition delivery_lost :: "('k, 'd, 'w) turn_env \<Rightarrow> ('k, 'd, 'w, stream_poll) turn_op" where
  "delivery_lost E = bindE (fail_before_terminal E) (\<lambda>_.
     ret (StreamItem (Inl (Protocol ''event delivery state was lost''))))"

definition poll_sink ::
  "('k, 'd, 'w) turn_env \<Rightarrow> 'd pending_delivery \<Rightarrow> ('k, 'd, 'w, (event_sink_error, unit) result option) turn_op" where
  "poll_sink E d =
     bindE (get tn_world) (\<lambda>w.
       case te_sink_poll E (pd_future d) w of (result, future, w') \<Rightarrow>
         bindE (modify (\<lambda>t. t\<lparr>tn_delivery := Some (d\<lparr>pd_future := future\<rparr>), tn_world := w'\<rparr>)) (\<lambda>_. ret result))"

definition delivered :: "('k, 'd, 'w) turn_env \<Rightarrow> ('k, 'd, 'w, stream_poll) turn_op" where
  "delivered E =
     bindE (get tn_delivery) (\<lambda>delivery.
     bindE (modify (\<lambda>t. t\<lparr>tn_delivery := None\<rparr>)) (\<lambda>_.
     case delivery of
       None \<Rightarrow> delivery_lost E
     | Some d \<Rightarrow>
         bindE (if is_terminal (ev_payload (pd_event d)) then finish E
                else bindE (modify (\<lambda>t. t\<lparr>tn_gate := acknowledge (tn_gate t)\<rparr>)) (\<lambda>_. deregister_waiter E)) (\<lambda>_.
         ret (StreamItem (Inr (pd_event d))))))"

definition settle_delivery ::
  "('k, 'd, 'w) turn_env \<Rightarrow> (event_sink_error, unit) result option \<Rightarrow> ('k, 'd, 'w, stream_poll) turn_op" where
  "settle_delivery E result =
     (case result of
        None \<Rightarrow> ret StreamPending
      | Some (Inr _) \<Rightarrow> delivered E
      | Some (Inl error) \<Rightarrow>
          bindE (modify (\<lambda>t. t\<lparr>tn_delivery := None\<rparr>)) (\<lambda>_.
          bindE (fail_before_terminal E) (\<lambda>_.
          ret (StreamItem (Inl (EventSink (redact_event_sink_error error)))))))"

definition offer_delivery :: "('k, 'd, 'w) turn_env \<Rightarrow> ('k, 'd, 'w, stream_poll) turn_op" where
  "offer_delivery E =
     bindE (get tn_delivery) (\<lambda>delivery.
       case delivery of
         None \<Rightarrow> delivery_lost E
       | Some d \<Rightarrow> bindE (poll_sink E d) (\<lambda>result.
           bindE (cancel_pending_delivery E) (\<lambda>event.
           case event of
             Some event \<Rightarrow> ret (StreamItem (Inr event))
           | None \<Rightarrow> settle_delivery E result)))"

definition poll_delivery :: "('k, 'd, 'w) turn_env \<Rightarrow> waker \<Rightarrow> ('k, 'd, 'w, stream_poll) turn_op" where
  "poll_delivery E cx =
     bindE (update_cancellation_waiter E cx) (\<lambda>_.
     bindE (cancel_pending_delivery E) (\<lambda>event.
     case event of
       Some event \<Rightarrow> ret (StreamItem (Inr event))
     | None \<Rightarrow> offer_delivery E))"

subsection \<open>The stream\<close>

text \<open>What a poll looks at in the gate before and after it polls the workflow.\<close>

definition read_gate :: "('k, 'd, 'w, unit) turn_op" where
  "read_gate = modify (\<lambda>t. t\<lparr>tn_usage := es_usage (tn_gate t),
     tn_terminal_seen := tn_terminal_seen t \<or> es_terminal_established (tn_gate t)\<rparr>)"

definition poll_workflow :: "('k, 'd, 'w) turn_env \<Rightarrow> 'k \<Rightarrow> ('k, 'd, 'w, workflow_exit option \<times> 'k) turn_op" where
  "poll_workflow E workflow =
     bindE (others E) (\<lambda>_.
     bindE (get (\<lambda>t. te_workflow_poll E workflow (tn_token t) (tn_gate t) (tn_world t))) (\<lambda>(result, workflow', g, w).
     bindE (modify (\<lambda>t. t\<lparr>tn_gate := g, tn_world := w\<rparr>)) (\<lambda>_.
     bindE (lift_res result) (\<lambda>exit. ret (exit, workflow')))))"

definition take_staged :: "('k, 'd, 'w, staged_turn_event option) turn_op" where
  "take_staged =
     bindE (get (\<lambda>t. take_pending (tn_gate t))) (\<lambda>(staged, g).
     bindE (modify (\<lambda>t. t\<lparr>tn_gate := g\<rparr>)) (\<lambda>_. ret staged))"

text \<open>The workflow has returned, or waits for something other than an emission.\<close>

definition workflow_result ::
  "'k \<Rightarrow> workflow_exit option \<Rightarrow> ('k, 'd, 'w, stream_poll option) turn_op" where
  "workflow_result workflow result =
     (case result of
        None \<Rightarrow> bindE (modify (\<lambda>t. t\<lparr>tn_state := Running workflow\<rparr>)) (\<lambda>_. ret (Some StreamPending))
      | Some (ExitCompleted reason u) \<Rightarrow>
          bindE (modify (\<lambda>t. t\<lparr>tn_usage := u, tn_terminal_seen := True,
            tn_state := EmitTerminal (Completed reason u)\<rparr>)) (\<lambda>_. ret None)
      | Some (ExitFailed failure) \<Rightarrow>
          bindE (modify (\<lambda>t. t\<lparr>tn_terminal_seen := True, tn_state := EmitTerminal (failure_into_event failure)\<rparr>))
            (\<lambda>_. ret None)
      | Some ExitCancelled \<Rightarrow> bindE establish_cancellation (\<lambda>_. ret None))"

definition run_workflow :: "('k, 'd, 'w) turn_env \<Rightarrow> 'k \<Rightarrow> ('k, 'd, 'w, stream_poll option) turn_op" where
  "run_workflow E workflow =
     bindE (poll_workflow E workflow) (\<lambda>(result, workflow').
     bindE read_gate (\<lambda>_.
     bindE take_staged (\<lambda>staged.
     case staged of
       Some staged \<Rightarrow>
         bindE (modify (\<lambda>t. t\<lparr>tn_terminal_seen := tn_terminal_seen t \<or> se_establishes_terminal staged,
           tn_state := Running workflow'\<rparr>)) (\<lambda>_.
         bindE (establish_cancellation_if_observed E) (\<lambda>b.
         bindE (if \<not> b then stage E (se_payload staged) else ret ()) (\<lambda>_. ret None)))
     | None \<Rightarrow>
         bindE (establish_cancellation_if_observed E) (\<lambda>b.
         if b then ret None else workflow_result workflow' result))))"

text \<open>The body of the loop of \<open>poll_next\<close>: \<open>Some\<close> is its \<open>return\<close>.\<close>

definition advance_turn :: "('k, 'd, 'w) turn_env \<Rightarrow> ('k, 'd, 'w, stream_poll option) turn_op" where
  "advance_turn E =
     bindE (get tn_state) (\<lambda>state.
     bindE (modify (\<lambda>t. t\<lparr>tn_state := Done\<rparr>)) (\<lambda>_.
     case state of
       Running workflow \<Rightarrow> run_workflow E workflow
     | EmitTerminal event \<Rightarrow> bindE (stage E event) (\<lambda>_. ret None)
     | Done \<Rightarrow> ret (Some StreamEnd)))"

definition turn_idle :: "('k, 'd, 'w) turn_env \<Rightarrow> waker \<Rightarrow> ('k, 'd, 'w, stream_poll option) turn_op" where
  "turn_idle E cx =
     bindE read_gate (\<lambda>_.
     bindE (establish_cancellation_if_observed E) (\<lambda>_.
     bindE (update_cancellation_waiter E cx) (\<lambda>_.
     advance_turn E)))"

definition turn_iteration :: "('k, 'd, 'w) turn_env \<Rightarrow> waker \<Rightarrow> ('k, 'd, 'w, stream_poll option) turn_op" where
  "turn_iteration E cx =
     bindE (cancel_pending_delivery E) (\<lambda>event.
     case event of
       Some event \<Rightarrow> ret (Some (StreamItem (Inr event)))
     | None \<Rightarrow> bindE (get (\<lambda>t. tn_delivery t \<noteq> None)) (\<lambda>pending.
         if pending then bindE (poll_delivery E cx) (\<lambda>r. ret (Some r)) else turn_idle E cx))"

definition turn_drop :: "('k, 'd, 'w) turn_env \<Rightarrow> ('k, 'd, 'w, unit) turn_op" where
  "turn_drop E =
     bindE (get tn_lease) (\<lambda>lease.
     bindE (if lease then request_cancel E else ret ()) (\<lambda>_. finish E))"

section \<open>What a step may change\<close>

text \<open>
  Registering, deregistering and what other tasks do touches the token and the waiter only.
\<close>

definition quiet :: "('k, 'd, 'w) turn \<Rightarrow> ('k, 'd, 'w) turn \<Rightarrow> bool" where
  "quiet t u \<longleftrightarrow> u = t\<lparr>tn_token := tn_token u, tn_waiter := tn_waiter u, tn_world := tn_world u\<rparr>"

lemma quiet_sel:
  assumes "quiet t u"
  shows "tn_session_id u = tn_session_id t" "tn_session_incarnation_id u = tn_session_incarnation_id t"
    "tn_id u = tn_id t" "tn_state u = tn_state t" "tn_gate u = tn_gate t" "tn_delivery u = tn_delivery t"
    "tn_sequence u = tn_sequence t" "tn_usage u = tn_usage t" "tn_terminal_seen u = tn_terminal_seen t"
    "tn_locally_synthesized u = tn_locally_synthesized t" "tn_lease u = tn_lease t"
    "tn_active_turn u = tn_active_turn t" "tn_invocation_open u = tn_invocation_open t"
    "tn_admission_closed u = tn_admission_closed t" "tn_closed u = tn_closed t"
  by (subst assms [unfolded quiet_def], simp)+

lemma quiet_refl: "quiet t t"
  by (simp add: quiet_def)

lemma quiet_trans: assumes "quiet t u" "quiet u v" shows "quiet t v"
  unfolding quiet_def by (rule turn.equality) (simp_all add: quiet_sel [OF assms(1)] quiet_sel [OF assms(2)])

lemma quiet_update: "quiet t (t\<lparr>tn_token := c\<rparr>)" "quiet t (t\<lparr>tn_token := c, tn_waiter := x\<rparr>)"
  "quiet t (t\<lparr>tn_token := c, tn_world := w\<rparr>)"
  by (simp_all add: quiet_def)

interpretation quiet: step_relation quiet
  by unfold_locales (auto intro: quiet_refl quiet_trans)

lemma keeps_others: "keeps quiet (others E)"
  unfolding others_def by (rule quiet.keeps_modify) (auto intro: quiet_update split: prod.split)

lemma keeps_is_cancelled: "keeps quiet (is_cancelled E)"
  unfolding is_cancelled_def by (intro quiet.keeps_rules quiet.keeps_modify keeps_others)

lemma keeps_deregister_waiter: "keeps quiet (deregister_waiter E)"
  unfolding deregister_waiter_def by (intro quiet.keeps_rules quiet.keeps_modify keeps_others quiet_update)

lemma keeps_request_cancel: "keeps quiet (request_cancel E)"
  unfolding request_cancel_def by (intro quiet.keeps_rules quiet.keeps_modify keeps_others quiet_update)

lemma keeps_register_waiter: "keeps quiet (register_waiter E cx)"
  unfolding register_waiter_def insert_turn_waiter_def
  by (intro quiet.keeps_rules quiet.keeps_modify keeps_is_cancelled keeps_deregister_waiter keeps_others quiet_update)

lemma keeps_update_cancellation_waiter: "keeps quiet (update_cancellation_waiter E cx)"
  unfolding update_cancellation_waiter_def
  by (intro quiet.keeps_rules quiet.keeps_modify keeps_is_cancelled keeps_deregister_waiter keeps_register_waiter)

lemma wp_quietI:
  assumes "keeps quiet m" and "\<And>r u. quiet t u \<Longrightarrow> Q r u" and "\<And>e u. quiet t u \<Longrightarrow> X e u"
  shows "wp m Q X t"
  using wp_mono [OF keeps_wpI [OF assms(1)], of t Q X] assms(2,3) by blast

lemma quiet_others: "quiet t (snd (others E t))"
  using keeps_others by (rule keepsD)

lemma wp_others [simp, wp_simps]: "wp (others E) Q X t = Q () (snd (others E t))"
  by (simp add: others_def wp_def modify_def)

lemmas others_sel [simp] = quiet_sel [OF quiet_others]

lemma wp_deregister_waiter [simp, wp_simps]:
  "wp (deregister_waiter E) Q X t =
     Q () ((snd (others E t))\<lparr>tn_token := deregister (tn_waiter (snd (others E t))) (tn_token (snd (others E t))),
             tn_waiter := None\<rparr>)"
  by (simp add: deregister_waiter_def)

section \<open>The loop ends\<close>

text \<open>
  An iteration that does not return leaves an event to deliver, or, when it ran the workflow, the
  terminal event.
\<close>

definition loop_measure :: "('k, 'd, 'w) turn \<Rightarrow> nat" where
  "loop_measure t = (if tn_delivery t \<noteq> None then 0 else case tn_state t of Running k \<Rightarrow> 2 | _ \<Rightarrow> 1)"

lemma loop_measure_simps [simp]:
  "tn_delivery t = Some d \<Longrightarrow> loop_measure t = 0"
  "tn_state t = EmitTerminal ev \<Longrightarrow> loop_measure t < 2"
  "tn_state t = Running k \<Longrightarrow> tn_delivery t = None \<Longrightarrow> loop_measure t = 2"
  "tn_delivery t = None \<Longrightarrow> 0 < loop_measure t"
  by (simp_all add: loop_measure_def split: turn_state.split)

lemma wp_ret_eta [simp]: "wp (ret a) Q X = Q a"
  by (simp add: fun_eq_iff)

lemma wp_True: "wp m (\<lambda>_ _. True) (\<lambda>_ _. True) s"
  by (simp add: wp_def split: prod.split sum.split)

lemma wp_cancel_pending_None:
  "wp (cancel_pending_delivery E) (\<lambda>r u. r = None \<longrightarrow> quiet t u) (\<lambda>_ _. True) t"
  unfolding cancel_pending_delivery_def is_cancelled_def replace_delivery_def number_event_def finish_def
  by (auto split: option.split intro: quiet_others)

lemma wp_workflow_result:
  "wp (workflow_result k r) (\<lambda>r u. r = None \<longrightarrow> (\<exists>ev. tn_state u = EmitTerminal ev)) X t"
  unfolding workflow_result_def establish_cancellation_def
  by (auto split: option.split workflow_exit.split)

lemma wp_stage [simp, wp_simps]:
  "wp (stage E p) Q X t = Q () (t\<lparr>tn_sequence := u64_saturating_add (tn_sequence t) 1,
     tn_delivery := (let ev = \<lparr>ev_session_id = tn_session_id t, ev_session_incarnation_id = tn_session_incarnation_id t,
        ev_turn_id = tn_id t, ev_sequence = tn_sequence t, ev_payload = p\<rparr> in
        Some \<lparr>pd_event = ev, pd_future = te_sink_emit E ev\<rparr>)\<rparr>)"
  by (simp add: stage_def number_event_def Let_def)

lemma wp_establish_if_observed [simp, wp_simps]:
  "wp (establish_cancellation_if_observed E) Q X t =
     (let u = snd (others E t) in
      if ct_cancelled (tn_token u) \<and> \<not> tn_terminal_seen t \<and> \<not> cancellation_deferred (tn_gate t)
      then Q True (u\<lparr>tn_terminal_seen := True, tn_locally_synthesized := True,
        tn_state := EmitTerminal (Completed StopCancelled (tn_usage t))\<rparr>)
      else Q False u)"
  by (simp add: establish_cancellation_if_observed_def establish_cancellation_def is_cancelled_def Let_def)

lemma wp_poll_workflowI:
  assumes "\<And>u g w r k'. quiet t u \<Longrightarrow> Q (r, k') (u\<lparr>tn_gate := g, tn_world := w\<rparr>)"
    and "\<And>u g w e. quiet t u \<Longrightarrow> X e (u\<lparr>tn_gate := g, tn_world := w\<rparr>)"
  shows "wp (poll_workflow E k) Q X t"
proof -
  let ?u = "snd (others E t)"
  obtain r k' g w where p: "te_workflow_poll E k (tn_token ?u) (tn_gate ?u) (tn_world ?u) = (r, k', g, w)"
    by (metis prod_cases4)
  show ?thesis
    unfolding poll_workflow_def using assms [OF quiet_others] by (simp add: p [simplified] split: sum.split)
qed

lemma wp_run_workflow_measure:
  "wp (run_workflow E k) (\<lambda>r u. r = None \<longrightarrow> loop_measure u < 2) (\<lambda>_ _. True) t"
proof -
  have res: "wp (workflow_result k' r) (\<lambda>r u. r = None \<longrightarrow> loop_measure u < 2) (\<lambda>_ _. True) u" for k' r u
    by (rule wp_mono [OF wp_workflow_result [where X = "\<lambda>_ _. True"]]) auto
  show ?thesis
    unfolding run_workflow_def wp_bindE
    by (rule wp_poll_workflowI)
      (auto simp: Let_def read_gate_def take_staged_def take_pending_def res split: option.split)
qed

lemma wp_turn_idle_measure:
  assumes "quiet t v" and "tn_delivery t = None"
  shows "wp (turn_idle E cx) (\<lambda>r u. r = None \<longrightarrow> loop_measure u < loop_measure t) (\<lambda>_ _. True) v"
  unfolding turn_idle_def advance_turn_def wp_bindE read_gate_def wp_modify wp_establish_if_observed Let_def
  using assms
  by (auto intro!: wp_quietI [OF keeps_update_cancellation_waiter]
        simp: quiet_sel Let_def wp_run_workflow_measure split: turn_state.split)

lemma turn_iteration_measure:
  assumes "turn_iteration E cx t = (Inr None, u)"
  shows "loop_measure u < loop_measure t"
proof -
  have "wp (turn_iteration E cx) (\<lambda>r u. r = None \<longrightarrow> loop_measure u < loop_measure t) (\<lambda>_ _. True) t"
    unfolding turn_iteration_def
    by (rule wp_seq [OF wp_cancel_pending_None])
      (auto simp: quiet_sel wp_turn_idle_measure intro: wp_mono [OF wp_True] split: option.split)
  then show ?thesis using assms by (simp add: wp_def)
qed

function poll_next :: "('k, 'd, 'w) turn_env \<Rightarrow> waker \<Rightarrow> ('k, 'd, 'w, stream_poll) turn_op" where
  "poll_next E cx t =
     (case turn_iteration E cx t of
        (Inl p, u) \<Rightarrow> (Inl p, u)
      | (Inr (Some r), u) \<Rightarrow> (Inr r, u)
      | (Inr None, u) \<Rightarrow> poll_next E cx u)"
  by auto
termination
  by (relation "measure (\<lambda>(E, cx, t). loop_measure t)") (auto intro: turn_iteration_measure)

declare poll_next.simps [simp del]

section \<open>The protocol of the stream\<close>

text \<open>The turn has ended: nothing runs and nothing is being delivered.\<close>

definition ended :: "('k, 'd, 'w) turn \<Rightarrow> bool" where
  "ended t \<longleftrightarrow> tn_state t = Done \<and> tn_delivery t = None"

definition released :: "('k, 'd, 'w) turn \<Rightarrow> bool" where
  "released t \<longleftrightarrow> \<not> tn_lease t \<and> \<not> tn_active_turn t \<and> \<not> tn_invocation_open t \<and> tn_admission_closed t
     \<and> ct_cancelled (tn_closed t)"

definition event_of :: "('k, 'd, 'w) turn \<Rightarrow> engine_event \<Rightarrow> bool" where
  "event_of t ev \<longleftrightarrow> ev_session_id ev = tn_session_id t \<and> ev_turn_id ev = tn_id t
     \<and> ev_session_incarnation_id ev = tn_session_incarnation_id t"

definition same_turn :: "('k, 'd, 'w) turn \<Rightarrow> ('k, 'd, 'w) turn \<Rightarrow> bool" where
  "same_turn t u \<longleftrightarrow> tn_session_id u = tn_session_id t \<and> tn_id u = tn_id t
     \<and> tn_session_incarnation_id u = tn_session_incarnation_id t"

text \<open>The invariant between two iterations, and the number of the next event that is returned.\<close>

definition turn_ok :: "('k, 'd, 'w) turn \<Rightarrow> bool" where
  "turn_ok t \<longleftrightarrow> (if ended t then released t else tn_lease t)
     \<and> (tn_state t = Done \<longrightarrow> tn_terminal_seen t)
     \<and> (\<forall>ev. tn_state t = EmitTerminal ev \<longrightarrow> is_terminal ev \<and> tn_terminal_seen t \<and> tn_delivery t = None)
     \<and> (\<forall>d. tn_delivery t = Some d \<longrightarrow> event_of t (pd_event d)
          \<and> unat (ev_sequence (pd_event d)) + 1 = unat (tn_sequence t)
          \<and> (tn_state t = Done \<longleftrightarrow> is_terminal (ev_payload (pd_event d))))"

definition number :: "('k, 'd, 'w) turn \<Rightarrow> nat" where
  "number t = (case tn_delivery t of Some d \<Rightarrow> unat (ev_sequence (pd_event d)) | None \<Rightarrow> unat (tn_sequence t))"

definition item_ok :: "('k, 'd, 'w) turn \<Rightarrow> stream_poll \<Rightarrow> ('k, 'd, 'w) turn \<Rightarrow> bool" where
  "item_ok t r u \<longleftrightarrow> same_turn t u \<and> turn_ok u \<and> number u \<le> number t + (if ended t then 0 else 2) \<and>
     (case r of
        StreamPending \<Rightarrow> \<not> ended t \<and> \<not> ended u \<and> number u = number t
      | StreamItem (Inl e) \<Rightarrow> \<not> ended t \<and> ended u \<and> tn_waiter u = None
      | StreamItem (Inr ev) \<Rightarrow> \<not> ended t \<and> event_of t ev \<and>
          (if is_terminal (ev_payload ev)
           then ended u \<and> tn_waiter u = None \<and> (unat (ev_sequence ev) = number t
             \<or> is_cancellation (ev_payload ev) \<and> unat (ev_sequence ev) = number t + 1)
           else \<not> ended u \<and> unat (ev_sequence ev) = number t \<and> number u = number t + 1)
      | StreamEnd \<Rightarrow> ended t \<and> ended u)"

lemma saturating_Suc: "unat (n :: u64) + 1 < 2 ^ 64 \<Longrightarrow> unat (u64_saturating_add n 1) = unat n + 1"
  using unat_u64_add [of n 1] by (simp add: u64_saturating_add_def)

lemma quiet_ok:
  assumes "quiet t u"
  shows "turn_ok u = turn_ok t" "ended u = ended t" "number u = number t" "same_turn t u"
    "event_of u = event_of t" "same_turn u = same_turn t"
  by (simp_all add: quiet_sel [OF assms] turn_ok_def ended_def released_def number_def same_turn_def event_of_def
      fun_eq_iff split: option.split)

lemma wp_finish [simp, wp_simps]:
  "wp (finish E) Q X t =
     (let u = snd (others E (t\<lparr>tn_invocation_open := False, tn_admission_closed := True\<rparr>)) in
      Q () (u\<lparr>tn_token := deregister (tn_waiter u) (tn_token u), tn_waiter := None, tn_state := Done,
        tn_gate := gate_clear (tn_gate t), tn_active_turn := (if tn_lease t then False else tn_active_turn t),
        tn_lease := False, tn_closed := token_cancel (tn_closed t)\<rparr>))"
  by (simp add: finish_def Let_def)

lemma token_cancel_cancelled [simp]: "ct_cancelled (token_cancel c)"
  by (simp add: token_cancel_def take_waiters_def)

lemma is_terminal_cancellation: "is_cancellation ev \<Longrightarrow> is_terminal ev"
  by (cases ev) auto

lemma wp_cancel_pending:
  assumes "turn_ok t" and "number t + 2 < 2 ^ 64"
  shows "wp (cancel_pending_delivery E)
    (\<lambda>r u. case r of None \<Rightarrow> quiet t u | Some ev \<Rightarrow> item_ok t (StreamItem (Inr ev)) u) (\<lambda>_ _. False) t"
proof -
  have rep: "wp (replace_delivery E d delivers) (\<lambda>ev. item_ok t (StreamItem (Inr ev))) (\<lambda>_ _. False) u"
    if "tn_delivery t = Some d" "delivers \<Longrightarrow> is_cancellation (ev_payload (pd_event d))" "quiet t u" for d delivers u
    unfolding replace_delivery_def number_event_def
    using assms that(1,2) quiet_sel [OF that(3)] saturating_Suc [of "tn_sequence t"]
    by (auto simp: Let_def item_ok_def turn_ok_def ended_def released_def same_turn_def event_of_def number_def
         is_terminal_cancellation)
  show ?thesis
    unfolding cancel_pending_delivery_def is_cancelled_def
    by (auto simp: delivers_cancellation_def quiet_others intro!: wp_mono [OF rep] split: option.split)
qed

lemma wp_fail_before_terminal:
  assumes "tn_lease t" and "tn_delivery t = None"
  shows "wp (fail_before_terminal E) (\<lambda>_ u. same_turn t u \<and> turn_ok u \<and> ended u \<and> tn_waiter u = None
    \<and> number u = unat (tn_sequence t)) X t"
  unfolding fail_before_terminal_def request_cancel_def
  using assms by (simp add: Let_def turn_ok_def ended_def released_def same_turn_def number_def)

lemma turn_ok_pending:
  "turn_ok t \<Longrightarrow> tn_delivery t = Some d \<Longrightarrow> tn_lease t \<and> \<not> ended t"
  by (simp add: turn_ok_def ended_def split: if_splits)

lemma wp_delivered:
  assumes "turn_ok t" and "tn_delivery t = Some d"
  shows "wp (delivered E) (item_ok t) X t"
  unfolding delivered_def
  using assms turn_ok_pending [OF assms]
  by (auto simp: Let_def item_ok_def turn_ok_def ended_def released_def same_turn_def event_of_def number_def)

lemma wp_poll_sink [simp, wp_simps]:
  "wp (poll_sink E d) Q X t = (case te_sink_poll E (pd_future d) (tn_world t) of
     (r, f, w) \<Rightarrow> Q r (t\<lparr>tn_delivery := Some (d\<lparr>pd_future := f\<rparr>), tn_world := w\<rparr>))"
  by (simp add: poll_sink_def split: prod.split)

text \<open>Two states that differ in nothing the protocol is about.\<close>

definition alike :: "('k, 'd, 'w) turn \<Rightarrow> ('k, 'd, 'w) turn \<Rightarrow> bool" where
  "alike t u \<longleftrightarrow> turn_ok u = turn_ok t \<and> ended u = ended t \<and> number u = number t \<and> same_turn t u"

lemma quiet_alike: "quiet t u \<Longrightarrow> alike t u"
  by (simp add: alike_def quiet_ok)

lemma alike_trans: "alike t u \<Longrightarrow> alike u v \<Longrightarrow> alike t v"
  by (simp add: alike_def same_turn_def)

lemma item_ok_alike: "alike t u \<Longrightarrow> item_ok u r v \<Longrightarrow> item_ok t r v"
  by (cases r) (auto simp: alike_def item_ok_def same_turn_def event_of_def split: sum.splits)

lemma alike_future:
  "tn_delivery t = Some d \<Longrightarrow> alike t (t\<lparr>tn_delivery := Some (d\<lparr>pd_future := f\<rparr>), tn_world := w\<rparr>)"
  by (simp add: alike_def turn_ok_def ended_def released_def number_def same_turn_def event_of_def)

lemma wp_cancel_alike:
  assumes "turn_ok t" and "number t + 2 < 2 ^ 64" and "alike t u"
  shows "wp (cancel_pending_delivery E)
    (\<lambda>r v. case r of Some ev \<Rightarrow> item_ok t (StreamItem (Inr ev)) v | None \<Rightarrow> quiet u v) (\<lambda>_ _. True) u"
proof (rule wp_mono [OF wp_cancel_pending])
  show "turn_ok u" "number u + 2 < 2 ^ 64" using assms unfolding alike_def by simp_all
qed (auto intro: item_ok_alike [OF assms(3)] split: option.splits)

lemma wp_settle_delivery:
  assumes "turn_ok t" and "tn_delivery t = Some d"
  shows "wp (settle_delivery E r) (item_ok t) X t"
  unfolding settle_delivery_def
  using turn_ok_pending [OF assms] assms
  by (auto simp: wp_delivered item_ok_def same_turn_def number_def turn_ok_def [of t] intro!: wp_mono [OF wp_fail_before_terminal]
      split: option.split sum.split)

lemma wp_offer_delivery:
  assumes ok: "turn_ok t" and bound: "number t + 2 < 2 ^ 64" and "tn_delivery t = Some d"
  shows "wp (offer_delivery E) (item_ok t) (\<lambda>_ _. True) t"
proof -
  obtain r f w where poll: "te_sink_poll E (pd_future d) (tn_world t) = (r, f, w)" by (metis prod_cases3)
  let ?u = "t\<lparr>tn_delivery := Some (d\<lparr>pd_future := f\<rparr>), tn_world := w\<rparr>"
  have like: "alike t ?u" using assms(3) by (rule alike_future)
  have settle: "wp (settle_delivery E r) (item_ok t) (\<lambda>_ _. True) v" if "quiet ?u v" for v
  proof (rule wp_mono [OF wp_settle_delivery])
    show "turn_ok v" "tn_delivery v = Some (d\<lparr>pd_future := f\<rparr>)"
      using like ok quiet_ok(1) [OF that] quiet_sel(6) [OF that] unfolding alike_def by simp_all
  qed (auto intro: item_ok_alike alike_trans [OF like quiet_alike [OF that]])
  show ?thesis
    unfolding offer_delivery_def wp_bindE wp_get assms(3) option.case wp_poll_sink poll prod.case
    by (rule wp_mono [OF wp_cancel_alike [OF ok bound like]]) (auto intro: settle split: option.splits)
qed

lemma wp_poll_delivery:
  assumes "turn_ok t" and "number t + 2 < 2 ^ 64" and "tn_delivery t = Some d"
  shows "wp (poll_delivery E cx) (item_ok t) (\<lambda>_ _. True) t"
proof -
  have offer: "wp (offer_delivery E) (item_ok t) (\<lambda>_ _. True) v" if "quiet t u" "quiet u v" for u v
    using wp_offer_delivery [of v d E] quiet_ok [OF quiet_trans [OF that]] quiet_sel(6) [OF quiet_trans [OF that]] assms
      item_ok_alike [OF quiet_alike [OF quiet_trans [OF that]]]
    by (auto intro: wp_mono)
  show ?thesis
    unfolding poll_delivery_def wp_bindE
    by (intro wp_quietI [OF keeps_update_cancellation_waiter] wp_mono [OF wp_cancel_alike [OF assms(1,2) quiet_alike]])
      (auto intro: offer split: option.splits)
qed

subsection \<open>Iterations\<close>

text \<open>The workflow stages no terminal event: those are made by the stream.\<close>

definition stages_events :: "('k, 'd, 'w) turn_env \<Rightarrow> bool" where
  "stages_events E \<longleftrightarrow> (\<forall>k c g w. case te_workflow_poll E k c g w of (r, k', g', w') \<Rightarrow>
     (case es_pending g' of None \<Rightarrow> True | Some s \<Rightarrow> \<not> is_terminal (se_payload s)))"

definition goes_on :: "('k, 'd, 'w) turn \<Rightarrow> ('k, 'd, 'w) turn \<Rightarrow> bool" where
  "goes_on t u \<longleftrightarrow> same_turn t u \<and> turn_ok u \<and> \<not> ended u \<and> number u = number t"

lemma wp_establish_goes_on:
  assumes "tn_lease u" "tn_delivery u = None" "same_turn t u" "number u = number t"
    and "\<And>v. goes_on t v \<Longrightarrow> Q True v" and "\<And>v. quiet u v \<Longrightarrow> Q False v"
  shows "wp (establish_cancellation_if_observed E) Q X u"
  using assms(1-4) assms(6) [OF quiet_others]
  by (auto simp: Let_def goes_on_def turn_ok_def ended_def same_turn_def number_def intro!: assms(5))

lemma wp_stage_goes_on:
  assumes "tn_lease u" "same_turn t u" "unat (tn_sequence u) = number t" "number t + 2 < 2 ^ 64"
    and "\<forall>ev. tn_state u \<noteq> EmitTerminal ev" "tn_state u = Done \<longleftrightarrow> is_terminal p" "is_terminal p \<Longrightarrow> tn_terminal_seen u"
  shows "wp (stage E p) (\<lambda>_. goes_on t) X u"
  using assms saturating_Suc [of "tn_sequence u"]
  by (auto simp: Let_def goes_on_def turn_ok_def ended_def same_turn_def event_of_def number_def)

lemma wp_poll_workflow_events:
  assumes "stages_events E"
    and "\<And>u g w r k'. quiet t u \<Longrightarrow> (\<And>s. es_pending g = Some s \<Longrightarrow> \<not> is_terminal (se_payload s)) \<Longrightarrow>
      Q (r, k') (u\<lparr>tn_gate := g, tn_world := w\<rparr>)"
  shows "wp (poll_workflow E k) Q (\<lambda>_ _. True) t"
proof -
  let ?u = "snd (others E t)"
  obtain r k' g w where p: "te_workflow_poll E k (tn_token ?u) (tn_gate ?u) (tn_world ?u) = (r, k', g, w)"
    by (metis prod_cases4)
  have "\<not> is_terminal (se_payload s)" if "es_pending g = Some s" for s
    using assms(1) [unfolded stages_events_def, rule_format, of k "tn_token ?u" "tn_gate ?u" "tn_world ?u"] that
    unfolding p by simp
  then show ?thesis
    unfolding poll_workflow_def using assms(2) [OF quiet_others] by (simp add: p [simplified] split: sum.split)
qed

lemma wp_workflow_result_goes_on:
  assumes "tn_lease t" and "tn_delivery t = None"
  shows "wp (workflow_result k r) (\<lambda>r u. (r = None \<or> r = Some StreamPending) \<and> goes_on t u) X t"
  using assms unfolding workflow_result_def establish_cancellation_def
  by (auto simp: goes_on_def turn_ok_def ended_def same_turn_def number_def failure_into_event_def
      split: option.split workflow_exit.split)

lemma wp_run_workflow:
  assumes "stages_events E" and "tn_lease t" and "tn_delivery t = None" and "number t + 2 < 2 ^ 64"
  shows "wp (run_workflow E k) (\<lambda>r u. (r = None \<or> r = Some StreamPending) \<and> goes_on t u) (\<lambda>_ _. True) t"
proof -
  have result: "wp (workflow_result k' r) (\<lambda>r u. (r = None \<or> r = Some StreamPending) \<and> goes_on t u) (\<lambda>_ _. True) v"
    if "tn_lease v" "tn_delivery v = None" "same_turn t v" "number v = number t" for k' r v
    by (rule wp_mono [OF wp_workflow_result_goes_on [OF that(1,2), where X = "\<lambda>_ _. True"]])
      (use that in \<open>auto simp: goes_on_def same_turn_def\<close>)
  have stage: "wp (stage E p) (\<lambda>_ u. goes_on t u) (\<lambda>_ _. True) v"
    if "tn_lease v" "same_turn t v" "tn_sequence v = tn_sequence t" "tn_state v = Running k'" "\<not> is_terminal p" for p v k'
    by (rule wp_stage_goes_on) (use that assms(3,4) in \<open>auto simp: number_def\<close>)
  show ?thesis
    unfolding run_workflow_def wp_bindE
    by (rule wp_poll_workflow_events [OF assms(1)])
      (auto simp: read_gate_def take_staged_def take_pending_def quiet_sel assms(2,3) same_turn_def number_def
        simp del: wp_establish_if_observed wp_stage
        intro!: wp_establish_goes_on result wp_mono [OF stage] split: option.split)
qed

definition iteration_ok :: "('k, 'd, 'w) turn \<Rightarrow> stream_poll option \<Rightarrow> ('k, 'd, 'w) turn \<Rightarrow> bool" where
  "iteration_ok t r u = (case r of None \<Rightarrow> \<not> ended t \<and> goes_on t u | Some r \<Rightarrow> item_ok t r u)"

lemma wp_advance_turn:
  assumes "stages_events E" and ok: "turn_ok t" and delivery: "tn_delivery t = None" and bound: "number t + 2 < 2 ^ 64"
  shows "wp (advance_turn E) (iteration_ok t) (\<lambda>_ _. True) t"
proof (cases "tn_state t")
  case (Running k)
  then have live: "\<not> ended t" "tn_lease t" using ok by (auto simp: ended_def turn_ok_def)
  have "wp (run_workflow E k) (iteration_ok t) (\<lambda>_ _. True) (t\<lparr>tn_state := Done\<rparr>)"
    by (rule wp_mono [OF wp_run_workflow [OF assms(1)]])
      (use live delivery bound in \<open>auto simp: goes_on_def item_ok_def number_def same_turn_def iteration_ok_def\<close>)
  then show ?thesis by (simp add: advance_turn_def Running)
next
  case (EmitTerminal ev)
  then have "tn_lease t" "is_terminal ev" "tn_terminal_seen t" using ok by (auto simp: ended_def turn_ok_def)
  then have "wp (stage E ev) (\<lambda>_. goes_on t) (\<lambda>_ _. True) (t\<lparr>tn_state := Done\<rparr>)"
    by (intro wp_stage_goes_on) (use delivery bound in \<open>auto simp: number_def same_turn_def\<close>)
  then show ?thesis
    by (simp add: advance_turn_def EmitTerminal iteration_ok_def ended_def del: wp_stage)
next
  case Done
  then show ?thesis
    using ok delivery
    by (simp add: advance_turn_def iteration_ok_def item_ok_def ended_def same_turn_def turn_ok_def released_def number_def)
qed

lemma iteration_ok_alike: "alike t u \<Longrightarrow> iteration_ok u r v \<Longrightarrow> iteration_ok t r v"
  by (auto simp: iteration_ok_def goes_on_def intro: item_ok_alike split: option.splits)
    (auto simp: alike_def same_turn_def)

lemma wp_turn_idle:
  assumes "stages_events E" and ok: "turn_ok t" and delivery: "tn_delivery t = None" and bound: "number t + 2 < 2 ^ 64"
  shows "wp (turn_idle E cx) (iteration_ok t) (\<lambda>_ _. True) t"
proof -
  have advance: "wp (advance_turn E) (iteration_ok t) (\<lambda>_ _. True) v"
    if "alike t u" "tn_delivery u = None" "quiet u v" for u v
    using wp_advance_turn [OF assms(1), of v] iteration_ok_alike [OF alike_trans [OF that(1) quiet_alike [OF that(3)]]]
      that(1,2) ok bound quiet_sel(6) [OF that(3)] quiet_ok [OF that(3)]
    by (auto simp: alike_def intro: wp_mono)
  let ?u = "t\<lparr>tn_usage := es_usage (tn_gate t), tn_terminal_seen := tn_terminal_seen t \<or> es_terminal_established (tn_gate t)\<rparr>"
  have read: "alike t ?u"
    using ok delivery by (auto simp: alike_def turn_ok_def ended_def released_def number_def same_turn_def event_of_def)
  have est: "alike t (v\<lparr>tn_terminal_seen := True, tn_locally_synthesized := True, tn_state := EmitTerminal (Completed StopCancelled x)\<rparr>)"
    if "quiet ?u v" "\<not> tn_terminal_seen ?u" for v x
    using that(2) ok delivery quiet_sel [OF that(1)]
    by (auto simp: alike_def turn_ok_def ended_def released_def number_def same_turn_def event_of_def split: if_splits)
  show ?thesis
    unfolding turn_idle_def read_gate_def wp_bindE wp_modify wp_establish_if_observed Let_def
    using est [OF quiet_others] alike_trans [OF read quiet_alike [OF quiet_others]] delivery
    by (auto intro!: wp_quietI [OF keeps_update_cancellation_waiter] advance)
qed

text \<open>Every iteration that does not panic keeps the invariant, and what it returns follows the protocol.\<close>

lemma wp_turn_iteration:
  assumes "stages_events E" and "turn_ok t" and "number t + 2 < 2 ^ 64"
  shows "wp (turn_iteration E cx) (iteration_ok t) (\<lambda>_ _. True) t"
proof -
  have next_step: "wp (bindE (get (\<lambda>t. tn_delivery t \<noteq> None)) (\<lambda>pending.
        if pending then bindE (poll_delivery E cx) (\<lambda>r. ret (Some r)) else turn_idle E cx))
      (iteration_ok t) (\<lambda>_ _. True) u" if "quiet t u" for u
  proof -
    have "wp (poll_delivery E cx) (\<lambda>r. iteration_ok t (Some r)) (\<lambda>_ _. True) u" if "tn_delivery u = Some d" for d
      by (rule wp_mono [OF wp_poll_delivery])
        (use that \<open>quiet t u\<close> assms in \<open>auto simp: iteration_ok_def quiet_ok intro: item_ok_alike quiet_alike\<close>)
    moreover have "wp (turn_idle E cx) (iteration_ok t) (\<lambda>_ _. True) u" if "tn_delivery u = None"
      by (rule wp_mono [OF wp_turn_idle])
        (use that \<open>quiet t u\<close> assms in \<open>auto simp: quiet_ok intro: iteration_ok_alike quiet_alike\<close>)
    ultimately show ?thesis by (cases "tn_delivery u") auto
  qed
  show ?thesis
    unfolding turn_iteration_def wp_bindE [of "cancel_pending_delivery E"]
    by (rule wp_mono [OF wp_cancel_pending [OF assms(2,3)]])
      (auto simp: iteration_ok_def simp del: wp_bindE not_None_eq intro: next_step split: option.splits)
qed

lemma item_ok_goes_on: "goes_on t u \<Longrightarrow> \<not> ended t \<Longrightarrow> item_ok u r v \<Longrightarrow> item_ok t r v"
  by (cases r) (auto simp: goes_on_def item_ok_def same_turn_def event_of_def split: sum.splits)

lemma wp_poll_next:
  "stages_events E \<Longrightarrow> turn_ok t \<Longrightarrow> number t + 2 < 2 ^ 64 \<Longrightarrow> wp (poll_next E cx) (item_ok t) (\<lambda>_ _. True) t"
proof (induction E cx t rule: poll_next.induct)
  case (1 E cx t)
  have it: "wp (turn_iteration E cx) (iteration_ok t) (\<lambda>_ _. True) t"
    using 1(2-4) by (rule wp_turn_iteration)
  obtain r u where run: "turn_iteration E cx t = (r, u)" by fastforce
  show ?case
  proof (cases r)
    case (Inr p)
    show ?thesis
    proof (cases p)
      case None
      have on: "goes_on t u" "\<not> ended t" using it run Inr None by (simp_all add: wp_def iteration_ok_def)
      moreover have "wp (poll_next E cx) (item_ok u) (\<lambda>_ _. True) u"
        using 1(1) [OF run [symmetric] Inr None 1(2)] on 1(4) by (simp add: goes_on_def)
      ultimately show ?thesis
        using run Inr None item_ok_goes_on [OF on] by (auto simp: wp_def poll_next.simps [of E cx t] split: prod.splits sum.splits)
    qed (use it run Inr in \<open>simp add: wp_def poll_next.simps iteration_ok_def\<close>)
  qed (use run in \<open>simp add: wp_def poll_next.simps\<close>)
qed

subsection \<open>Polling repeatedly\<close>

fun polls :: "('k, 'd, 'w) turn_env \<Rightarrow> waker \<Rightarrow> nat \<Rightarrow> ('k, 'd, 'w, stream_poll list) turn_op" where
  "polls E cx 0 = ret []"
| "polls E cx (Suc n) = bindE (poll_next E cx) (\<lambda>r. bindE (polls E cx n) (\<lambda>rs. ret (r # rs)))"

text \<open>
  The results a consumer may see: events numbered consecutively, then one terminal event or error,
  then nothing; only a cancellation may skip the number of the event it replaced.
\<close>

fun stream_ok :: "('k, 'd, 'w) turn \<Rightarrow> nat \<Rightarrow> stream_poll list \<Rightarrow> bool" where
  "stream_ok t n [] = True"
| "stream_ok t n (StreamPending # rs) = stream_ok t n rs"
| "stream_ok t n (StreamItem (Inl e) # rs) = list_all (\<lambda>r. r = StreamEnd) rs"
| "stream_ok t n (StreamItem (Inr ev) # rs) = (event_of t ev \<and>
     (if is_terminal (ev_payload ev)
      then (unat (ev_sequence ev) = n \<or> is_cancellation (ev_payload ev) \<and> unat (ev_sequence ev) = n + 1)
        \<and> list_all (\<lambda>r. r = StreamEnd) rs
      else unat (ev_sequence ev) = n \<and> stream_ok t (n + 1) rs))"
| "stream_ok t n (StreamEnd # rs) = False"

fun ends_stream :: "stream_poll \<Rightarrow> bool" where
  "ends_stream (StreamItem (Inl e)) = True"
| "ends_stream (StreamItem (Inr ev)) = is_terminal (ev_payload ev)"
| "ends_stream r = False"

lemma stream_ok_same_turn: "same_turn t u \<Longrightarrow> stream_ok u n rs = stream_ok t n rs"
  by (induction t n rs rule: stream_ok.induct) (auto simp: same_turn_def event_of_def)

definition results_ok :: "('k, 'd, 'w) turn \<Rightarrow> stream_poll list \<Rightarrow> ('k, 'd, 'w) turn \<Rightarrow> bool" where
  "results_ok t rs u \<longleftrightarrow> turn_ok u \<and>
     (if ended t then ended u \<and> list_all (\<lambda>r. r = StreamEnd) rs
      else stream_ok t (number t) rs \<and> (ended u \<longleftrightarrow> list_ex ends_stream rs))"

lemma results_ok_step:
  assumes "item_ok t r u" and "results_ok u rs v"
  shows "results_ok t (r # rs) v"
  using assms
  by (cases r) (auto simp: results_ok_def item_ok_def stream_ok_same_turn [of t u] list_all_iff list_ex_iff split: sum.splits if_splits)

lemma wp_polls:
  assumes "stages_events E"
  shows "turn_ok t \<Longrightarrow> number t + n + (if ended t then 2 else 4) < 2 ^ 64 \<Longrightarrow>
    wp (polls E cx n) (results_ok t) (\<lambda>_ _. True) t"
proof (induction n arbitrary: t)
  case 0
  then show ?case by (simp add: results_ok_def)
next
  case (Suc n)
  have "wp (poll_next E cx) (item_ok t) (\<lambda>_ _. True) t"
    using Suc.prems by (intro wp_poll_next assms) (auto split: if_splits)
  moreover have "wp (polls E cx n) (\<lambda>rs. results_ok t (r # rs)) (\<lambda>_ _. True) u" if u: "item_ok t r u" for r u
  proof (rule wp_mono [OF Suc.IH])
    show "turn_ok u" "number u + n + (if ended u then 2 else 4) < 2 ^ 64"
      using u Suc.prems by (auto simp: item_ok_def split: if_splits stream_poll.splits sum.splits)
  qed (auto intro: results_ok_step [OF u])
  ultimately show ?case by (auto intro: wp_mono)
qed

end
