(* ===== verification/Turn_Delivery.thy ===== *)
theory Turn_Delivery
  imports Turn_Stream "HOL-Library.Code_Target_Numeral"
begin

text \<open>
  Two consequences of the protocol of \<open>Turn_Stream\<close>. A cancelled turn is answered by the poll that
  sees the cancellation, whatever its workflow and its sink would do; and without a cancellation the
  consumer gets every event the workflow emits, in order, and then how it ended.
\<close>

section \<open>Cancellation is answered at once\<close>

lemma bindE_eqI:
  assumes "wp m (\<lambda>a u. f a u = g a u) (\<lambda>_ _. True) s"
  shows "bindE m f s = bindE m g s"
  using assms by (simp add: wp_def bindE_def split: prod.splits sum.splits)

text \<open>
  What stays the same when the workflow and the sink of a turn are replaced.
\<close>

definition with_hosts ::
  "('k, 'd, 'w) turn_env \<Rightarrow> ('k \<Rightarrow> cancellation \<Rightarrow> emission_state \<Rightarrow> 'w \<Rightarrow>
      (panic, workflow_exit option) result \<times> 'k \<times> emission_state \<times> 'w) \<Rightarrow>
    ('d \<Rightarrow> 'w \<Rightarrow> (event_sink_error, unit) result option \<times> 'd \<times> 'w) \<Rightarrow> ('k, 'd, 'w) turn_env" where
  "with_hosts E p q = E\<lparr>te_workflow_poll := p, te_sink_poll := q\<rparr>"

lemma with_hosts_ops [simp]:
  "others (with_hosts E p q) = others E" "is_cancelled (with_hosts E p q) = is_cancelled E"
  "deregister_waiter (with_hosts E p q) = deregister_waiter E" "finish (with_hosts E p q) = finish E"
  "replace_delivery (with_hosts E p q) = replace_delivery E"
  "cancel_pending_delivery (with_hosts E p q) = cancel_pending_delivery E"
  "update_cancellation_waiter (with_hosts E p q) = update_cancellation_waiter E"
  "establish_cancellation_if_observed (with_hosts E p q) = establish_cancellation_if_observed E"
  "stage (with_hosts E p q) = stage E"
proof -
  show o: "others (with_hosts E p q) = others E" by (simp add: others_def with_hosts_def)
  show c: "is_cancelled (with_hosts E p q) = is_cancelled E" by (simp add: is_cancelled_def o)
  show d: "deregister_waiter (with_hosts E p q) = deregister_waiter E" by (simp add: deregister_waiter_def o)
  show f: "finish (with_hosts E p q) = finish E" by (simp add: finish_def d)
  show r: "replace_delivery (with_hosts E p q) = replace_delivery E" by (simp add: replace_delivery_def f fun_eq_iff)
  show "cancel_pending_delivery (with_hosts E p q) = cancel_pending_delivery E"
    unfolding cancel_pending_delivery_def c r ..
  show "update_cancellation_waiter (with_hosts E p q) = update_cancellation_waiter E"
    by (rule ext, unfold update_cancellation_waiter_def register_waiter_def insert_turn_waiter_def c d o, rule refl)
  show "establish_cancellation_if_observed (with_hosts E p q) = establish_cancellation_if_observed E"
    by (simp add: establish_cancellation_if_observed_def c)
  show "stage (with_hosts E p q) = stage E" by (simp add: stage_def with_hosts_def fun_eq_iff)
qed

text \<open>A token stays cancelled.\<close>

definition cancels_for_good :: "('k, 'd, 'w) turn_env \<Rightarrow> bool" where
  "cancels_for_good E \<longleftrightarrow> (\<forall>c w. ct_cancelled c \<longrightarrow> ct_cancelled (fst (te_others E c w)))"

lemma cancelled_others [simp]:
  "cancels_for_good E \<Longrightarrow> ct_cancelled (tn_token t) \<Longrightarrow> ct_cancelled (tn_token (snd (others E t)))"
  by (auto simp: cancels_for_good_def others_def modify_def split: prod.split) (metis fst_conv)

text \<open>A turn that has to stop: cancelled, with nothing that holds the cancellation back.\<close>

definition must_stop :: "('k, 'd, 'w) turn \<Rightarrow> bool" where
  "must_stop t \<longleftrightarrow> ct_cancelled (tn_token t) \<and> \<not> cancellation_deferred (tn_gate t) \<and> \<not> tn_terminal_seen t
     \<and> \<not> es_terminal_established (tn_gate t)"

definition stopped_by :: "stream_poll \<Rightarrow> ('k, 'd, 'w) turn \<Rightarrow> bool" where
  "stopped_by r u \<longleftrightarrow> (\<exists>ev. r = StreamItem (Inr ev) \<and> is_cancellation (ev_payload ev)) \<and> ended u \<and> released u"

lemma wp_cancel_pending_stops:
  assumes "cancels_for_good E" and "ct_cancelled (tn_token t)" and "\<not> cancellation_deferred (tn_gate t)"
    and "tn_delivery t = Some d" and "tn_lease t" and "tn_terminal_seen t \<longrightarrow> delivers_cancellation t"
  shows "wp (cancel_pending_delivery E)
    (\<lambda>r u. \<exists>ev. r = Some ev \<and> stopped_by (StreamItem (Inr ev)) u) (\<lambda>_ _. False) t"
  using assms
  by (auto simp: cancel_pending_delivery_def is_cancelled_def replace_delivery_def number_event_def Let_def
      stopped_by_def ended_def released_def delivers_cancellation_def)

lemma turn_iteration_stops:
  assumes "cancels_for_good E" and "ct_cancelled (tn_token t)" and "\<not> cancellation_deferred (tn_gate t)"
    and "tn_delivery t = Some d" and "tn_lease t" and "tn_terminal_seen t \<longrightarrow> delivers_cancellation t"
  shows "\<exists>r u. \<forall>p q. turn_iteration (with_hosts E p q) cx t = (Inr (Some r), u) \<and> stopped_by r u"
proof -
  obtain ev u where "cancel_pending_delivery E t = (Inr (Some ev), u)" "stopped_by (StreamItem (Inr ev)) u"
    using wp_cancel_pending_stops [OF assms] by (auto simp: wp_def split: prod.splits sum.splits)
  then show ?thesis by (auto simp: turn_iteration_def bindE_def ret_def)
qed

lemma poll_next_stops_pending:
  assumes "cancels_for_good E" and "ct_cancelled (tn_token t)" and "\<not> cancellation_deferred (tn_gate t)"
    and "tn_delivery t = Some d" and "tn_lease t" and "tn_terminal_seen t \<longrightarrow> delivers_cancellation t"
  shows "\<exists>r u. \<forall>p q. poll_next (with_hosts E p q) cx t = (Inr r, u) \<and> stopped_by r u"
proof -
  obtain r u where "\<And>p q. turn_iteration (with_hosts E p q) cx t = (Inr (Some r), u)" "stopped_by r u"
    using turn_iteration_stops [OF assms, of cx] by blast
  then show ?thesis by (auto simp: poll_next.simps)
qed

text \<open>With nothing to deliver, the first iteration stages the cancellation and the second one returns it.\<close>

lemma wp_deregisters:
  assumes "tn_terminal_seen t"
  shows "wp (update_cancellation_waiter E cx) Q X t = wp (deregister_waiter E) Q X t"
  using assms by (simp add: update_cancellation_waiter_def del: wp_deregister_waiter)

lemma wp_iteration_stages:
  assumes "cancels_for_good E" and "must_stop t" and "turn_ok t" and "tn_delivery t = None"
  shows "wp (turn_iteration E cx) (\<lambda>r u. r = None \<and> ct_cancelled (tn_token u) \<and> \<not> cancellation_deferred (tn_gate u)
      \<and> (\<exists>d. tn_delivery u = Some d) \<and> tn_lease u \<and> delivers_cancellation u) (\<lambda>_ _. False) t"
  using assms
  by (simp add: turn_iteration_def cancel_pending_delivery_def is_cancelled_def turn_idle_def read_gate_def must_stop_def
      Let_def wp_deregisters advance_turn_def delivers_cancellation_def turn_ok_def ended_def)

lemma turn_iteration_same:
  assumes "cancels_for_good E" and "must_stop t" and "turn_ok t" and "tn_delivery t = None"
  shows "turn_iteration (with_hosts E p q) cx t = turn_iteration E cx t"
proof -
  have advance: "advance_turn (with_hosts E p q) u = advance_turn E u" if "tn_state u = EmitTerminal ev" for u ev
    using that by (simp add: advance_turn_def bindE_def get_def modify_def)
  have idle: "turn_idle (with_hosts E p q) cx u = turn_idle E cx u" if "must_stop u" for u
    unfolding turn_idle_def with_hosts_ops
    by (intro bindE_eqI, simp add: read_gate_def, intro bindE_eqI)
      (use assms(1) that in \<open>auto simp: must_stop_def Let_def wp_deregisters advance intro!: bindE_eqI\<close>)
  have "must_stop (snd (others E t))" using assms(1,2) by (simp add: must_stop_def)
  then show ?thesis
    unfolding turn_iteration_def with_hosts_ops
    by (intro bindE_eqI)
      (use assms in \<open>simp add: cancel_pending_delivery_def is_cancelled_def must_stop_def bindE_def get_def idle\<close>)
qed

text \<open>The result of the poll is the same whatever the workflow and the sink would do.\<close>

lemma poll_next_stops:
  assumes "cancels_for_good E" and "must_stop t" and "turn_ok t"
  shows "\<exists>r u. stopped_by r u \<and> (\<forall>p q. poll_next (with_hosts E p q) cx t = (Inr r, u))"
proof (cases "tn_delivery t")
  case (Some d)
  then show ?thesis
    using poll_next_stops_pending [OF assms(1) _ _ Some, of cx] assms(2) turn_ok_pending [OF assms(3) Some]
    unfolding must_stop_def by blast
next
  case None
  obtain u where it: "turn_iteration E cx t = (Inr None, u)"
    and u: "ct_cancelled (tn_token u)" "\<not> cancellation_deferred (tn_gate u)" "\<exists>d. tn_delivery u = Some d" "tn_lease u"
      "delivers_cancellation u"
    using wp_iteration_stages [OF assms None, of cx] by (auto simp: wp_def split: prod.splits sum.splits)
  then have "poll_next (with_hosts E p q) cx t = poll_next (with_hosts E p q) cx u" for p q
    using turn_iteration_same [OF assms None, of p q cx] by (simp add: poll_next.simps [of _ _ t])
  then show ?thesis using poll_next_stops_pending [OF assms(1) u(1,2) _ u(4), of _ cx] u(3,5) by auto
qed

section \<open>A workflow that is left alone\<close>

text \<open>
  What a workflow does to the emission gate on its way to its exit (the operations of
  \<open>TurnEmitter\<close>), with the other awaits on which it was pending.
\<close>

datatype emitter_step =
    DoEmit turn_event bool
  | DoSetUsage token_usage
  | DoEstablishTerminal
  | DoDefer
  | DoRelease
  | DoWait

record script =
  sc_emitting :: "emit_future option"
  sc_steps :: "emitter_step list"
  sc_exit :: workflow_exit

fun run_steps :: "workflow_exit \<Rightarrow> emitter_step list \<Rightarrow> emission_state \<Rightarrow>
    (panic, workflow_exit option) result \<times> script \<times> emission_state" where
  "run_steps exit [] g = (Inr (Some exit), \<lparr>sc_emitting = None, sc_steps = [], sc_exit = exit\<rparr>, g)"
| "run_steps exit (DoEmit ev b # ss) g =
     (case emit_poll (emit_new ev b) g of
        Inl p \<Rightarrow> (Inl p, \<lparr>sc_emitting = None, sc_steps = ss, sc_exit = exit\<rparr>, g)
      | Inr (True, f, g') \<Rightarrow> run_steps exit ss g'
      | Inr (False, f, g') \<Rightarrow> (Inr None, \<lparr>sc_emitting = Some f, sc_steps = ss, sc_exit = exit\<rparr>, g'))"
| "run_steps exit (DoSetUsage u # ss) g = run_steps exit ss (g\<lparr>es_usage := u\<rparr>)"
| "run_steps exit (DoEstablishTerminal # ss) g = run_steps exit ss (g\<lparr>es_terminal_established := True\<rparr>)"
| "run_steps exit (DoDefer # ss) g =
     run_steps exit ss (g\<lparr>es_cancellation_deferrals := es_cancellation_deferrals g + 1\<rparr>)"
| "run_steps exit (DoRelease # ss) g =
     run_steps exit ss (g\<lparr>es_cancellation_deferrals := es_cancellation_deferrals g - 1\<rparr>)"
| "run_steps exit (DoWait # ss) g = (Inr None, \<lparr>sc_emitting = None, sc_steps = ss, sc_exit = exit\<rparr>, g)"

definition script_poll :: "script \<Rightarrow> emission_state \<Rightarrow>
    (panic, workflow_exit option) result \<times> script \<times> emission_state" where
  "script_poll k g =
     (case sc_emitting k of
        None \<Rightarrow> run_steps (sc_exit k) (sc_steps k) g
      | Some f \<Rightarrow>
          (case emit_poll f g of
             Inl p \<Rightarrow> (Inl p, k, g)
           | Inr (True, f', g') \<Rightarrow> run_steps (sc_exit k) (sc_steps k) g'
           | Inr (False, f', g') \<Rightarrow> (Inr None, k\<lparr>sc_emitting := Some f'\<rparr>, g')))"

text \<open>A sink that takes each event after a number of polls, and no other user of the token.\<close>

definition script_env :: "(engine_event \<Rightarrow> nat) \<Rightarrow> (script, nat, unit) turn_env" where
  "script_env delay = \<lparr>te_others = Pair,
     te_workflow_poll = (\<lambda>k c g w. case script_poll k g of (r, k', g') \<Rightarrow> (r, k', g', w)),
     te_sink_emit = delay,
     te_sink_poll = (\<lambda>n w. case n of 0 \<Rightarrow> (Some (Inr ()), 0, w) | Suc m \<Rightarrow> (None, m, w))\<rparr>"

fun emissions :: "emitter_step list \<Rightarrow> turn_event list" where
  "emissions [] = []"
| "emissions (DoEmit ev b # ss) = ev # emissions ss"
| "emissions (_ # ss) = emissions ss"

fun exit_event :: "workflow_exit \<Rightarrow> token_usage \<Rightarrow> turn_event" where
  "exit_event (ExitCompleted r u) _ = Completed r u"
| "exit_event (ExitFailed f) _ = failure_into_event f"
| "exit_event ExitCancelled u = Completed StopCancelled u"

text \<open>The usage the gate holds after the steps.\<close>

fun last_usage :: "emitter_step list \<Rightarrow> token_usage \<Rightarrow> token_usage" where
  "last_usage [] u = u"
| "last_usage (DoSetUsage v # ss) u = last_usage ss v"
| "last_usage (_ # ss) u = last_usage ss u"

text \<open>The events a consumer gets out of its polls.\<close>

definition items :: "stream_poll list \<Rightarrow> engine_event list" where
  "items rs = concat (map (\<lambda>r. case r of StreamItem (Inr ev) \<Rightarrow> [ev] | _ \<Rightarrow> []) rs)"

subsection \<open>One poll of the workflow\<close>

definition fresh_gate :: "emission_state \<Rightarrow> bool" where
  "fresh_gate g \<longleftrightarrow> es_pending g = None \<and> \<not> es_acknowledged g"

lemma run_steps_cases:
  assumes "fresh_gate g"
  obtains (emits) ev b ss g' where
      "run_steps exit steps g = (Inr None, \<lparr>sc_emitting = Some \<lparr>ef_event = None, ef_staged = True\<rparr>, sc_steps = ss, sc_exit = exit\<rparr>,
         g'\<lparr>es_pending := Some \<lparr>se_payload = ev, se_establishes_terminal = b\<rparr>\<rparr>)"
      "emissions steps = ev # emissions ss" "last_usage steps (es_usage g) = last_usage ss (es_usage g')"
      "fresh_gate g'" "length ss < length steps" "DoEmit ev b \<in> set steps" "set ss \<subseteq> set steps"
    | (waits) ss g' where
      "run_steps exit steps g = (Inr None, \<lparr>sc_emitting = None, sc_steps = ss, sc_exit = exit\<rparr>, g')"
      "emissions steps = emissions ss" "last_usage steps (es_usage g) = last_usage ss (es_usage g')"
      "fresh_gate g'" "length ss < length steps" "set ss \<subseteq> set steps"
    | (exits) g' where
      "run_steps exit steps g = (Inr (Some exit), \<lparr>sc_emitting = None, sc_steps = [], sc_exit = exit\<rparr>, g')"
      "emissions steps = []" "es_usage g' = last_usage steps (es_usage g)" "fresh_gate g'"
proof -
  have "(\<exists>ev b ss g'. run_steps exit steps g =
          (Inr None, \<lparr>sc_emitting = Some \<lparr>ef_event = None, ef_staged = True\<rparr>, sc_steps = ss, sc_exit = exit\<rparr>,
           g'\<lparr>es_pending := Some \<lparr>se_payload = ev, se_establishes_terminal = b\<rparr>\<rparr>)
        \<and> emissions steps = ev # emissions ss \<and> last_usage steps (es_usage g) = last_usage ss (es_usage g')
        \<and> fresh_gate g' \<and> length ss < length steps \<and> DoEmit ev b \<in> set steps \<and> set ss \<subseteq> set steps)
    \<or> (\<exists>ss g'. run_steps exit steps g = (Inr None, \<lparr>sc_emitting = None, sc_steps = ss, sc_exit = exit\<rparr>, g')
        \<and> emissions steps = emissions ss \<and> last_usage steps (es_usage g) = last_usage ss (es_usage g')
        \<and> fresh_gate g' \<and> length ss < length steps \<and> set ss \<subseteq> set steps)
    \<or> (\<exists>g'. run_steps exit steps g = (Inr (Some exit), \<lparr>sc_emitting = None, sc_steps = [], sc_exit = exit\<rparr>, g')
        \<and> emissions steps = [] \<and> es_usage g' = last_usage steps (es_usage g) \<and> fresh_gate g')"
    (is "?P steps g")
    using assms
  proof (induction exit steps g rule: run_steps.induct)
    case (2 exit ev b ss g)
    then show ?case by (force simp: emit_poll_def emit_new_def fresh_gate_def)
  qed (fastforce simp: fresh_gate_def)+
  then show ?thesis
    by (elim disjE exE conjE) (rule emits, assumption+, rule waits, assumption+, rule exits, assumption+)
qed

subsection \<open>A token nobody else uses\<close>

definition calm :: "waker \<Rightarrow> ('k, 'd, 'w) turn \<Rightarrow> bool" where
  "calm cx t \<longleftrightarrow> \<not> ct_cancelled (tn_token t)
     \<and> wr_waiters (ct_registry (tn_token t)) = (case tn_waiter t of None \<Rightarrow> [] | Some i \<Rightarrow> [(i, cx)])"

lemma script_env_sel [simp]:
  "snd (others (script_env delay) t) = t" "te_sink_emit (script_env delay) = delay"
  by (simp_all add: script_env_def others_def modify_def)

lemma insert_waiter_calm:
  assumes "wr_waiters r = (case wid of None \<Rightarrow> [] | Some i \<Rightarrow> [(i, cx)])"
  obtains i r' where "insert_waiter wid cx r = Some (i, r')" "wr_waiters r' = [(i, cx)]"
proof (cases wid)
  case None
  then obtain i r' where "vacant_id r = Some (i, r')"
    using vacant_id_None [of r] assms by (cases "vacant_id r") auto
  then show ?thesis
    using vacant_id_Some [of r i r'] None assms
    by (intro that [of i "r'\<lparr>wr_waiters := [(i, cx)]\<rparr>"]) (auto simp: insert_waiter_def)
next
  case (Some i)
  then show ?thesis using assms by (intro that [of i r]) (auto simp: insert_waiter_def bt_lookup_def)
qed

lemma wp_update_waiter_calm:
  assumes "calm cx t"
  shows "wp (update_cancellation_waiter (script_env delay) cx) (\<lambda>_ u. quiet t u \<and> calm cx u) (\<lambda>_ _. False) t"
proof -
  obtain i r where "insert_waiter (tn_waiter t) cx (ct_registry (tn_token t)) = Some (i, r)" "wr_waiters r = [(i, cx)]"
    using insert_waiter_calm [where r = "ct_registry (tn_token t)" and wid = "tn_waiter t" and cx = cx] assms unfolding calm_def by blast
  then show ?thesis
    using assms
    by (simp add: update_cancellation_waiter_def register_waiter_def insert_turn_waiter_def is_cancelled_def calm_def
        quiet_update deregister_def bt_remove_def split: option.splits)
qed

lemma wp_cancel_pending_calm [simp]:
  "\<not> ct_cancelled (tn_token t) \<Longrightarrow> wp (cancel_pending_delivery (script_env delay)) Q X t = Q None t"
  by (simp add: cancel_pending_delivery_def is_cancelled_def)

lemma calm_deregister: "calm cx t \<Longrightarrow>
  calm cx (t\<lparr>tn_token := deregister (tn_waiter t) (tn_token t), tn_waiter := None\<rparr>)"
  by (simp add: calm_def deregister_def bt_remove_def split: option.splits)

subsection \<open>Delivery of one event\<close>

definition after_delivery :: "waker \<Rightarrow> ('k, 'd, 'w) turn \<Rightarrow> engine_event \<Rightarrow> ('k, 'd, 'w) turn \<Rightarrow> bool" where
  "after_delivery cx t ev u \<longleftrightarrow>
     (if is_terminal (ev_payload ev) then ended u \<and> released u
      else quiet (t\<lparr>tn_delivery := None, tn_gate := acknowledge (tn_gate t)\<rparr>) u \<and> calm cx u)"

lemma quiet_acknowledge:
  assumes "quiet (t\<lparr>tn_delivery := d\<rparr>) u" and "quiet (u\<lparr>tn_delivery := None, tn_gate := acknowledge (tn_gate u)\<rparr>) v"
  shows "quiet (t\<lparr>tn_delivery := None, tn_gate := acknowledge (tn_gate t)\<rparr>) v"
  unfolding quiet_def by (rule turn.equality) (simp_all add: quiet_sel [OF assms(1)] quiet_sel [OF assms(2)])

lemma after_delivery_quiet:
  "quiet (t\<lparr>tn_delivery := d\<rparr>) u \<Longrightarrow> after_delivery cx u ev v \<Longrightarrow> after_delivery cx t ev v"
  by (auto simp: after_delivery_def intro: quiet_acknowledge split: if_splits)

lemma quiet_deliver:
  assumes "quiet t u" shows "quiet (t\<lparr>tn_delivery := d\<rparr>) (u\<lparr>tn_delivery := d, tn_world := w\<rparr>)"
  unfolding quiet_def by (rule turn.equality) (simp_all add: quiet_sel [OF assms])

lemma script_sink_poll [simp]:
  "te_sink_poll (script_env delay) n w = (case n of 0 \<Rightarrow> (Some (Inr ()), 0, w) | Suc m \<Rightarrow> (None, m, w))"
  by (simp add: script_env_def split: nat.split)

lemma wp_poll_next_once:
  "wp (turn_iteration E cx) (\<lambda>r u. \<exists>p. r = Some p \<and> Q p u) X t \<Longrightarrow> wp (poll_next E cx) Q X t"
  by (auto simp: wp_def poll_next.simps [of E cx t] split: prod.splits sum.splits option.splits)

lemma wp_poll_next_again:
  "wp (turn_iteration E cx) (\<lambda>r u. r = None \<and> wp (poll_next E cx) Q X u) X t \<Longrightarrow> wp (poll_next E cx) Q X t"
  by (auto simp: wp_def poll_next.simps [of E cx t] split: prod.splits sum.splits option.splits)

lemma wp_settle_calm:
  assumes "calm cx t" and "tn_lease t" and "tn_delivery t = Some d"
  shows "wp (settle_delivery (script_env delay) (Some (Inr ())))
    (\<lambda>r u. r = StreamItem (Inr (pd_event d)) \<and> after_delivery cx t (pd_event d) u) X t"
  using assms calm_deregister [OF assms(1)]
  by (auto simp: settle_delivery_def delivered_def after_delivery_def Let_def ended_def released_def quiet_def calm_def)

lemma wp_poll_delivers:
  assumes "calm cx t" and "tn_lease t" and "tn_delivery t = Some \<lparr>pd_event = ev, pd_future = n\<rparr>"
  shows "wp (poll_next (script_env delay) cx)
    (\<lambda>r u. case n of
        0 \<Rightarrow> r = StreamItem (Inr ev) \<and> after_delivery cx t ev u
      | Suc m \<Rightarrow> r = StreamPending \<and> calm cx u \<and> quiet (t\<lparr>tn_delivery := Some \<lparr>pd_event = ev, pd_future = m\<rparr>\<rparr>) u)
    (\<lambda>_ _. False) t"
proof (rule wp_poll_next_once)
  let ?Q = "\<lambda>r u. case n of 0 \<Rightarrow> r = StreamItem (Inr ev) \<and> after_delivery cx t ev u
    | Suc m \<Rightarrow> r = StreamPending \<and> calm cx u \<and> quiet (t\<lparr>tn_delivery := Some \<lparr>pd_event = ev, pd_future = m\<rparr>\<rparr>) u"
  have "wp (offer_delivery (script_env delay)) ?Q (\<lambda>_ _. False) u" if u: "quiet t u" "calm cx u" for u
  proof -
    have d: "tn_delivery u = Some \<lparr>pd_event = ev, pd_future = n\<rparr>" "tn_lease u"
      using quiet_sel [OF u(1)] assms(2,3) by simp_all
    have q: "quiet (t\<lparr>tn_delivery := d'\<rparr>) (u\<lparr>tn_delivery := d', tn_world := w\<rparr>)" for d' w
      using u(1) by (rule quiet_deliver)
    have c: "calm cx (u\<lparr>tn_delivery := d', tn_world := w\<rparr>)" "\<not> ct_cancelled (tn_token u)" for d' w
      using u(2) by (simp_all add: calm_def)
    show ?thesis
    proof (cases n)
      case 0
      then show ?thesis
        using d c after_delivery_quiet [OF q]
        by (auto simp: offer_delivery_def intro!: wp_mono [OF wp_settle_calm])
    next
      case (Suc m)
      then show ?thesis
        using q c d by (simp add: offer_delivery_def settle_delivery_def)
    qed
  qed
  then show "wp (turn_iteration (script_env delay) cx) (\<lambda>r u. \<exists>p. r = Some p \<and> ?Q p u) (\<lambda>_ _. False) t"
    using assms
    by (auto simp: turn_iteration_def poll_delivery_def calm_def [of cx t] intro!: wp_mono [OF wp_update_waiter_calm])
      (auto simp: calm_def)
qed

text \<open>The polls until the sink has taken the event return it once and nothing else.\<close>

lemma wp_polls_deliver:
  assumes "calm cx t" and "tn_lease t" and "tn_delivery t = Some \<lparr>pd_event = ev, pd_future = n\<rparr>"
  shows "wp (polls (script_env delay) cx (Suc n)) (\<lambda>rs u. items rs = [ev] \<and> after_delivery cx t ev u) (\<lambda>_ _. False) t"
  using assms
proof (induction n arbitrary: t)
  case 0
  then show ?case using wp_poll_delivers [OF 0, of delay] by (auto simp: items_def intro: wp_mono)
next
  case (Suc n)
  have "wp (polls (script_env delay) cx (Suc n)) (\<lambda>rs v. items (StreamPending # rs) = [ev] \<and> after_delivery cx t ev v)
      (\<lambda>_ _. False) u"
    if "calm cx u" "quiet (t\<lparr>tn_delivery := Some \<lparr>pd_event = ev, pd_future = n\<rparr>\<rparr>) u" for u
  proof (rule wp_mono [OF Suc.IH])
    show "calm cx u" "tn_lease u" "tn_delivery u = Some \<lparr>pd_event = ev, pd_future = n\<rparr>"
      using that(1) quiet_sel [OF that(2)] Suc.prems by simp_all
  qed (auto simp: items_def intro: after_delivery_quiet [OF that(2)])
  then show ?case
    using wp_poll_delivers [OF Suc.prems, of delay]
    by (auto simp del: polls.simps(2) simp: polls.simps(2) [of _ _ "Suc n"] intro: wp_mono)
qed

subsection \<open>The whole script\<close>

text \<open>Between two events: the workflow may go on, and the consumer has everything it emitted.\<close>

definition ready :: "waker \<Rightarrow> script \<Rightarrow> (script, nat, unit) turn \<Rightarrow> bool" where
  "ready cx k t \<longleftrightarrow> tn_state t = Running k \<and> tn_delivery t = None \<and> tn_lease t \<and> calm cx t
     \<and> es_pending (tn_gate t) = None
     \<and> sc_emitting k = (if es_acknowledged (tn_gate t) then Some \<lparr>ef_event = None, ef_staged = True\<rparr> else None)"

lemma script_poll_ready:
  assumes "ready cx k t"
  shows "script_poll k (tn_gate t) = run_steps (sc_exit k) (sc_steps k) ((tn_gate t)\<lparr>es_acknowledged := False\<rparr>)"
proof (cases "es_acknowledged (tn_gate t)")
  case False
  then have "(tn_gate t)\<lparr>es_acknowledged := False\<rparr> = tn_gate t" by (cases "tn_gate t") simp
  moreover have "script_poll k (tn_gate t) = run_steps (sc_exit k) (sc_steps k) (tn_gate t)"
    using assms False by (simp add: ready_def script_poll_def)
  ultimately show ?thesis by metis
qed (use assms in \<open>simp add: ready_def script_poll_def emit_poll_def\<close>)

lemma wp_iteration_calm:
  assumes "calm cx t" and "tn_delivery t = None"
    and "\<And>v. quiet (t\<lparr>tn_usage := es_usage (tn_gate t), tn_terminal_seen := tn_terminal_seen t \<or> es_terminal_established (tn_gate t)\<rparr>) v
      \<Longrightarrow> calm cx v \<Longrightarrow> wp (advance_turn (script_env delay)) Q X v"
  shows "wp (turn_iteration (script_env delay) cx) Q X t"
proof -
  let ?u = "t\<lparr>tn_usage := es_usage (tn_gate t), tn_terminal_seen := tn_terminal_seen t \<or> es_terminal_established (tn_gate t)\<rparr>"
  have "calm cx ?u" "\<not> ct_cancelled (tn_token t)" using assms(1) by (simp_all add: calm_def)
  then show ?thesis
    using assms(2)
    by (auto simp: turn_iteration_def turn_idle_def read_gate_def Let_def
        intro!: wp_mono [OF wp_update_waiter_calm] assms(3))
qed

lemma script_workflow_poll [simp]:
  "te_workflow_poll (script_env delay) k c g w = (case script_poll k g of (r, k', g') \<Rightarrow> (r, k', g', w))"
  by (simp add: script_env_def)

text \<open>What the three outcomes of a poll of the workflow leave.\<close>

definition follows :: "('k, 'd, 'w) turn \<Rightarrow> ('k, 'd, 'w) turn \<Rightarrow> bool" where
  "follows t u \<longleftrightarrow> same_turn t u \<and> tn_lease u = tn_lease t \<and> tn_token u = tn_token t \<and> tn_waiter u = tn_waiter t"

lemma wp_run_script_emits:
  assumes "\<not> ct_cancelled (tn_token t)" and "script_poll k (tn_gate t) = (Inr r, k', g)" and "es_pending g = Some s"
  shows "wp (run_workflow (script_env delay) k) (\<lambda>r u. r = None \<and> follows t u \<and> tn_state u = Running k'
      \<and> tn_gate u = g\<lparr>es_pending := None\<rparr> \<and> tn_sequence u = u64_saturating_add (tn_sequence t) 1
      \<and> (\<exists>ev. ev_sequence ev = tn_sequence t \<and> ev_payload ev = se_payload s
          \<and> tn_delivery u = Some \<lparr>pd_event = ev, pd_future = delay ev\<rparr>)) X t"
  using assms
  by (simp add: run_workflow_def poll_workflow_def read_gate_def take_staged_def take_pending_def follows_def same_turn_def Let_def)

lemma wp_run_script_result:
  assumes "\<not> ct_cancelled (tn_token t)" and "script_poll k (tn_gate t) = (Inr r, k', g)" and "es_pending g = None"
  shows "wp (run_workflow (script_env delay) k) (\<lambda>p u. follows t u \<and> tn_gate u = g \<and> tn_sequence u = tn_sequence t
      \<and> tn_delivery u = tn_delivery t
      \<and> (case r of None \<Rightarrow> p = Some StreamPending \<and> tn_state u = Running k'
         | Some x \<Rightarrow> p = None \<and> tn_state u = EmitTerminal (exit_event x (es_usage g)))) X t"
proof -
  have "g\<lparr>es_pending := None\<rparr> = g" using assms(3) by (cases g) simp
  then show ?thesis
    using assms
    by (auto simp: run_workflow_def poll_workflow_def read_gate_def take_staged_def take_pending_def follows_def same_turn_def
        Let_def workflow_result_def establish_cancellation_def split: option.split workflow_exit.split)
qed

lemma wp_total:
  assumes "wp m Q (\<lambda>_ _. False) t"
  obtains a u where "m t = (Inr a, u)" "Q a u"
  using assms by (auto simp: wp_def split: prod.splits sum.splits)

lemma polls_again:
  "turn_iteration E cx t = (Inr None, u) \<Longrightarrow> polls E cx (Suc n) t = polls E cx (Suc n) u"
  by (simp add: bindE_def poll_next.simps [of E cx t])

lemma polls_add:
  "polls E cx m t = (Inr rs, u) \<Longrightarrow> polls E cx n u = (Inr rs', v) \<Longrightarrow> polls E cx (m + n) t = (Inr (rs @ rs'), v)"
  by (induction m arbitrary: t rs) (auto simp: bindE_def ret_def split: prod.splits sum.splits)

definition tagged :: "stream_poll list \<Rightarrow> (nat \<times> turn_event) list" where
  "tagged rs = map (\<lambda>ev. (unat (ev_sequence ev), ev_payload ev)) (items rs)"

lemma tagged_append [simp]: "tagged (rs @ rs') = tagged rs @ tagged rs'" "tagged (StreamPending # rs) = tagged rs"
  by (simp_all add: tagged_def items_def)

lemma wp_iteration_terminal:
  assumes "calm cx t" and "tn_lease t" and "tn_delivery t = None" and "tn_state t = EmitTerminal ev"
  shows "wp (turn_iteration (script_env delay) cx) (\<lambda>r u. r = None \<and> calm cx u \<and> tn_lease u
      \<and> (\<exists>e. ev_sequence e = tn_sequence t \<and> ev_payload e = ev \<and> tn_delivery u = Some \<lparr>pd_event = e, pd_future = delay e\<rparr>))
    (\<lambda>_ _. False) t"
  by (rule wp_iteration_calm [OF assms(1,3)])
    (use assms in \<open>auto simp: advance_turn_def Let_def calm_def quiet_sel\<close>)

text \<open>
  From a state between two events, enough polls return the events still to be emitted and the exit.
\<close>

definition delivers :: "(engine_event \<Rightarrow> nat) \<Rightarrow> waker \<Rightarrow> (nat \<times> turn_event) list \<Rightarrow> (script, nat, unit) turn \<Rightarrow> bool" where
  "delivers delay cx evs t \<longleftrightarrow> (\<exists>n rs u. polls (script_env delay) cx n t = (Inr rs, u) \<and> tagged rs = evs \<and> ended u \<and> released u)"

lemma deliversI:
  "polls (script_env delay) cx n t = (Inr rs, u) \<Longrightarrow> tagged rs = evs \<Longrightarrow> ended u \<Longrightarrow> released u \<Longrightarrow> delivers delay cx evs t"
  unfolding delivers_def by blast

lemma tagged_single: "items rs = [ev] \<Longrightarrow> tagged rs = [(unat (ev_sequence ev), ev_payload ev)]"
  by (simp add: tagged_def)

lemma delivers_again:
  assumes "turn_iteration (script_env delay) cx t = (Inr None, u)" and "delivers delay cx evs u" and "evs \<noteq> []"
  shows "delivers delay cx evs t"
proof -
  obtain n rs v where n: "polls (script_env delay) cx n u = (Inr rs, v)" "tagged rs = evs" "ended v" "released v"
    using assms(2) unfolding delivers_def by blast
  then obtain m where "n = Suc m" using assms(3) by (cases n) (auto simp: tagged_def items_def ret_def)
  then have "polls (script_env delay) cx n t = (Inr rs, v)" using n(1) polls_again [OF assms(1)] by metis
  then show ?thesis using n(2-4) by (rule deliversI)
qed

lemma delivers_pending:
  assumes "turn_iteration (script_env delay) cx t = (Inr (Some StreamPending), u)" and "delivers delay cx evs u"
  shows "delivers delay cx evs t"
proof -
  obtain n rs v where n: "polls (script_env delay) cx n u = (Inr rs, v)" "tagged rs = evs" "ended v" "released v"
    using assms(2) unfolding delivers_def by blast
  have "polls (script_env delay) cx (Suc n) t = (Inr (StreamPending # rs), v)"
    using assms(1) n(1) by (simp add: bindE_def ret_def poll_next.simps [of _ _ t])
  then show ?thesis by (rule deliversI) (simp_all add: n(2-4))
qed

lemma delivers_event:
  assumes "calm cx t" and "tn_lease t" and "tn_delivery t = Some \<lparr>pd_event = ev, pd_future = n\<rparr>"
    and "\<not> is_terminal (ev_payload ev)"
    and "\<And>u. quiet (t\<lparr>tn_delivery := None, tn_gate := acknowledge (tn_gate t)\<rparr>) u \<Longrightarrow> calm cx u \<Longrightarrow> delivers delay cx evs u"
  shows "delivers delay cx ((unat (ev_sequence ev), ev_payload ev) # evs) t"
proof -
  obtain rs u where rs: "polls (script_env delay) cx (Suc n) t = (Inr rs, u)" "items rs = [ev]" "after_delivery cx t ev u"
    using wp_total [OF wp_polls_deliver [OF assms(1-3)]] by metis
  then have "delivers delay cx evs u" using assms(4,5) by (simp add: after_delivery_def)
  then obtain m rs' v where "polls (script_env delay) cx m u = (Inr rs', v)" "tagged rs' = evs" "ended v" "released v"
    unfolding delivers_def by blast
  then show ?thesis using tagged_single [OF rs(2)] by (intro deliversI [OF polls_add [OF rs(1)]]) simp_all
qed

lemma delivers_terminal:
  assumes "calm cx t" and "tn_lease t" and "tn_delivery t = None" and "tn_state t = EmitTerminal ev" and "is_terminal ev"
  shows "delivers delay cx [(unat (tn_sequence t), ev)] t"
proof -
  obtain u e where u: "turn_iteration (script_env delay) cx t = (Inr None, u)" "calm cx u" "tn_lease u"
      "tn_delivery u = Some \<lparr>pd_event = e, pd_future = delay e\<rparr>" and e: "ev_sequence e = tn_sequence t" "ev_payload e = ev"
    using wp_total [OF wp_iteration_terminal [OF assms(1-4)]] by metis
  obtain rs v where rs: "polls (script_env delay) cx (Suc (delay e)) u = (Inr rs, v)" "items rs = [e]"
      "after_delivery cx u e v"
    using wp_total [OF wp_polls_deliver [OF u(2-4)]] by metis
  then have "delivers delay cx [(unat (tn_sequence t), ev)] u"
    using e assms(5) tagged_single [OF rs(2)] by (intro deliversI [OF rs(1)]) (simp_all add: after_delivery_def)
  then show ?thesis using u(1) by (auto intro: delivers_again)
qed

lemma is_terminal_exit: "is_terminal (exit_event x u)"
  by (cases x) (simp_all add: failure_into_event_def)

lemma wp_advance_script:
  assumes "ready cx k t" and "quiet (t\<lparr>tn_usage := a, tn_terminal_seen := b\<rparr>) v" and "calm cx v"
    and "wp (run_workflow (script_env delay) k) Q X (v\<lparr>tn_state := Done\<rparr>)"
  shows "wp (advance_turn (script_env delay)) Q X v"
  using assms(1,4) quiet_sel(4) [OF assms(2)] by (simp add: advance_turn_def ready_def)

lemma calm_cong: "tn_token u = tn_token t \<Longrightarrow> tn_waiter u = tn_waiter t \<Longrightarrow> calm cx t \<Longrightarrow> calm cx u"
  by (simp add: calm_def)

lemma wp_iteration_emits:
  assumes "ready cx k t" and "script_poll k (tn_gate t) = (Inr r, k', g)" and "es_pending g = Some s"
  shows "wp (turn_iteration (script_env delay) cx) (\<lambda>p u. p = None \<and> calm cx u \<and> tn_lease u \<and> tn_state u = Running k'
      \<and> tn_gate u = g\<lparr>es_pending := None\<rparr> \<and> tn_sequence u = u64_saturating_add (tn_sequence t) 1
      \<and> (\<exists>ev. ev_sequence ev = tn_sequence t \<and> ev_payload ev = se_payload s
          \<and> tn_delivery u = Some \<lparr>pd_event = ev, pd_future = delay ev\<rparr>)) (\<lambda>_ _. False) t" (is "wp _ ?Q _ _")
proof (rule wp_iteration_calm)
  show "calm cx t" "tn_delivery t = None" using assms(1) by (simp_all add: ready_def)
  fix v
  assume v: "quiet (t\<lparr>tn_usage := es_usage (tn_gate t),
      tn_terminal_seen := tn_terminal_seen t \<or> es_terminal_established (tn_gate t)\<rparr>) v" "calm cx v"
  have c: "tn_lease (v\<lparr>tn_state := Done\<rparr>)" "tn_delivery v = None"
    "tn_sequence v = tn_sequence t"
    using v(2) assms(1) quiet_sel(6,7,11) [OF v(1)] by (simp_all add: calm_def ready_def)
  show "wp (advance_turn (script_env delay)) ?Q (\<lambda>_ _. False) v"
  proof (rule wp_advance_script [OF assms(1) v], rule wp_mono [OF wp_run_script_emits])
    show "\<not> ct_cancelled (tn_token (v\<lparr>tn_state := Done\<rparr>))" using v(2) by (simp add: calm_def)
    show "script_poll k (tn_gate (v\<lparr>tn_state := Done\<rparr>)) = (Inr r, k', g)" using assms(2) quiet_sel(5) [OF v(1)] by simp
  qed (use assms(3) c in \<open>auto simp: follows_def intro: calm_cong [OF _ _ v(2)]\<close>)
qed

lemma wp_iteration_result:
  assumes "ready cx k t" and "script_poll k (tn_gate t) = (Inr r, k', g)" and "es_pending g = None"
  shows "wp (turn_iteration (script_env delay) cx) (\<lambda>p u. calm cx u \<and> tn_lease u \<and> tn_gate u = g
      \<and> tn_sequence u = tn_sequence t \<and> tn_delivery u = None
      \<and> (case r of None \<Rightarrow> p = Some StreamPending \<and> tn_state u = Running k'
         | Some x \<Rightarrow> p = None \<and> tn_state u = EmitTerminal (exit_event x (es_usage g)))) (\<lambda>_ _. False) t" (is "wp _ ?Q _ _")
proof (rule wp_iteration_calm)
  show "calm cx t" "tn_delivery t = None" using assms(1) by (simp_all add: ready_def)
  fix v
  assume v: "quiet (t\<lparr>tn_usage := es_usage (tn_gate t),
      tn_terminal_seen := tn_terminal_seen t \<or> es_terminal_established (tn_gate t)\<rparr>) v" "calm cx v"
  have c: "tn_lease (v\<lparr>tn_state := Done\<rparr>)" "tn_delivery v = None"
    "tn_sequence v = tn_sequence t"
    using v(2) assms(1) quiet_sel(6,7,11) [OF v(1)] by (simp_all add: calm_def ready_def)
  show "wp (advance_turn (script_env delay)) ?Q (\<lambda>_ _. False) v"
  proof (rule wp_advance_script [OF assms(1) v], rule wp_mono [OF wp_run_script_result])
    show "\<not> ct_cancelled (tn_token (v\<lparr>tn_state := Done\<rparr>))" using v(2) by (simp add: calm_def)
    show "script_poll k (tn_gate (v\<lparr>tn_state := Done\<rparr>)) = (Inr r, k', g)" using assms(2) quiet_sel(5) [OF v(1)] by simp
  qed (use assms(3) c in \<open>auto simp: follows_def intro: calm_cong [OF _ _ v(2)]\<close>)
qed

lemma iteration_emits:
  assumes "ready cx k t" and "script_poll k (tn_gate t) = (Inr r, k', g\<lparr>es_pending := Some \<lparr>se_payload = ev, se_establishes_terminal = b\<rparr>\<rparr>)"
  shows "\<exists>u e. turn_iteration (script_env delay) cx t = (Inr None, u) \<and> calm cx u \<and> tn_lease u
    \<and> tn_delivery u = Some \<lparr>pd_event = e, pd_future = delay e\<rparr> \<and> tn_state u = Running k'
    \<and> tn_gate u = g\<lparr>es_pending := None\<rparr> \<and> tn_sequence u = u64_saturating_add (tn_sequence t) 1
    \<and> ev_sequence e = tn_sequence t \<and> ev_payload e = ev"
  using wp_iteration_emits [OF assms, of "\<lparr>se_payload = ev, se_establishes_terminal = b\<rparr>" delay]
  by (auto simp: wp_def split: prod.splits sum.splits)

lemma iteration_waits:
  assumes "ready cx k t" and "script_poll k (tn_gate t) = (Inr None, k', g)" and "fresh_gate g"
  shows "\<exists>u. turn_iteration (script_env delay) cx t = (Inr (Some StreamPending), u) \<and> calm cx u \<and> tn_lease u
    \<and> tn_delivery u = None \<and> tn_state u = Running k' \<and> tn_gate u = g \<and> tn_sequence u = tn_sequence t"
  using wp_iteration_result [OF assms(1,2), of delay] assms(3)
  by (auto simp: wp_def fresh_gate_def split: prod.splits sum.splits)

lemma iteration_exits:
  assumes "ready cx k t" and "script_poll k (tn_gate t) = (Inr (Some x), k', g)" and "fresh_gate g"
  shows "\<exists>u. turn_iteration (script_env delay) cx t = (Inr None, u) \<and> calm cx u \<and> tn_lease u
    \<and> tn_delivery u = None \<and> tn_state u = EmitTerminal (exit_event x (es_usage g)) \<and> tn_sequence u = tn_sequence t"
  using wp_iteration_result [OF assms(1,2), of delay] assms(3)
  by (auto simp: wp_def fresh_gate_def split: prod.splits sum.splits)

text \<open>The three outcomes of the next poll of the workflow, for a script with the steps \<open>steps\<close>.\<close>

definition to_come :: "script \<Rightarrow> (script, nat, unit) turn \<Rightarrow> (nat \<times> turn_event) list" where
  "to_come k t = enumerate (unat (tn_sequence t))
     (emissions (sc_steps k) @ [exit_event (sc_exit k) (last_usage (sc_steps k) (es_usage (tn_gate t)))])"

lemma to_come_nonempty: "to_come k t \<noteq> []"
proof -
  have "length (to_come k t) \<noteq> 0" by (simp add: to_come_def)
  then show ?thesis by auto
qed

lemma delivers_script:
  "ready cx k t \<Longrightarrow> (\<forall>ev b. DoEmit ev b \<in> set (sc_steps k) \<longrightarrow> \<not> is_terminal ev) \<Longrightarrow>
   unat (tn_sequence t) + length (sc_steps k) + 2 < 2 ^ 64 \<Longrightarrow> delivers delay cx (to_come k t) t"
proof (induction "length (sc_steps k)" arbitrary: k t rule: less_induct)
  case less
  let ?g = "(tn_gate t)\<lparr>es_acknowledged := False\<rparr>"
  have fresh: "fresh_gate ?g" using less.prems(1) by (simp add: ready_def fresh_gate_def)
  note poll = script_poll_ready [OF less.prems(1)]
  from fresh show ?case
  proof (cases rule: run_steps_cases [where exit = "sc_exit k" and steps = "sc_steps k"])
    case (emits ev b ss g')
    let ?k = "\<lparr>sc_emitting = Some \<lparr>ef_event = None, ef_staged = True\<rparr>, sc_steps = ss, sc_exit = sc_exit k\<rparr>"
    obtain u e where u: "turn_iteration (script_env delay) cx t = (Inr None, u)" "calm cx u" "tn_lease u"
        "tn_delivery u = Some \<lparr>pd_event = e, pd_future = delay e\<rparr>"
        "tn_state u = Running ?k" "tn_gate u = g'\<lparr>es_pending := None\<rparr>" "tn_sequence u = u64_saturating_add (tn_sequence t) 1"
      and e: "ev_sequence e = tn_sequence t" "ev_payload e = ev"
      using iteration_emits [OF less.prems(1) poll [unfolded emits(1)], of delay] by metis
    have seq: "unat (tn_sequence u) = unat (tn_sequence t) + 1"
      using less.prems(3) u(7) saturating_Suc [of "tn_sequence t"] by simp
    have "delivers delay cx (tl (to_come k t)) v \<and> hd (to_come k t) = (unat (ev_sequence e), ev_payload e)"
      if v: "quiet (u\<lparr>tn_delivery := None, tn_gate := acknowledge (tn_gate u)\<rparr>) v" "calm cx v" for v
    proof -
      have "delivers delay cx (to_come ?k v) v"
        using less.hyps [of ?k v] less.prems(2,3) emits(5,7) u v(2) quiet_sel [OF v(1)] seq
        by (auto simp: ready_def acknowledge_def)
      moreover have "to_come k t = (unat (ev_sequence e), ev_payload e) # to_come ?k v"
        using emits(2,3) e seq u(6) quiet_sel [OF v(1)] by (simp add: to_come_def acknowledge_def)
      ultimately show ?thesis by simp
    qed
    moreover have "\<not> is_terminal (ev_payload e)" using less.prems(2) emits(6) e(2) by blast
    ultimately have "delivers delay cx ((unat (ev_sequence e), ev_payload e) # tl (to_come k t)) u"
      by (intro delivers_event [OF u(2-4)]) blast+
    moreover have "to_come k t = (unat (ev_sequence e), ev_payload e) # tl (to_come k t)"
      using emits(2) e by (simp add: to_come_def)
    ultimately have "delivers delay cx (to_come k t) u" by simp
    then show ?thesis by (rule delivers_again [OF u(1) _ to_come_nonempty])
  next
    case (waits ss g')
    let ?k = "\<lparr>sc_emitting = None, sc_steps = ss, sc_exit = sc_exit k\<rparr>"
    obtain u where u: "turn_iteration (script_env delay) cx t = (Inr (Some StreamPending), u)" "calm cx u" "tn_lease u"
        "tn_delivery u = None" "tn_state u = Running ?k" "tn_gate u = g'" "tn_sequence u = tn_sequence t"
      using iteration_waits [OF less.prems(1) poll [unfolded waits(1)] waits(4), of delay] by metis
    then have "delivers delay cx (to_come ?k u) u"
      using less.hyps [of ?k u] less.prems(2,3) waits(4-6) by (auto simp: ready_def fresh_gate_def)
    moreover have "to_come ?k u = to_come k t" using u(6,7) waits(2,3) by (simp add: to_come_def)
    ultimately show ?thesis using delivers_pending [OF u(1)] by simp
  next
    case (exits g')
    obtain u where u: "turn_iteration (script_env delay) cx t = (Inr None, u)" "calm cx u" "tn_lease u"
        "tn_delivery u = None" "tn_state u = EmitTerminal (exit_event (sc_exit k) (es_usage g'))" "tn_sequence u = tn_sequence t"
      using iteration_exits [OF less.prems(1) poll [unfolded exits(1)] exits(4), of delay] by metis
    then have "delivers delay cx (to_come k t) u"
      using delivers_terminal [OF u(2-5) is_terminal_exit] exits(2,3) by (simp add: to_come_def)
    then show ?thesis by (rule delivers_again [OF u(1) _ to_come_nonempty])
  qed
qed

section \<open>Dropping a turn\<close>

text \<open>A turn that is dropped leaves nothing behind, and one that still held its lease is cancelled.\<close>

lemma wp_turn_drop:
  assumes "cancels_for_good E" and "turn_ok t"
  shows "wp (turn_drop E) (\<lambda>_ u. released u \<and> tn_waiter u = None \<and> (tn_lease t \<longrightarrow> ct_cancelled (tn_token u))) X t"
proof -
  have "tn_lease t \<or> released t" using assms(2) by (auto simp: turn_ok_def split: if_splits)
  then show ?thesis
    using assms(1) by (auto simp: turn_drop_def request_cancel_def Let_def released_def deregister_def split: option.split)
qed

section \<open>Properties\<close>

lemma turn_ok_new: "turn_ok (turn_new sid inc tid k c w)" "number (turn_new sid inc tid k c w) = 0"
  "\<not> ended (turn_new sid inc tid k c w)"
  by (simp_all add: turn_ok_def ended_def number_def turn_new_def)

text \<open>
  C5. Whatever the sink and the other users of the token do, and whatever the workflow does as long as it emits no
  terminal event itself, the polls of a turn, unless one of them panics, return events of this turn
  numbered 0, 1, 2 and so on, then one terminal event or one error, and after it only the end of the stream; only
  a cancellation may skip one number, that of the event whose delivery it replaced. The lease is held until
  the terminal event or error is returned, and by then the session is free and the scopes of the turn are closed.
\<close>

theorem turn_stream_protocol:
  assumes "stages_events E" and "n + 4 < 2 ^ 64"
    and "t = turn_new sid inc tid k c w" and "polls E cx n t = (Inr rs, u)"
  shows "stream_ok t 0 rs \<and> (if list_ex ends_stream rs then ended u \<and> released u else tn_lease u)"
proof -
  have "results_ok t rs u"
    using wp_polls [OF assms(1), of t n cx] assms(2-4) by (simp add: wp_def turn_ok_new)
  then show ?thesis
    unfolding results_ok_def turn_ok_def assms(3) by (simp add: turn_ok_new split: if_splits)
qed

text \<open>A workflow that emits one event and completes; nobody cancels, and the sink takes everything at once.\<close>

definition demo_stream_env :: "(bool, unit, unit) turn_env" where
  "demo_stream_env = \<lparr>te_others = Pair,
     te_workflow_poll = (\<lambda>k c g w.
       if k then (Inr None, False, g\<lparr>es_pending := Some \<lparr>se_payload = Started, se_establishes_terminal = False\<rparr>\<rparr>, w)
       else (Inr (Some (ExitCompleted StopCompleted usage_default)), False, g\<lparr>es_pending := None\<rparr>, w)),
     te_sink_emit = (\<lambda>_. ()), te_sink_poll = (\<lambda>d w. (Some (Inr ()), d, w))\<rparr>"

definition demo_stream_turn :: "cancellation \<Rightarrow> (bool, unit, unit) turn" where
  "demo_stream_turn c = turn_new (SessionId ''s'') (SessionIncarnationId ''i'') (TurnId ''t'') True c ()"

theorem turn_stream_protocol_witness:
  "\<exists>rs u. polls demo_stream_env 0 3 (demo_stream_turn token_new) = (Inr rs, u) \<and> stream_ok (demo_stream_turn token_new) 0 rs
     \<and> map ev_payload (items rs) = [Started, Completed StopCompleted usage_default] \<and> released u"
proof -
  have run: "fst (polls demo_stream_env 0 3 (demo_stream_turn token_new)) = Inr
      [StreamItem (Inr \<lparr>ev_session_id = SessionId ''s'', ev_session_incarnation_id = SessionIncarnationId ''i'', ev_turn_id = TurnId ''t'', ev_sequence = 0, ev_payload = Started\<rparr>),
       StreamItem (Inr \<lparr>ev_session_id = SessionId ''s'', ev_session_incarnation_id = SessionIncarnationId ''i'', ev_turn_id = TurnId ''t'', ev_sequence = 1,
         ev_payload = Completed StopCompleted usage_default\<rparr>), StreamEnd]"
    by code_simp
  then obtain rs u where p: "polls demo_stream_env 0 3 (demo_stream_turn token_new) = (Inr rs, u)" and rs: "rs =
      [StreamItem (Inr \<lparr>ev_session_id = SessionId ''s'', ev_session_incarnation_id = SessionIncarnationId ''i'', ev_turn_id = TurnId ''t'', ev_sequence = 0, ev_payload = Started\<rparr>),
       StreamItem (Inr \<lparr>ev_session_id = SessionId ''s'', ev_session_incarnation_id = SessionIncarnationId ''i'', ev_turn_id = TurnId ''t'', ev_sequence = 1,
         ev_payload = Completed StopCompleted usage_default\<rparr>), StreamEnd]"
    by (cases "polls demo_stream_env 0 3 (demo_stream_turn token_new)") simp
  have "stages_events demo_stream_env" by (simp add: stages_events_def demo_stream_env_def)
  from turn_stream_protocol [OF this _ demo_stream_turn_def p]
  have "stream_ok (demo_stream_turn token_new) 0 rs \<and> (if list_ex ends_stream rs then ended u \<and> released u else tn_lease u)"
    by simp
  moreover have "map ev_payload (items rs) = [Started, Completed StopCompleted usage_default]" "list_ex ends_stream rs"
    by (simp_all add: rs items_def)
  ultimately show ?thesis using p by auto
qed

text \<open>
  C7. A turn that is cancelled while nothing holds the cancellation back answers the next poll with the cancellation
  and is over: the session is free and the scopes are closed. The answer is the same for every workflow and every sink,
  so neither of them is waited for.
\<close>

theorem cancelled_turn_answered:
  assumes "cancels_for_good E" and "must_stop t" and "turn_ok t"
  shows "\<exists>r u. stopped_by r u \<and> (\<forall>p q. poll_next (with_hosts E p q) cx t = (Inr r, u))"
  using assms by (rule poll_next_stops)

theorem cancelled_turn_answered_witness:
  "\<exists>r u. stopped_by r u \<and> poll_next demo_stream_env 0 (demo_stream_turn (token_cancel token_new)) = (Inr r, u)"
proof -
  have "cancels_for_good demo_stream_env" by (simp add: cancels_for_good_def demo_stream_env_def)
  moreover have "must_stop (demo_stream_turn (token_cancel token_new))"
    by (simp add: must_stop_def demo_stream_turn_def turn_new_def emission_default_def cancellation_deferred_def)
  moreover have "turn_ok (demo_stream_turn (token_cancel token_new))" by (simp add: demo_stream_turn_def turn_ok_new)
  moreover have "with_hosts demo_stream_env (te_workflow_poll demo_stream_env) (te_sink_poll demo_stream_env) = demo_stream_env"
    by (simp add: with_hosts_def)
  ultimately show ?thesis using cancelled_turn_answered by metis
qed

text \<open>
  C6. When nobody cancels and the sink takes each event after some polls, a consumer that keeps polling gets exactly the
  events the workflow emits, in order and numbered from 0, and then the event of its exit; the turn is then over.
\<close>

theorem turn_events_delivered:
  assumes "\<forall>ev b. DoEmit ev b \<in> set steps \<longrightarrow> \<not> is_terminal ev" and "length steps + 2 < 2 ^ 64"
  shows "\<exists>n rs u. polls (script_env delay) cx n
      (turn_new sid inc tid \<lparr>sc_emitting = None, sc_steps = steps, sc_exit = exit\<rparr> token_new ()) = (Inr rs, u)
    \<and> map (\<lambda>ev. (unat (ev_sequence ev), ev_payload ev)) (items rs) =
        enumerate 0 (emissions steps @ [exit_event exit (last_usage steps usage_default)])
    \<and> ended u \<and> released u"
proof -
  let ?k = "\<lparr>sc_emitting = None, sc_steps = steps, sc_exit = exit\<rparr>"
  let ?t = "turn_new sid inc tid ?k token_new ()"
  have "ready cx ?k ?t" by (simp add: ready_def turn_new_def calm_def token_new_def emission_default_def)
  then have "delivers delay cx (to_come ?k ?t) ?t"
    using assms by (intro delivers_script) (simp_all add: turn_new_def)
  then show ?thesis by (simp add: delivers_def to_come_def tagged_def turn_new_def emission_default_def)
qed

theorem turn_events_delivered_witness:
  "\<exists>n rs u. polls (script_env (\<lambda>_. 2)) 0 n (turn_new (SessionId ''s'') (SessionIncarnationId ''i'') (TurnId ''t'')
      \<lparr>sc_emitting = None, sc_steps = [DoEmit Started False, DoWait], sc_exit = ExitCompleted StopCompleted usage_default\<rparr>
      token_new ()) = (Inr rs, u)
    \<and> map (\<lambda>ev. (unat (ev_sequence ev), ev_payload ev)) (items rs) = [(0, Started), (1, Completed StopCompleted usage_default)]
    \<and> released u"
proof -
  have "\<forall>ev b. DoEmit ev b \<in> set [DoEmit Started False, DoWait] \<longrightarrow> \<not> is_terminal ev" by auto
  from turn_events_delivered [OF this, of "\<lambda>_. 2" 0 "SessionId ''s''" "SessionIncarnationId ''i''" "TurnId ''t''" "ExitCompleted StopCompleted usage_default"]
  obtain n rs u where "polls (script_env (\<lambda>_. 2)) 0 n (turn_new (SessionId ''s'') (SessionIncarnationId ''i'') (TurnId ''t'')
      \<lparr>sc_emitting = None, sc_steps = [DoEmit Started False, DoWait], sc_exit = ExitCompleted StopCompleted usage_default\<rparr>
      token_new ()) = (Inr rs, u)" "released u"
    "map (\<lambda>ev. (unat (ev_sequence ev), ev_payload ev)) (items rs) = [(0, Started), (1, Completed StopCompleted usage_default)]"
    by auto
  then show ?thesis by (intro exI conjI)
qed

end
