(* ===== verification/Turn_Metadata.thy ===== *)
theory Turn_Metadata
  imports Session_Ops
begin

text \<open>
  Editors of one metadata entry during a turn (\<open>session/turn_metadata.rs\<close>). An editor works beside
  the running turn, without its lease: it loads the record, checks that the turn is the one it
  belongs to and still open, and replaces its entry by a compare-and-set on the entry, retried when
  the store reports a conflict.
\<close>

section \<open>Scope and editors\<close>

text \<open>
  The immutable part of \<open>TurnMetadataScope\<close>. Its flags change under the editor's feet and are part of
  the world: whether the turn still owns the scope (an editor only has a weak reference), whether its
  admission is closed, whether \<open>closed\<close> was signalled, and whether an editor operation is running.
\<close>

record metadata_scope =
  ms_session :: session_id
  ms_incarnation :: session_incarnation_id
  ms_next_sequence :: u64

record 'v editor_world =
  ew_alive :: bool
  ew_admission_closed :: bool
  ew_closed :: bool
  ew_operation_active :: bool
  ew_host :: 'v

type_synonym ('v, 'a) editor_op = "('v editor_world, 'a) session_op"

text \<open>An editor: the allocation of its \<open>EditorIdentity\<close>, the scope and the key.\<close>

record metadata_editor =
  me_identity :: nat
  me_scope :: metadata_scope
  me_key :: string

record metadata_snapshot =
  mn_editor :: metadata_editor
  mn_record :: session_record

definition snapshot_entry :: "metadata_snapshot \<Rightarrow> json option" where
  "snapshot_entry n = bt_lookup (sr_metadata (mn_record n)) (me_key (mn_editor n))"

definition scope_new :: "session_record \<Rightarrow> metadata_scope" where
  "scope_new r = \<lparr>ms_session = sr_id r, ms_incarnation = sr_incarnation_id r,
     ms_next_sequence = sr_next_turn_sequence r\<rparr>"

definition err_editor_closed :: engine_error where
  "err_editor_closed = Protocol ''turn metadata editor is closed''"

definition entry_conflict :: engine_error where
  "entry_conflict = Store (component_error_new SConflict ''turn_metadata_entry_changed''
     ''turn metadata entry changed'' True)"

definition err_metadata_contended :: engine_error where
  "err_metadata_contended = Store (component_error_new SConflict ''turn_metadata_contended''
     ''turn metadata edit exceeded its conflict retry bound'' True)"

definition err_foreign_snapshot :: engine_error where
  "err_foreign_snapshot = Protocol ''turn metadata snapshot belongs to another editor''"

definition err_unpersisted_turn :: engine_error where
  "err_unpersisted_turn = Protocol ''turn metadata requires a persisted turn''"

definition err_metadata_disappeared :: engine_error where
  "err_metadata_disappeared = Protocol ''session disappeared during turn metadata editing''"

definition err_metadata_non_increasing :: engine_error where
  "err_metadata_non_increasing = Protocol ''turn metadata save returned a non-increasing revision''"

section \<open>Limits\<close>

definition limit_error :: "json_limit_violation \<Rightarrow> engine_error" where
  "limit_error v = Protocol (tf_message (json_limit_failure v))"

definition validate_bytes :: "serializer \<Rightarrow> metadata \<Rightarrow> engine_limits \<Rightarrow> (engine_error, unit) result" where
  "validate_bytes ser m l =
     bind_res (map_err (\<lambda>_. Protocol ''turn metadata serialization failed'')
       (serialized_json_size_bounded (ser (SerMetadata m)) (max_session_metadata_bytes l))) (\<lambda>size.
     if size = None then Inl (Protocol ''turn metadata exceeds the configured byte limit'') else Inr ())"

definition validate_entry_bytes :: "serializer \<Rightarrow> string \<Rightarrow> json \<Rightarrow> engine_limits \<Rightarrow> (engine_error, unit) result" where
  "validate_entry_bytes ser key v l = validate_bytes ser [(key, v)] l"

definition candidate_metadata :: "string \<Rightarrow> json option \<Rightarrow> metadata \<Rightarrow> metadata" where
  "candidate_metadata key replacement m =
     (let others = filter (\<lambda>(name, _). name \<noteq> key) m in
      case replacement of Some v \<Rightarrow> bt_insert key v others | None \<Rightarrow> others)"

definition validate_candidate ::
  "serializer \<Rightarrow> session_record \<Rightarrow> string \<Rightarrow> json option \<Rightarrow> engine_limits \<Rightarrow> (engine_error, unit) result" where
  "validate_candidate ser r key replacement l =
     (let m = candidate_metadata key replacement (sr_metadata r) in
      bind_res (map_err limit_error (validate_json_roots (max_json_nodes l) (max_json_depth l)
        (bt_values m @ concat (map message_roots (sr_messages r))))) (\<lambda>_.
      validate_bytes ser m l))"

definition validate_replacement :: "serializer \<Rightarrow> string \<Rightarrow> json option \<Rightarrow> engine_limits \<Rightarrow> (engine_error, unit) result" where
  "validate_replacement ser key replacement l =
     (case replacement of
        None \<Rightarrow> Inr ()
      | Some v \<Rightarrow>
          bind_res (map_err limit_error (validate_json_roots (max_json_nodes l) (max_json_depth l) [v])) (\<lambda>_.
          validate_entry_bytes ser key v l))"

section \<open>Operations of the scope\<close>

definition scope_ensure_open :: "('v editor_world, 'z) store_host_scheme \<Rightarrow> ('v, unit) editor_op" where
  "scope_ensure_open E =
     bindE (ensure_open E) (\<lambda>_.
     bindE (interleave E) (\<lambda>_.
     bindE (get (\<lambda>s. ew_admission_closed (ss_world s))) (\<lambda>shut.
     if shut then raise err_editor_closed
     else bindE (interleave E) (\<lambda>_.
       bindE (get ss_cancelled) (\<lambda>cancelled.
       if cancelled then raise err_editor_closed else ret ())))))"

text \<open>The turn closes its scope in two steps: no new admission, then the waiting operations are woken.\<close>

definition close_admission :: "('v editor_world, 'z) store_host_scheme \<Rightarrow> ('v, unit) editor_op" where
  "close_admission E = bindE (interleave E) (\<lambda>_.
     modify (\<lambda>s. s\<lparr>ss_world := (ss_world s)\<lparr>ew_admission_closed := True\<rparr>\<rparr>))"

definition wake_closed :: "('v editor_world, 'z) store_host_scheme \<Rightarrow> ('v, unit) editor_op" where
  "wake_closed E = bindE (interleave E) (\<lambda>_.
     modify (\<lambda>s. s\<lparr>ss_world := (ss_world s)\<lparr>ew_closed := True\<rparr>\<rparr>))"

definition scope_validate_identity :: "metadata_scope \<Rightarrow> session_record \<Rightarrow> (engine_error, unit) result" where
  "scope_validate_identity sc r =
     (if sr_id r \<noteq> ms_session sc \<or> sr_incarnation_id r \<noteq> ms_incarnation sc then Inl SessionIncarnationConflict
      else if sr_next_turn_sequence r \<noteq> ms_next_sequence sc then Inl err_editor_closed
      else Inr ())"

text \<open>\<open>acquire\<close> and the operation under its \<open>OperationLease\<close>, which is dropped on every exit.\<close>

definition set_active :: "bool \<Rightarrow> 'v editor_world sys \<Rightarrow> 'v editor_world sys" where
  "set_active b s = s\<lparr>ss_world := (ss_world s)\<lparr>ew_operation_active := b\<rparr>\<rparr>"

definition holding_operation ::
  "('v editor_world, 'z) store_host_scheme \<Rightarrow> ('v, 'a) editor_op \<Rightarrow> ('v, 'a) editor_op" where
  "holding_operation E body =
     bindE (scope_ensure_open E) (\<lambda>_.
     bindE (interleave E) (\<lambda>_ s.
       if ew_operation_active (ss_world s) then (Inl (Error SessionBusy), s)
       else case bindE (scope_ensure_open E) (\<lambda>_. body) (set_active True s) of
         (r, t) \<Rightarrow> (r, set_active False t)))"

definition scope_snapshot ::
  "engine_config \<Rightarrow> ('v editor_world, 'z) store_host_scheme \<Rightarrow> metadata_scope \<Rightarrow> ('v, record_arc) editor_op" where
  "scope_snapshot C E sc =
     bindE (scope_ensure_open E) (\<lambda>_.
     bindE (snapshot E) (\<lambda>(arc, persisted).
     bindE (lift_err (scope_validate_identity sc (snd arc))) (\<lambda>_.
     if \<not> persisted \<or> sr_revision (snd arc) = 0 then raise err_unpersisted_turn
     else bindE (check_record C (snd arc)) (\<lambda>_. ret arc))))"

definition wait_poll ::
  "('v editor_world, 'z) store_host_scheme \<Rightarrow> host_call \<Rightarrow> ('v editor_world, (session_store_error, 'a) result) future \<Rightarrow> bool \<Rightarrow>
   bool \<Rightarrow> ('v, 'a option) editor_op" where
  "wait_poll E c f save_success_wins first =
     bindE (scope_ensure_open E) (\<lambda>_.
     bindE (interleave E) (\<lambda>_.
     bindE (get ss_cancelled) (\<lambda>cancelled.
     if cancelled then raise err_editor_closed
     else bindE (interleave E) (\<lambda>_.
       bindE (get (\<lambda>s. ew_closed (ss_world s))) (\<lambda>shut.
       if shut then raise err_editor_closed
       else bindE (scope_ensure_open E) (\<lambda>_.
         bindE (host_poll c f) (\<lambda>r.
         case r of
           Some (Inr a) \<Rightarrow>
             if save_success_wins then ret (Some a)
             else bindE (scope_ensure_open E) (\<lambda>_. ret (Some a))
         | Some (Inl e) \<Rightarrow> bindE (scope_ensure_open E) (\<lambda>_. raise (Store (redact_store_error e)))
         | None \<Rightarrow> bindE (scope_ensure_open E) (\<lambda>_. ret None))))))))"

definition scope_wait ::
  "('v editor_world, 'z) store_host_scheme \<Rightarrow> host_call \<Rightarrow> ('v editor_world, (session_store_error, 'a) result) future \<Rightarrow> bool \<Rightarrow>
   ('v, 'a) editor_op" where
  "scope_wait E c f save_success_wins = await_poll_fn E (wait_poll E c f save_success_wins)"

definition adopt_reload ::
  "engine_config \<Rightarrow> ('v editor_world, 'z) store_host_scheme \<Rightarrow> metadata_scope \<Rightarrow> session_record \<Rightarrow> ('v, unit) editor_op" where
  "adopt_reload C E sc r =
     catchE (reconcile_loaded E r)
       (\<lambda>e. case e of
          Dropped \<Rightarrow> fail Dropped
        | Error _ \<Rightarrow> bindE (scope_snapshot C E sc) (\<lambda>current.
            if sr_revision (snd current) \<le> sr_revision r then fail e else ret ()))
       (\<lambda>_. ret ())"

definition scope_reload ::
  "engine_config \<Rightarrow> ('v editor_world, 'z) store_host_scheme \<Rightarrow> metadata_scope \<Rightarrow> ('v, record_arc) editor_op" where
  "scope_reload C E sc =
     bindE (scope_ensure_open E) (\<lambda>_.
     bindE (record_effect (Constructed (CallLoad (ms_session sc)))) (\<lambda>_.
     bindE (scope_wait E (CallLoad (ms_session sc)) (sh_load E (ms_session sc)) False) (\<lambda>loaded.
     case loaded of
       None \<Rightarrow> raise err_metadata_disappeared
     | Some r \<Rightarrow>
         bindE (lift_err (scope_validate_identity sc r)) (\<lambda>_.
         bindE (lift_err (validate_loaded r)) (\<lambda>_.
         bindE (check_record C r) (\<lambda>_.
         bindE (adopt_reload C E sc r) (\<lambda>_.
         scope_snapshot C E sc)))))))"

section \<open>Operations of the editor\<close>

definition metadata_editor_new ::
  "engine_config \<Rightarrow> ('v editor_world, 'z) store_host_scheme \<Rightarrow> metadata_scope \<Rightarrow> nat \<Rightarrow> string \<Rightarrow> ('v, metadata_editor) editor_op" where
  "metadata_editor_new C E sc fresh key =
     bindE (scope_ensure_open E) (\<lambda>_.
     bindE (lift_err (validate_entry_bytes (ec_serializer C) key (JNumber ''0'') (ec_limits C))) (\<lambda>_.
     ret \<lparr>me_identity = fresh, me_scope = sc, me_key = key\<rparr>))"

text \<open>The weak reference to the scope is upgraded first.\<close>

definition upgrade_scope :: "('v editor_world, 'z) store_host_scheme \<Rightarrow> ('v, unit) editor_op" where
  "upgrade_scope E =
     bindE (interleave E) (\<lambda>_.
     bindE (get (\<lambda>s. ew_alive (ss_world s))) (\<lambda>alive. if alive then ret () else raise err_editor_closed))"

definition is_active :: "('v editor_world, 'z) store_host_scheme \<Rightarrow> metadata_editor \<Rightarrow> ('v, bool) editor_op" where
  "is_active E ed =
     catchE (bindE (upgrade_scope E) (\<lambda>_.
       bindE (scope_ensure_open E) (\<lambda>_.
       bindE (snapshot E) (\<lambda>(arc, _). lift_err (scope_validate_identity (me_scope ed) (snd arc))))))
       (\<lambda>_. ret False) (\<lambda>_. ret True)"

definition read_entry ::
  "engine_config \<Rightarrow> ('v editor_world, 'z) store_host_scheme \<Rightarrow> metadata_editor \<Rightarrow> ('v, metadata_snapshot) editor_op" where
  "read_entry C E ed =
     bindE (upgrade_scope E) (\<lambda>_.
     holding_operation E (bindE (scope_reload C E (me_scope ed)) (\<lambda>arc.
       ret \<lparr>mn_editor = ed, mn_record = snd arc\<rparr>)))"

definition edit_entry :: "string \<Rightarrow> json option \<Rightarrow> metadata \<Rightarrow> metadata" where
  "edit_entry key replacement m =
     (case replacement of Some v \<Rightarrow> bt_insert key v m | None \<Rightarrow> bt_remove key m)"

text \<open>
  \<open>PublicationDebt\<close>: the flag is raised before the save is built, and raised again when the guard is
  dropped without a confirmed publication.
\<close>

definition with_debt ::
  "('w, 'z) store_host_scheme \<Rightarrow> ('w, 'a flow) session_op \<Rightarrow> ('w, 'a flow) session_op" where
  "with_debt E body =
     bindE (set_reconcile E True) (\<lambda>_ s.
       case body s of
         (Inr (Done a), t) \<Rightarrow> (Inr (Done a), t)
       | (r, t) \<Rightarrow> (r, (sh_yield E t)\<lparr>ss_reconcile := True\<rparr>))"

definition entry_save ::
  "engine_config \<Rightarrow> ('v editor_world, 'z) store_host_scheme \<Rightarrow> metadata_scope \<Rightarrow> u64 \<Rightarrow> session_record \<Rightarrow>
   ('v, u64 flow) editor_op" where
  "entry_save C E sc current candidate =
     bindE (record_effect (Constructed (CallSave candidate (Some current)))) (\<lambda>_.
     catchE (scope_wait E (CallSave candidate (Some current)) (sh_save E candidate (Some current)) True)
       (\<lambda>e. case e of
          Error (Store error) \<Rightarrow>
            if ce_kind error = SConflict then bindE (scope_reload C E sc) (\<lambda>_. ret Again) else fail e
        | _ \<Rightarrow> fail e)
       (\<lambda>revision.
          bindE (record_effect (Saved candidate revision)) (\<lambda>_.
          if revision > current then
            bindE (reconcile_saved E (candidate\<lparr>sr_revision := revision\<rparr>)) (\<lambda>_. ret (Done revision))
          else raise err_metadata_non_increasing)))"

definition compare_attempt ::
  "engine_config \<Rightarrow> ('v editor_world, 'z) store_host_scheme \<Rightarrow> metadata_scope \<Rightarrow> string \<Rightarrow> json option \<Rightarrow> json option \<Rightarrow>
   ('v, u64 flow) editor_op" where
  "compare_attempt C E sc key expected replacement =
     bindE (scope_snapshot C E sc) (\<lambda>arc.
     let current = snd arc in
     if bt_lookup (sr_metadata current) key \<noteq> expected then raise entry_conflict
     else bindE (lift_err (validate_candidate (ec_serializer C) current key replacement (ec_limits C))) (\<lambda>_.
       let candidate = current\<lparr>sr_metadata := edit_entry key replacement (sr_metadata current)\<rparr> in
       bindE (snapshot_is_current E arc True) (\<lambda>fresh.
       if \<not> fresh then ret Again
       else bindE (scope_ensure_open E) (\<lambda>_.
         with_debt E (entry_save C E sc (sr_revision current) candidate)))))"

definition MAX_METADATA_RETRIES :: nat where
  "MAX_METADATA_RETRIES = 32"

definition compare_exchange ::
  "engine_config \<Rightarrow> ('v editor_world, 'z) store_host_scheme \<Rightarrow> metadata_editor \<Rightarrow> metadata_snapshot \<Rightarrow> json option \<Rightarrow>
   ('v, u64) editor_op" where
  "compare_exchange C E ed expected replacement =
     (if me_identity (mn_editor expected) \<noteq> me_identity ed then raise err_foreign_snapshot
      else bindE (upgrade_scope E) (\<lambda>_.
        holding_operation E (
          bindE (lift_err (validate_replacement (ec_serializer C) (me_key ed) replacement (ec_limits C))) (\<lambda>_.
          bindE (bindE (interleave E) (\<lambda>_. get ss_reconcile)) (\<lambda>required.
          bindE (if required then bindE (scope_reload C E (me_scope ed)) (\<lambda>_. ret ()) else ret ()) (\<lambda>_.
          retry MAX_METADATA_RETRIES
            (compare_attempt C E (me_scope ed) (me_key ed) (snapshot_entry expected) replacement)
            (raise err_metadata_contended)))))))"

section \<open>What an editor does to the session\<close>

text \<open>
  What the rest of the program may do between two steps of an editor: the session evolves by
  \<open>canon_step\<close>, and nobody else makes the editor's calls. The turn the editor belongs to is such a user.
\<close>

definition env_beside :: "('w, 'z) store_host_scheme \<Rightarrow> bool" where
  "env_beside E \<longleftrightarrow> (\<forall>s. canon_step s (sh_yield E s) \<and> (arc_wf s \<longrightarrow> ss_log (sh_yield E s) = ss_log s))"

lemma env_beside_rely: "env_rely E \<Longrightarrow> env_beside E"
  by (simp add: env_rely_def env_beside_def rely_def)

text \<open>
  Part of an editor operation that sends no save: every new effect satisfies \<open>P\<close>, and a debt stays a debt
  where nobody else pays it off (\<open>k\<close>). Editors never pay it off themselves.
\<close>

definition debt_stays :: "('w, 'z) store_host_scheme \<Rightarrow> bool" where
  "debt_stays E \<longleftrightarrow> (\<forall>s. ss_reconcile s \<longrightarrow> ss_reconcile (sh_yield E s))"

definition constructs_save :: "effect \<Rightarrow> bool" where
  "constructs_save e = (case e of Constructed (CallSave _ _) \<Rightarrow> True | _ \<Rightarrow> False)"

definition saves_sent :: "'w sys \<Rightarrow> nat" where
  "saves_sent s = length (filter constructs_save (ss_log s))"

definition quiet_edit :: "bool \<Rightarrow> (effect \<Rightarrow> bool) \<Rightarrow> 'w sys \<Rightarrow> 'w sys \<Rightarrow> bool" where
  "quiet_edit k P s t \<longleftrightarrow> effects_step (\<lambda>e. P e \<and> \<not> constructs_save e) s t
     \<and> (k \<longrightarrow> arc_wf s \<longrightarrow> ss_reconcile s \<longrightarrow> ss_reconcile t)"

text \<open>The same for a part that sends at most \<open>n\<close> saves; the debt is set once a save was sent.\<close>

definition edit_step :: "bool \<Rightarrow> (effect \<Rightarrow> bool) \<Rightarrow> nat \<Rightarrow> 'w sys \<Rightarrow> 'w sys \<Rightarrow> bool" where
  "edit_step k P n s t \<longleftrightarrow> effects_step P s t \<and> (arc_wf s \<longrightarrow> saves_sent t \<le> saves_sent s + n
     \<and> (k \<longrightarrow> ss_reconcile s \<or> saves_sent s < saves_sent t \<longrightarrow> ss_reconcile t))"

lemma effects_step_wf: "effects_step P s t \<Longrightarrow> arc_wf s \<Longrightarrow> arc_wf t"
  by (simp add: effects_step_def canon_step_def)

interpretation quiet: step_relation "quiet_edit k P" for k P
proof unfold_locales
  show "quiet_edit k P s s" for s by (simp add: quiet_edit_def eff.refl)
  show "quiet_edit k P s u" if "quiet_edit k P s t" "quiet_edit k P t u" for s t u
    using that effects_step_wf [of _ s t] unfolding quiet_edit_def by (auto intro: effects_step_trans)
qed

lemma effects_step_saves:
  "effects_step P s t \<Longrightarrow> arc_wf s \<Longrightarrow> saves_sent s \<le> saves_sent t"
  by (auto simp: effects_step_def saves_sent_def)

lemma edit_step_trans:
  assumes "edit_step k P m s t" "edit_step k P n t u"
  shows "edit_step k P (m + n) s u"
proof -
  have "effects_step P s u" using assms by (auto simp: edit_step_def intro: effects_step_trans)
  moreover have "saves_sent u \<le> saves_sent s + (m + n) \<and> (k \<longrightarrow> ss_reconcile s \<or> saves_sent s < saves_sent u \<longrightarrow> ss_reconcile u)"
    if "arc_wf s"
  proof -
    have "arc_wf t" using assms(1) that by (auto simp: edit_step_def dest: effects_step_wf)
    with assms that show ?thesis unfolding edit_step_def by (smt (verit) add.assoc add_le_mono1 le_trans not_le)
  qed
  ultimately show ?thesis by (simp add: edit_step_def)
qed

lemma edit_step_mono: "edit_step k P m s t \<Longrightarrow> (\<And>e. P e \<Longrightarrow> P' e) \<Longrightarrow> m \<le> n \<Longrightarrow> edit_step k P' n s t"
  unfolding edit_step_def by (auto elim: effects_step_mono)

lemma quiet_edit_step:
  assumes "quiet_edit k P s t"
  shows "edit_step k P n s t"
proof -
  have "effects_step P s t" using assms by (auto simp: quiet_edit_def elim: effects_step_mono)
  moreover have "saves_sent t = saves_sent s" if "arc_wf s"
    using assms that by (auto simp: quiet_edit_def effects_step_def saves_sent_def list_all_iff)
  ultimately show ?thesis using assms by (auto simp: edit_step_def quiet_edit_def)
qed

lemma quiet_edit_wf: "quiet_edit k P s t \<Longrightarrow> arc_wf s \<Longrightarrow> arc_wf t"
  by (auto simp: quiet_edit_def dest: effects_step_wf)

text \<open>Two parts around the construction of one save, with the debt raised before it.\<close>

lemma edit_step_save:
  assumes "quiet_edit k P s t" "ss_reconcile t" "P e" "quiet_edit k P (t\<lparr>ss_log := ss_log t @ [e]\<rparr>) u"
  shows "edit_step k P (Suc 0) s u"
proof -
  let ?v = "t\<lparr>ss_log := ss_log t @ [e]\<rparr>"
  have "edit_step k P (Suc 0) t ?v"
    using assms(2,3) by (simp add: edit_step_def effects_step_def canon_step_frame saves_sent_def)
  with quiet_edit_step [OF assms(1), of 0] have "edit_step k P (Suc 0) s ?v" using edit_step_trans by fastforce
  with quiet_edit_step [OF assms(4), of 0] show ?thesis using edit_step_trans by fastforce
qed

locale editor_env = turn_env R E P
  for R :: "'v editor_world sys \<Rightarrow> 'v editor_world sys \<Rightarrow> bool" and E :: "('v editor_world, 'z) store_host_scheme" and P +
  assumes owe: "R s (s\<lparr>ss_reconcile := True\<rparr>)"
    and loads: "P (Constructed (CallLoad i))" "P (Polled (CallLoad i))"
begin

lemma keeps_ensure_open: "keeps R (ensure_open E)"
  by (simp add: keeps_wp Let_def yield)

lemma keeps_scope_ensure_open: "keeps R (scope_ensure_open E)"
  unfolding scope_ensure_open_def by (intro keeps_session_rules keeps_ensure_open)

lemma keeps_upgrade_scope: "keeps R (upgrade_scope E)"
  unfolding upgrade_scope_def by (intro keeps_session_rules)

lemma keeps_scope_snapshot: "keeps R (scope_snapshot C E sc)"
  unfolding scope_snapshot_def check_record_def by (intro keeps_session_rules keeps_scope_ensure_open)

lemma keeps_wait_poll: "P (Polled c) \<Longrightarrow> keeps R (wait_poll E c f w first)"
  unfolding wait_poll_def by (intro keeps_turn_rules keeps_host_poll keeps_scope_ensure_open)

lemma keeps_scope_wait: "P (Polled c) \<Longrightarrow> keeps R (scope_wait E c f w)"
  unfolding scope_wait_def by (intro keeps_await_poll_fn keeps_wait_poll)

lemma keeps_adopt_reload: "keeps R (adopt_reload C E sc r)"
  unfolding adopt_reload_def
  by (rule keeps_catchE, rule keeps_reconcile_loaded)
    (auto split: stop.split intro!: keeps_session_rules keeps_scope_snapshot)

lemma keeps_scope_reload: "keeps R (scope_reload C E sc)"
  unfolding scope_reload_def check_record_def
  by (intro keeps_turn_rules keeps_record_effect keeps_scope_ensure_open keeps_scope_wait keeps_adopt_reload keeps_scope_snapshot loads)

text \<open>A snapshot is the canonical record of some moment, belongs to the turn of the scope and fits the limits.\<close>

lemma wp_scope_snapshot:
  assumes "R s0 s"
  shows "wp (scope_snapshot C E sc)
    (\<lambda>arc t. R s0 t \<and> arc = (ss_ptr t, ss_record t) \<and> scope_validate_identity sc (ss_record t) = Inr ()
       \<and> sr_revision (ss_record t) \<noteq> 0 \<and> record_ok C (ss_record t))
    (\<lambda>_. R s0) s"
  unfolding scope_snapshot_def
proof (rule wp_seq_acc [OF keeps_scope_ensure_open assms])
  fix t assume t: "R s0 t"
  have u: "R s0 (sh_yield E t)" using t yield by (rule trans)
  show "wp (bindE (snapshot E) (\<lambda>(arc, persisted).
     bindE (lift_err (scope_validate_identity sc (snd arc))) (\<lambda>_.
     if \<not> persisted \<or> sr_revision (snd arc) = 0 then raise err_unpersisted_turn
     else bindE (check_record C (snd arc)) (\<lambda>_. ret arc))))
    (\<lambda>arc t. R s0 t \<and> arc = (ss_ptr t, ss_record t) \<and> scope_validate_identity sc (ss_record t) = Inr ()
       \<and> sr_revision (ss_record t) \<noteq> 0 \<and> record_ok C (ss_record t))
    (\<lambda>_. R s0) t"
    using u by (auto simp: Let_def simp del: wp_lift_err intro!: wp_lift_errI wp_check_recordI)
qed simp

lemma wp_scope_reload:
  assumes "R s0 s"
  shows "wp (scope_reload C E sc)
    (\<lambda>arc t. R s0 t \<and> snd arc = ss_record t \<and> scope_validate_identity sc (ss_record t) = Inr () \<and> record_ok C (ss_record t))
    (\<lambda>_. R s0) s"
proof -
  have tail: "wp (scope_snapshot C E sc)
      (\<lambda>arc t. R s0 t \<and> snd arc = ss_record t \<and> scope_validate_identity sc (ss_record t) = Inr () \<and> record_ok C (ss_record t))
      (\<lambda>_. R s0) t" if "R s0 t" for t
    by (rule wp_mono [OF wp_scope_snapshot [OF that]]) auto
  note seq = wp_seq_acc [where ?s0.0 = s0]
  have load: "keeps R (record_effect (Constructed (CallLoad i)))" for i by (intro keeps_record_effect loads)
  show ?thesis
    unfolding scope_reload_def check_record_def
    by (rule seq [OF keeps_scope_ensure_open assms], rule seq [OF load], assumption, rule seq [OF keeps_scope_wait], rule loads, assumption)
      (auto split: option.split simp del: wp_bindE intro!: seq [OF keeps_lift_err] seq [OF keeps_adopt_reload] tail)
qed

end

lemma editor_env_quiet:
  assumes "env_beside E" and "k \<longrightarrow> debt_stays E"
    and "\<And>i. P (Constructed (CallLoad i))" "\<And>i. P (Polled (CallLoad i))"
  shows "editor_env (quiet_edit k P) E (\<lambda>e. P e \<and> \<not> constructs_save e)"
proof unfold_locales
  let ?P = "\<lambda>e. P e \<and> \<not> constructs_save e"
  show "quiet_edit k P s (sh_yield E s)" for s
    using assms(1,2) by (simp add: env_beside_def quiet_edit_def effects_step_def debt_stays_def)
  show "quiet_edit k P s t \<Longrightarrow> canon_step s t" for s t :: "'a editor_world sys"
    by (simp add: quiet_edit_def effects_step_def)
  show "\<not> arc_wf s \<Longrightarrow> quiet_edit k P s t" for s t :: "'a editor_world sys"
    by (simp add: quiet_edit_def effects_step_def canon_step_def)
  show "?P e \<Longrightarrow> quiet_edit k P s (s\<lparr>ss_log := ss_log s @ [e]\<rparr>)" for e and s :: "'a editor_world sys"
    by (simp add: quiet_edit_def effects_step_def canon_step_frame)
  show "quiet_edit k P s (s\<lparr>ss_world := w\<rparr>)" for s and w :: "'a editor_world"
    by (simp add: quiet_edit_def effects_step_def canon_step_frame)
qed (simp_all add: quiet_edit_def effects_step_def canon_step_frame constructs_save_def assms)

interpretation editor_peer: editor_env "quiet_edit False (\<lambda>_. True)" "peer_host (quiet_host polls is_open ld sv) r"
    "\<lambda>e. True \<and> \<not> constructs_save e"
  for polls is_open ld sv r
  by (rule editor_env_quiet) (simp_all add: env_beside_rely env_rely_peer env_rely_quiet)

end
