(* ===== verification/Metadata_Edit.thy ===== *)
theory Metadata_Edit
  imports Turn_Metadata "HOL-Library.Code_Target_Numeral"
begin

text \<open>
  What the editors of \<open>session/turn_metadata.rs\<close> guarantee: the saves of a compare-and-set, what a read
  returns, that an editor of a closed turn does nothing, and that exactly one entry changes.
\<close>

section \<open>The compare-and-set\<close>

text \<open>
  What the compare-and-set of an entry may ask of the store: loads, and saves of a canonical record of
  the scope's turn that held the expected entry, changed in that entry only, at that record's revision.
\<close>

definition entry_edit ::
  "engine_config \<Rightarrow> 'w sys \<Rightarrow> metadata_scope \<Rightarrow> string \<Rightarrow> json option \<Rightarrow> json option \<Rightarrow> session_record \<Rightarrow> u64 \<Rightarrow> bool" where
  "entry_edit C s sc key expected replacement c x \<longleftrightarrow>
     (\<exists>u. canon_step s u \<and> scope_validate_identity sc (ss_record u) = Inr ()
        \<and> bt_lookup (sr_metadata (ss_record u)) key = expected
        \<and> validate_candidate (ec_serializer C) (ss_record u) key replacement (ec_limits C) = Inr ()
        \<and> x = sr_revision (ss_record u) \<and> x \<noteq> 0
        \<and> c = (ss_record u)\<lparr>sr_metadata := edit_entry key replacement (sr_metadata (ss_record u))\<rparr>)"

definition entry_effect ::
  "engine_config \<Rightarrow> 'w sys \<Rightarrow> metadata_scope \<Rightarrow> string \<Rightarrow> json option \<Rightarrow> json option \<Rightarrow> effect \<Rightarrow> bool" where
  "entry_effect C s sc key expected replacement e \<longleftrightarrow> load_effect e \<or>
     (\<exists>c x. entry_edit C s sc key expected replacement c x \<and> save_effect c (Some x) e)"

lemma entry_edit_canon:
  "canon_step s t \<Longrightarrow> entry_edit C t sc key expected replacement c x \<Longrightarrow> entry_edit C s sc key expected replacement c x"
  unfolding entry_edit_def by (blast intro: canon_step_trans)

lemma entry_effect_canon:
  "canon_step s t \<Longrightarrow> entry_effect C t sc key expected replacement e \<Longrightarrow> entry_effect C s sc key expected replacement e"
  unfolding entry_effect_def by (blast intro: entry_edit_canon)

text \<open>
  A successful edit: the store confirmed the save of an edited record as revision \<open>v\<close>, and the
  canonical record is that one or newer.
\<close>

definition entry_published ::
  "engine_config \<Rightarrow> 'w sys \<Rightarrow> metadata_scope \<Rightarrow> string \<Rightarrow> json option \<Rightarrow> json option \<Rightarrow> u64 \<Rightarrow> 'w sys \<Rightarrow> bool" where
  "entry_published C s sc key expected replacement v t \<longleftrightarrow>
     (\<exists>c x. entry_edit C s sc key expected replacement c x \<and> x < v
        \<and> Saved c v \<in> set (drop (length (ss_log s)) (ss_log t))
        \<and> v \<le> sr_revision (ss_record t) \<and> (sr_revision (ss_record t) = v \<longrightarrow> ss_record t = c\<lparr>sr_revision := v\<rparr>))"

lemma entry_published_canon:
  assumes "effects_step P s t" "arc_wf s" "entry_published C t sc key expected replacement v u"
  shows "entry_published C s sc key expected replacement v u"
proof -
  obtain c x where c: "entry_edit C t sc key expected replacement c x" "x < v"
    "Saved c v \<in> set (drop (length (ss_log t)) (ss_log u))"
    "v \<le> sr_revision (ss_record u)" "sr_revision (ss_record u) = v \<longrightarrow> ss_record u = c\<lparr>sr_revision := v\<rparr>"
    using assms(3) unfolding entry_published_def by (elim exE conjE)
  have canon: "canon_step s t" and len: "length (ss_log s) \<le> length (ss_log t)"
    using assms(1,2) by (auto simp: effects_step_def)
  have "Saved c v \<in> set (drop (length (ss_log s)) (ss_log u))"
    using set_drop_subset_set_drop [OF len, of "ss_log u"] c(3) by (rule subsetD)
  with c(2,4,5) entry_edit_canon [OF canon c(1)] show ?thesis
    unfolding entry_published_def by (intro exI conjI)
qed

lemma wp_with_debt [wp_simps]:
  "wp (with_debt E body) Q X s =
   wp body (\<lambda>f t. case f of Done a \<Rightarrow> Q (Done a) t | Again \<Rightarrow> Q Again ((sh_yield E t)\<lparr>ss_reconcile := True\<rparr>))
     (\<lambda>e t. X e ((sh_yield E t)\<lparr>ss_reconcile := True\<rparr>)) ((sh_yield E s)\<lparr>ss_reconcile := True\<rparr>)"
proof -
  have "wp (\<lambda>s. case body s of (Inr (Done a), t) \<Rightarrow> (Inr (Done a), t)
        | (r, t) \<Rightarrow> (r, (sh_yield E t)\<lparr>ss_reconcile := True\<rparr>)) Q X v =
    wp body (\<lambda>f t. case f of Done a \<Rightarrow> Q (Done a) t | Again \<Rightarrow> Q Again ((sh_yield E t)\<lparr>ss_reconcile := True\<rparr>))
     (\<lambda>e t. X e ((sh_yield E t)\<lparr>ss_reconcile := True\<rparr>)) v" for v
    by (cases "body v"; cases "fst (body v)") (auto simp: wp_def split: flow.splits)
  then show ?thesis by (simp add: with_debt_def)
qed

context editor_env
begin

text \<open>After its construction, a save is confirmed and published, answered by a reload, or fails.\<close>

lemma wp_entry_save:
  fixes s :: "'v editor_world sys" and c :: session_record and x :: u64
  defines "v \<equiv> s\<lparr>ss_log := ss_log s @ [Constructed (CallSave c (Some x))]\<rparr>"
  assumes wf: "arc_wf s" and P: "P (Polled (CallSave c (Some x)))" "\<And>n. P (Saved c n)"
    and log: "\<And>t u. R t u \<Longrightarrow> arc_wf t \<Longrightarrow> \<exists>new. ss_log u = ss_log t @ new"
  shows "wp (entry_save C E sc x c)
    (\<lambda>f t. R v t \<and> (case f of Again \<Rightarrow> True | Done n \<Rightarrow> x < n \<and> Saved c n \<in> set (drop (length (ss_log s)) (ss_log t))
       \<and> n \<le> sr_revision (ss_record t) \<and> (sr_revision (ss_record t) = n \<longrightarrow> ss_record t = c\<lparr>sr_revision := n\<rparr>)))
    (\<lambda>_. R v) s"
proof -
  have wfv: "arc_wf v" using wf by (simp add: v_def arc_wf_def)
  have wait: "wp (scope_wait E (CallSave c (Some x)) (sh_save E c (Some x)) True) (\<lambda>_. R v) (\<lambda>_. R v) v"
    by (intro keeps_wpI keeps_scope_wait P)
  have again: "wp (bindE (scope_reload C E sc) (\<lambda>_. ret Again))
      (\<lambda>f t. R v t \<and> f = Again) (\<lambda>_. R v) t" if "R v t" for t
    by (rule wp_seq_acc [OF keeps_scope_reload that]) simp_all
  have fin: "wp (bindE (record_effect (Saved c n)) (\<lambda>_. if n > x then
        bindE (reconcile_saved E (c\<lparr>sr_revision := n\<rparr>)) (\<lambda>_. ret (Done n)) else raise err_metadata_non_increasing))
      (\<lambda>f t. R v t \<and> f = Done n \<and> x < n \<and> Saved c n \<in> set (drop (length (ss_log s)) (ss_log t))
         \<and> n \<le> sr_revision (ss_record t) \<and> (sr_revision (ss_record t) = n \<longrightarrow> ss_record t = c\<lparr>sr_revision := n\<rparr>))
      (\<lambda>_. R v) t" if t: "R v t" for t n
  proof -
    let ?w = "t\<lparr>ss_log := ss_log t @ [Saved c n]\<rparr>"
    have w: "R v ?w" using t logged [OF P(2)] by (rule trans)
    have wfw: "arc_wf ?w" using w wfv by (rule R_arc_wf)
    have len: "length (ss_log s) \<le> length (ss_log t)" using log [OF t wfv] by (auto simp: v_def)
    have mem: "Saved c n \<in> set (drop (length (ss_log s)) (ss_log z))" if "R ?w z" for z
      using log [OF that wfw] len by auto
    have "wp (reconcile_saved E (c\<lparr>sr_revision := n\<rparr>)) (\<lambda>_ z. R v z \<and> Saved c n \<in> set (drop (length (ss_log s)) (ss_log z))
         \<and> n \<le> sr_revision (ss_record z) \<and> (sr_revision (ss_record z) = n \<longrightarrow> ss_record z = c\<lparr>sr_revision := n\<rparr>))
      (\<lambda>_. R v) ?w"
      by (rule wp_mono [OF wp_reconcile_saved [OF wfw]]) (simp_all add: mem trans [OF w])
    then have "wp (bindE (reconcile_saved E (c\<lparr>sr_revision := n\<rparr>)) (\<lambda>_. ret (Done n)))
      (\<lambda>f z. R v z \<and> f = Done n \<and> Saved c n \<in> set (drop (length (ss_log s)) (ss_log z))
         \<and> n \<le> sr_revision (ss_record z) \<and> (sr_revision (ss_record z) = n \<longrightarrow> ss_record z = c\<lparr>sr_revision := n\<rparr>))
      (\<lambda>_. R v) ?w" by (rule wp_seq) simp_all
    then show ?thesis
      using w by (subst wp_bindE, subst wp_record_effect, subst wp_if) (auto simp del: wp_bindE elim: wp_mono)
  qed
  show ?thesis
    unfolding entry_save_def
    apply (subst wp_bindE, subst wp_record_effect, fold v_def, subst wp_catchE, rule wp_mono [OF wait])
    subgoal by (rule wp_mono [OF fin]) auto
    subgoal by (auto simp del: wp_bindE split: stop.splits engine_error.splits intro!: wp_mono [OF again])
    done
qed

end

text \<open>One attempt: at most one save, sent with the debt raised.\<close>

lemma wp_compare_attempt:
  fixes E :: "('v editor_world, 'z) store_host_scheme"
  assumes env: "env_beside E" "k \<longrightarrow> debt_stays E" and wf: "arc_wf s"
  shows "wp (compare_attempt C E sc key expected replacement)
    (\<lambda>f t. edit_step k (entry_effect C s sc key expected replacement) (Suc 0) s t
       \<and> (case f of Again \<Rightarrow> True | Done v \<Rightarrow> entry_published C s sc key expected replacement v t))
    (\<lambda>_. edit_step k (entry_effect C s sc key expected replacement) (Suc 0) s) s"
proof -
  let ?P = "entry_effect C s sc key expected replacement"
  let ?R = "quiet_edit k ?P"
  have D: "editor_env ?R E (\<lambda>e. ?P e \<and> \<not> constructs_save e)"
    by (rule editor_env_quiet [OF env]) (simp_all add: entry_effect_def load_effect_def)
  note S = D [THEN editor_env.axioms(1), THEN turn_env.axioms(1)]
  have yield: "?R v (sh_yield E v)" for v by (rule session_env.yield [OF S])
  have step: "edit_step k ?P (Suc 0) s t" if "?R s t" for t using that by (rule quiet_edit_step)
  have owe: "?R a (t\<lparr>ss_reconcile := True\<rparr>)" if "?R a t" for a t :: "'v editor_world sys"
    using that editor_env.owe [OF D] by (rule quiet.trans)
  have log: "\<exists>new. ss_log u = ss_log t @ new" if "?R t u" "arc_wf t" for t u
    using that by (auto simp: quiet_edit_def effects_step_def)
  have save: "wp (with_debt E (entry_save C E sc (sr_revision (ss_record u)) c))
      (\<lambda>f t. edit_step k ?P (Suc 0) s t \<and> (case f of Again \<Rightarrow> True | Done v \<Rightarrow> entry_published C s sc key expected replacement v t))
      (\<lambda>_. edit_step k ?P (Suc 0) s) t"
    if edit: "entry_edit C s sc key expected replacement c x" and x: "x = sr_revision (ss_record u)" and t: "?R s t" for c x u t
  proof -
    let ?d = "(sh_yield E t)\<lparr>ss_reconcile := True\<rparr>"
    let ?v = "?d\<lparr>ss_log := ss_log ?d @ [Constructed (CallSave c (Some x))]\<rparr>"
    have d: "?R s ?d" using quiet.trans [OF t yield] by (rule owe)
    have wfd: "arc_wf ?d" using d wf by (rule quiet_edit_wf)
    have P: "?P e" if "save_effect c (Some x) e" for e using that edit by (auto simp: entry_effect_def)
    have sent: "edit_step k ?P (Suc 0) s z" if "?R ?v z" for z
      by (rule edit_step_save [OF d _ _ that]) (simp_all add: P save_effect_def)
    have len: "length (ss_log s) \<le> length (ss_log ?d)" using log [OF d wf] by auto
    have published: "entry_published C s sc key expected replacement n z"
      if "x < n" "Saved c n \<in> set (drop (length (ss_log ?d)) (ss_log z))" "n \<le> sr_revision (ss_record z)"
        "sr_revision (ss_record z) = n \<longrightarrow> ss_record z = c\<lparr>sr_revision := n\<rparr>" for n z
      unfolding entry_published_def
      using edit that(1) subsetD [OF set_drop_subset_set_drop [OF len, of "ss_log z"] that(2)] that(3,4)
      by (intro exI conjI)
    show ?thesis
      unfolding wp_with_debt x [symmetric]
    proof (rule wp_mono [OF editor_env.wp_entry_save [OF D wfd]])
      fix f z
      assume "?R ?v z \<and> (case f of Again \<Rightarrow> True | Done n \<Rightarrow> x < n \<and> Saved c n \<in> set (drop (length (ss_log ?d)) (ss_log z))
         \<and> n \<le> sr_revision (ss_record z) \<and> (sr_revision (ss_record z) = n \<longrightarrow> ss_record z = c\<lparr>sr_revision := n\<rparr>))"
      then show "case f of Again \<Rightarrow> edit_step k ?P (Suc 0) s ((sh_yield E z)\<lparr>ss_reconcile := True\<rparr>) \<and> (case Again of Again \<Rightarrow> True | Done v \<Rightarrow> entry_published C s sc key expected replacement v ((sh_yield E z)\<lparr>ss_reconcile := True\<rparr>))
        | Done a \<Rightarrow> edit_step k ?P (Suc 0) s z \<and> (case Done a of Again \<Rightarrow> True | Done v \<Rightarrow> entry_published C s sc key expected replacement v z)"
        by (cases f) (simp_all add: published sent owe [OF quiet.trans [OF _ yield]])
    qed (simp_all add: P save_effect_def constructs_save_def log sent owe [OF quiet.trans [OF _ yield]])
  qed
  show ?thesis
    unfolding compare_attempt_def
  proof (rule wp_seq [OF editor_env.wp_scope_snapshot [OF D quiet.refl]])
    fix arc u
    assume a: "?R s u \<and> arc = (ss_ptr u, ss_record u) \<and> scope_validate_identity sc (ss_record u) = Inr ()
       \<and> sr_revision (ss_record u) \<noteq> 0 \<and> record_ok C (ss_record u)"
    let ?c = "(ss_record u)\<lparr>sr_metadata := edit_entry key replacement (sr_metadata (ss_record u))\<rparr>"
    have arc: "arc = (ss_ptr u, ss_record u)" using a by simp
    have canon: "canon_step s u" using a by (simp add: quiet_edit_def effects_step_def)
    have edit: "entry_edit C s sc key expected replacement ?c (sr_revision (ss_record u))"
      if "bt_lookup (sr_metadata (ss_record u)) key = expected"
        "validate_candidate (ec_serializer C) (ss_record u) key replacement (ec_limits C) = Inr ()"
      using a canon that unfolding entry_edit_def by blast
    have w: "?R s (sh_yield E u)" using a yield by (blast intro: quiet.trans)
    have last: "wp (bindE (scope_ensure_open E) (\<lambda>_. with_debt E (entry_save C E sc (sr_revision (ss_record u)) ?c)))
      (\<lambda>f t. edit_step k ?P (Suc 0) s t \<and> (case f of Again \<Rightarrow> True | Done v \<Rightarrow> entry_published C s sc key expected replacement v t))
      (\<lambda>_. edit_step k ?P (Suc 0) s) (sh_yield E u)"
      if "entry_edit C s sc key expected replacement ?c (sr_revision (ss_record u))"
      by (rule quiet.wp_seq_acc [OF editor_env.keeps_scope_ensure_open [OF D] w])
        (simp_all add: save [OF that refl] step)
    have current: "wp (bindE (snapshot_is_current E (ss_ptr u, ss_record u) True) (\<lambda>fresh.
         if \<not> fresh then ret Again
         else bindE (scope_ensure_open E) (\<lambda>_. with_debt E (entry_save C E sc (sr_revision (ss_record u)) ?c))))
      (\<lambda>f t. edit_step k ?P (Suc 0) s t \<and> (case f of Again \<Rightarrow> True | Done v \<Rightarrow> entry_published C s sc key expected replacement v t))
      (\<lambda>_. edit_step k ?P (Suc 0) s) u"
      if "entry_edit C s sc key expected replacement ?c (sr_revision (ss_record u))"
      by (subst wp_bindE, subst wp_snapshot_is_current) (simp add: Let_def last [OF that] step w del: wp_bindE)
    show "wp (let current = snd arc in
       if bt_lookup (sr_metadata current) key \<noteq> expected then raise entry_conflict
       else bindE (lift_err (validate_candidate (ec_serializer C) current key replacement (ec_limits C))) (\<lambda>_.
         let candidate = current\<lparr>sr_metadata := edit_entry key replacement (sr_metadata current)\<rparr> in
         bindE (snapshot_is_current E arc True) (\<lambda>fresh.
         if \<not> fresh then ret Again
         else bindE (scope_ensure_open E) (\<lambda>_.
           with_debt E (entry_save C E sc (sr_revision current) candidate)))))
      (\<lambda>f t. edit_step k ?P (Suc 0) s t \<and> (case f of Again \<Rightarrow> True | Done v \<Rightarrow> entry_published C s sc key expected replacement v t))
      (\<lambda>_. edit_step k ?P (Suc 0) s) u"
      unfolding arc Let_def snd_conv
      by (subst wp_if, subst wp_bindE)
        (simp add: step a del: wp_bindE wp_lift_err, intro impI wp_lift_errI; simp add: step a current edit del: wp_bindE)
  qed (rule step)
qed

lemma wp_holding_operation [wp_simps]:
  "wp (holding_operation E body) Q X s =
   wp (scope_ensure_open E) (\<lambda>_ t. let u = sh_yield E t in
       if ew_operation_active (ss_world u) then X (Error SessionBusy) u
       else wp (bindE (scope_ensure_open E) (\<lambda>_. body)) (\<lambda>a z. Q a (set_active False z)) (\<lambda>e z. X e (set_active False z))
          (set_active True u)) X s"
proof -
  define G where "G = (\<lambda>s. if ew_operation_active (ss_world s) then (Inl (Error SessionBusy), s)
    else case bindE (scope_ensure_open E) (\<lambda>_. body) (set_active True s) of (r, t) \<Rightarrow> (r, set_active False t))"
  have G: "wp G Q X u =
    (if ew_operation_active (ss_world u) then X (Error SessionBusy) u
     else wp (bindE (scope_ensure_open E) (\<lambda>_. body)) (\<lambda>a z. Q a (set_active False z)) (\<lambda>e z. X e (set_active False z))
       (set_active True u))" for u
    unfolding wp_def G_def by (simp split: prod.splits sum.splits)
  have "wp (bindE (interleave E) (\<lambda>_. G)) Q X = (\<lambda>t. wp G Q X (sh_yield E t))" by (rule ext) simp
  then show ?thesis
    unfolding holding_operation_def G_def [symmetric] Let_def G [symmetric] by simp
qed

lemma set_active_sel [simp]:
  "ss_log (set_active b s) = ss_log s" "ss_record (set_active b s) = ss_record s"
  "ss_reconcile (set_active b s) = ss_reconcile s" "saves_sent (set_active b s) = saves_sent s"
  "ew_operation_active (ss_world (set_active b s)) = b" "arc_wf (set_active b s) = arc_wf s"
  by (simp_all add: set_active_def saves_sent_def arc_wf_def)

lemma set_active_canon [simp]:
  "canon_step s (set_active b t) = canon_step s t" "canon_step (set_active b s) t = canon_step s t"
  by (simp_all add: set_active_def canon_step_def arc_wf_def)

lemma set_active_effects [simp]:
  "effects_step P s (set_active b t) = effects_step P s t"
  "edit_step k P n s (set_active b t) = edit_step k P n s t"
  "quiet_edit k P s (set_active b t) = quiet_edit k P s t"
  "entry_published C s sc key expected replacement v (set_active b t) = entry_published C s sc key expected replacement v t"
  by (simp_all add: effects_step_def edit_step_def quiet_edit_def entry_published_def)

text \<open>The loop sends at most one save in each of its attempts.\<close>

lemma wp_compare_loop:
  fixes E :: "('v editor_world, 'z) store_host_scheme"
  assumes env: "env_beside E" "k \<longrightarrow> debt_stays E" and wf: "arc_wf s"
    and s: "quiet_edit k (entry_effect C s0 sc key expected replacement) s0 s" and wf0: "arc_wf s0"
  shows "wp (retry n (compare_attempt C E sc key expected replacement) (raise err_metadata_contended))
    (\<lambda>v t. edit_step k (entry_effect C s0 sc key expected replacement) n s0 t
       \<and> entry_published C s0 sc key expected replacement v t)
    (\<lambda>_. edit_step k (entry_effect C s0 sc key expected replacement) n s0) s"
proof (rule wp_retry_counted [where I = "\<lambda>m t. m \<le> n \<and> edit_step k (entry_effect C s0 sc key expected replacement) (n - m) s0 t"])
  let ?P = "\<lambda>s. entry_effect C s sc key expected replacement"
  show "n \<le> n \<and> edit_step k (?P s0) (n - n) s0 s" using quiet_edit_step [OF s] by simp
  fix m t assume t: "Suc m \<le> n \<and> edit_step k (?P s0) (n - Suc m) s0 t"
  have canon: "canon_step s0 t" and eff: "effects_step (?P s0) s0 t" using t by (simp_all add: edit_step_def effects_step_def)
  have wft: "arc_wf t" using canon wf0 by (rule canon_step_arc_wf)
  have more: "edit_step k (?P s0) (n - m) s0 u" if "edit_step k (?P t) (Suc 0) t u" for u
  proof -
    have "edit_step k (?P s0) (Suc 0) t u"
      using that by (rule edit_step_mono) (simp_all add: entry_effect_canon [OF canon])
    with t have "edit_step k (?P s0) (n - Suc m + Suc 0) s0 u" by (blast intro: edit_step_trans)
    moreover have "n - Suc m + Suc 0 = n - m" using t by linarith
    ultimately show ?thesis by simp
  qed
  show "wp (compare_attempt C E sc key expected replacement)
      (\<lambda>r u. case r of Again \<Rightarrow> m \<le> n \<and> edit_step k (?P s0) (n - m) s0 u
        | Done v \<Rightarrow> edit_step k (?P s0) n s0 u \<and> entry_published C s0 sc key expected replacement v u)
      (\<lambda>_. edit_step k (?P s0) n s0) t"
  proof (rule wp_mono [OF wp_compare_attempt [OF env wft]])
    have any: "edit_step k (?P s0) n s0 u" if "edit_step k (?P t) (Suc 0) t u" for u
      using more [OF that] by (rule edit_step_mono) simp_all
    show "edit_step k (?P s0) n s0 u" if "edit_step k (?P t) (Suc 0) t u" for u using that by (rule any)
    show "case f of Again \<Rightarrow> m \<le> n \<and> edit_step k (?P s0) (n - m) s0 u
        | Done v \<Rightarrow> edit_step k (?P s0) n s0 u \<and> entry_published C s0 sc key expected replacement v u"
      if "edit_step k (?P t) (Suc 0) t u \<and> (case f of Again \<Rightarrow> True | Done v \<Rightarrow> entry_published C t sc key expected replacement v u)" for f u
      using that t by (cases f) (simp_all add: more any entry_published_canon [OF eff wf0])
  qed
qed simp

lemma session_env_quiet:
  "env_beside E \<Longrightarrow> k \<longrightarrow> debt_stays E \<Longrightarrow> session_env (quiet_edit k P) E"
  by unfold_locales (auto simp: env_beside_def quiet_edit_def effects_step_def canon_step_def debt_stays_def)

lemma keeps_open_check:
  assumes "session_env R E"
  shows "keeps R (scope_ensure_open E)" "keeps R (upgrade_scope E)"
  unfolding scope_ensure_open_def upgrade_scope_def ensure_open_def
  by (intro session_env.keeps_session_rules [OF assms];
      simp add: keeps_def step_relation.refl [OF session_env.axioms(1) [OF assms]])+

text \<open>The part of the compare-and-set that runs under the operation lease.\<close>

lemma wp_compare_body:
  fixes E :: "('v editor_world, 'z) store_host_scheme"
  assumes env: "env_beside E" "k \<longrightarrow> debt_stays E" and wf: "arc_wf s"
    and u: "quiet_edit k (entry_effect C s sc key expected replacement) s u"
  shows "wp (bindE (scope_ensure_open E) (\<lambda>_.
      bindE (lift_err (validate_replacement (ec_serializer C) key replacement (ec_limits C))) (\<lambda>_.
      bindE (bindE (interleave E) (\<lambda>_. get ss_reconcile)) (\<lambda>required.
      bindE (if required then bindE (scope_reload C E sc) (\<lambda>_. ret ()) else ret ()) (\<lambda>_.
      retry n (compare_attempt C E sc key expected replacement) (raise err_metadata_contended))))))
    (\<lambda>v t. edit_step k (entry_effect C s sc key expected replacement) n s t
       \<and> entry_published C s sc key expected replacement v t)
    (\<lambda>_. edit_step k (entry_effect C s sc key expected replacement) n s) u"
proof -
  let ?P = "entry_effect C s sc key expected replacement"
  have D: "editor_env (quiet_edit k ?P) E (\<lambda>e. ?P e \<and> \<not> constructs_save e)"
    by (rule editor_env_quiet [OF env]) (simp_all add: entry_effect_def load_effect_def)
  note S = D [THEN editor_env.axioms(1), THEN turn_env.axioms(1)]
  have err: "edit_step k ?P n s t" if "quiet_edit k ?P s t" for t using that by (rule quiet_edit_step)
  note seq = quiet.wp_seq_acc [where ?s0.0 = s and P = ?P and k = k]
  have open_check: "keeps (quiet_edit k ?P) (scope_ensure_open E)" by (rule editor_env.keeps_scope_ensure_open [OF D])
  have valid: "keeps (quiet_edit k ?P) (lift_err r :: ('v, unit) editor_op)" for r
    by (rule session_env.keeps_lift_err [OF S])
  have flag: "keeps (quiet_edit k ?P) (bindE (interleave E) (\<lambda>_. get ss_reconcile))"
    by (intro session_env.keeps_session_rules [OF S])
  have reload: "keeps (quiet_edit k ?P) (if b then bindE (scope_reload C E sc) (\<lambda>_. ret ()) else ret ())" for b
    by (intro session_env.keeps_session_rules [OF S] editor_env.keeps_scope_reload [OF D])
  show ?thesis
    by (rule seq [OF open_check u], rule seq [OF valid], assumption, rule seq [OF flag], assumption,
        rule seq [OF reload], assumption, rule wp_compare_loop [OF env _ _ wf])
      (auto intro: err quiet_edit_wf [OF _ wf])
qed

text \<open>Both operations of an editor run their body under the lease of the scope, or do nothing.\<close>

lemma wp_under_lease:
  assumes env: "env_beside E" "k \<longrightarrow> debt_stays E"
    and err: "\<And>e t. quiet_edit k (\<lambda>_. False) s t \<Longrightarrow> X e t"
    and body: "\<And>u. quiet_edit k (\<lambda>_. False) s u \<Longrightarrow>
      wp (bindE (scope_ensure_open E) (\<lambda>_. body)) (\<lambda>v z. Q v (set_active False z)) (\<lambda>e z. X e (set_active False z)) (set_active True u)"
  shows "wp (bindE (upgrade_scope E) (\<lambda>_. holding_operation E body)) Q X s"
proof -
  let ?Z = "quiet_edit k (\<lambda>_. False)"
  have S: "session_env ?Z E" using env by (rule session_env_quiet)
  have hold: "wp (holding_operation E body) Q X t" if t: "?Z s t" for t
    unfolding wp_holding_operation Let_def
  proof (rule wp_mono [OF keeps_wpI [OF keeps_open_check(1) [OF S]]])
    show "X e z" if "?Z t z" for e z using t that by (intro err) (rule quiet.trans)
    fix a z assume "?Z t z"
    with t have "?Z s z" by (rule quiet.trans)
    then have y: "?Z s (sh_yield E z)" using session_env.yield [OF S] by (rule quiet.trans)
    show "if ew_operation_active (ss_world (sh_yield E z)) then X (Error SessionBusy) (sh_yield E z)
      else wp (bindE (scope_ensure_open E) (\<lambda>_. body)) (\<lambda>v z. Q v (set_active False z)) (\<lambda>e z. X e (set_active False z))
        (set_active True (sh_yield E z))"
      by (rule if_bool_eq_conj [THEN iffD2], rule conjI; rule impI, rule err [OF y] body [OF y])
  qed
  show ?thesis
    by (rule quiet.wp_seq_acc [OF keeps_open_check(2) [OF S] quiet.refl hold]) (assumption, rule err)
qed

lemma quiet_edit_idle:
  assumes "quiet_edit k (\<lambda>_. False) s t"
  shows "edit_step k P n s t" "quiet_edit k P s t" "arc_wf s \<Longrightarrow> ss_log t = ss_log s"
proof -
  show q: "quiet_edit k P s t" using assms by (auto simp: quiet_edit_def elim: effects_step_mono)
  show "edit_step k P n s t" using q by (rule quiet_edit_step)
  show "ss_log t = ss_log s" if "arc_wf s"
    using assms that by (auto simp: quiet_edit_def effects_step_def list_all_iff)
qed

text \<open>
  The whole operation: at most 32 saves, each of them the edit of this entry; while another operation
  of the scope runs, nothing is sent.
\<close>

lemma wp_compare_exchange:
  fixes E :: "('v editor_world, 'z) store_host_scheme"
  assumes env: "env_beside E" "k \<longrightarrow> debt_stays E" and wf: "arc_wf s"
    and sc: "sc = me_scope ed" and key: "key = me_key ed" and entry: "entry = snapshot_entry expected"
  shows "wp (compare_exchange C E ed expected replacement)
    (\<lambda>v t. edit_step k (entry_effect C s sc key entry replacement) MAX_METADATA_RETRIES s t
       \<and> \<not> ew_operation_active (ss_world t) \<and> entry_published C s sc key entry replacement v t)
    (\<lambda>e t. edit_step k (entry_effect C s sc key entry replacement) MAX_METADATA_RETRIES s t
       \<and> (ew_operation_active (ss_world t) \<longrightarrow> ss_log t = ss_log s)) s"
    (is "wp _ ?Q ?X s")
proof -
  let ?P = "entry_effect C s sc key entry replacement"
  define body where "body = bindE (lift_err (validate_replacement (ec_serializer C) key replacement (ec_limits C))) (\<lambda>_.
      bindE (bindE (interleave E) (\<lambda>_. get ss_reconcile)) (\<lambda>required.
      bindE (if required then bindE (scope_reload C E sc) (\<lambda>_. ret ()) else ret ()) (\<lambda>_.
      retry MAX_METADATA_RETRIES (compare_attempt C E sc key entry replacement) (raise err_metadata_contended))))"
  have err: "?X e t" if "quiet_edit k (\<lambda>_. False) s t" for e t
    using quiet_edit_idle [OF that] wf by simp
  have "wp (bindE (upgrade_scope E) (\<lambda>_. holding_operation E body)) ?Q ?X s"
  proof (rule wp_under_lease [OF env], erule err)
    fix u assume "quiet_edit k (\<lambda>_. False) s u"
    then have "quiet_edit k ?P s (set_active True u)" by (simp add: quiet_edit_idle(2))
    from wp_compare_body [OF env wf this, of MAX_METADATA_RETRIES]
    show "wp (bindE (scope_ensure_open E) (\<lambda>_. body)) (\<lambda>v z. ?Q v (set_active False z)) (\<lambda>e z. ?X e (set_active False z))
        (set_active True u)"
      unfolding body_def by (rule wp_mono) simp_all
  qed
  moreover have "wp (raise err_foreign_snapshot) ?Q ?X s"
    unfolding wp_raise by (rule err) (rule quiet.refl)
  ultimately show ?thesis
    unfolding compare_exchange_def body_def [symmetric] sc [symmetric] key [symmetric] entry [symmetric]
    by (simp only: wp_if split: if_split) simp
qed

section \<open>Reading\<close>

lemma wp_read_entry:
  fixes E :: "('v editor_world, 'z) store_host_scheme"
  assumes env: "env_beside E" and wf: "arc_wf s"
  shows "wp (read_entry C E ed)
    (\<lambda>n t. effects_step load_effect s t \<and> \<not> ew_operation_active (ss_world t) \<and> mn_editor n = ed
       \<and> mn_record n = ss_record t \<and> scope_validate_identity (me_scope ed) (ss_record t) = Inr () \<and> record_ok C (ss_record t))
    (\<lambda>e t. effects_step load_effect s t \<and> (ew_operation_active (ss_world t) \<longrightarrow> ss_log t = ss_log s)) s"
    (is "wp _ ?Q ?X s")
  unfolding read_entry_def
proof (rule wp_under_lease [OF env, where k = False])
  let ?R = "quiet_edit False load_effect"
  have D: "editor_env ?R E (\<lambda>e. load_effect e \<and> \<not> constructs_save e)"
    by (rule editor_env_quiet [OF env]) (simp_all add: load_effect_def)
  note seq = quiet.wp_seq_acc [where ?s0.0 = s and P = load_effect and k = False]
  show "?X e t" if "quiet_edit False (\<lambda>_. False) s t" for e t
    using quiet_edit_idle(1) [OF that, of load_effect 0] quiet_edit_idle(3) [OF that wf] by (simp add: edit_step_def)
  have loads: "effects_step load_effect s t" if "?R s t" for t
    using that by (auto simp: quiet_edit_def elim: effects_step_mono)
  fix u assume "quiet_edit False (\<lambda>_. False) s u"
  then have u: "?R s (set_active True u)" by (simp add: quiet_edit_idle(2))
  have reload: "wp (scope_reload C E (me_scope ed))
      (\<lambda>arc t. effects_step load_effect s t \<and> snd arc = ss_record t \<and> scope_validate_identity (me_scope ed) (ss_record t) = Inr ()
         \<and> record_ok C (ss_record t))
      (\<lambda>_. effects_step load_effect s) t" if "?R s t" for t
    by (rule wp_mono [OF editor_env.wp_scope_reload [OF D that]]) (auto simp: loads)
  show "wp (bindE (scope_ensure_open E) (\<lambda>_. bindE (scope_reload C E (me_scope ed)) (\<lambda>arc. ret \<lparr>mn_editor = ed, mn_record = snd arc\<rparr>)))
      (\<lambda>n z. ?Q n (set_active False z)) (\<lambda>e z. ?X e (set_active False z)) (set_active True u)"
    by (rule seq [OF editor_env.keeps_scope_ensure_open [OF D] u], rule wp_seq [OF reload]) (auto simp: loads)
qed simp

text \<open>
  An editor whose turn has stopped admitting operations, or was cancelled, does nothing.
\<close>

definition scope_closed :: "'v editor_world sys \<Rightarrow> bool" where
  "scope_closed s \<longleftrightarrow> ew_admission_closed (ss_world s) \<or> ss_cancelled s"

definition closes_for_good :: "('v editor_world, 'z) store_host_scheme \<Rightarrow> bool" where
  "closes_for_good E \<longleftrightarrow> (\<forall>s. (ew_admission_closed (ss_world s) \<longrightarrow> ew_admission_closed (ss_world (sh_yield E s)))
     \<and> (ss_cancelled s \<longrightarrow> ss_cancelled (sh_yield E s)))"

lemma close_admission_closes: "wp (close_admission E) (\<lambda>_ t. scope_closed t) X s"
  by (simp add: close_admission_def scope_closed_def)

lemma wp_closed_holding:
  assumes env: "env_beside E" "closes_for_good E" and wf: "arc_wf s" and shut: "scope_closed s"
  shows "wp (bindE (upgrade_scope E) (\<lambda>_. holding_operation E body)) (\<lambda>_ _. False) (\<lambda>e t. e \<noteq> Dropped \<and> ss_log t = ss_log s) s"
proof -
  have y: "scope_closed (sh_yield E t)" "arc_wf (sh_yield E t)" "ss_log (sh_yield E t) = ss_log t"
    if "scope_closed t" "arc_wf t" for t
    using that env by (auto simp: scope_closed_def closes_for_good_def env_beside_def canon_step_def)
  let ?a = "sh_yield E s" let ?b = "sh_yield E ?a" let ?c = "sh_yield E ?b" let ?d = "sh_yield E ?c"
  note a = y [OF shut wf] note b = y [OF a(1,2)] note c = y [OF b(1,2)] note d = y [OF c(1,2)]
  have "\<not> ew_admission_closed (ss_world ?c) \<Longrightarrow> ss_cancelled ?d"
    using c(1) env(2) by (auto simp: scope_closed_def closes_for_good_def)
  then show ?thesis
    using a(3) b(3) c(3) d(3)
    by (auto simp: upgrade_scope_def wp_holding_operation scope_ensure_open_def Let_def)
qed

lemma candidate_metadata_alt:
  "candidate_metadata key replacement m =
     (case replacement of Some v \<Rightarrow> bt_insert key v (bt_remove key m) | None \<Rightarrow> bt_remove key m)"
  unfolding candidate_metadata_def bt_remove_def case_prod_beta' Let_def ..

text \<open>
  The edit of one entry sets that entry to the replacement, or removes it, and leaves every other entry as it is; the
  metadata whose size and shape were validated is the metadata that is saved.
\<close>

lemma edit_entry_exact:
  assumes "bt_invar m"
  shows "edit_entry key replacement m = candidate_metadata key replacement m
    \<and> bt_invar (edit_entry key replacement m)
    \<and> bt_lookup (edit_entry key replacement m) j = (if j = key then replacement else bt_lookup m j)"
  using assms
  by (auto simp: edit_entry_def candidate_metadata_alt bt_insert_remove bt_invar_insert
      bt_invar_remove bt_lookup_insert bt_lookup_remove split: option.split)

text \<open>
  The record of a save, spelled out: a canonical record of the session, sent against its own revision, that had the
  expected entry; apart from its metadata nothing differs, and in the metadata only the entry.
\<close>

definition only_entry_changed ::
  "'w sys \<Rightarrow> string \<Rightarrow> json option \<Rightarrow> json option \<Rightarrow> session_record \<Rightarrow> u64 option \<Rightarrow> bool" where
  "only_entry_changed s key expected replacement c x \<longleftrightarrow>
     (\<exists>u. canon_step s u \<and> x = Some (sr_revision (ss_record u))
        \<and> bt_lookup (sr_metadata (ss_record u)) key = expected
        \<and> c = (ss_record u)\<lparr>sr_metadata := sr_metadata c\<rparr>
        \<and> (bt_invar (sr_metadata (ss_record u)) \<longrightarrow> bt_invar (sr_metadata c)
            \<and> (\<forall>j. bt_lookup (sr_metadata c) j =
                 (if j = key then replacement else bt_lookup (sr_metadata (ss_record u)) j))))"

lemma entry_effect_only:
  assumes "entry_effect C s sc key expected replacement (Constructed (CallSave c x))"
  shows "only_entry_changed s key expected replacement c x"
proof -
  obtain y where "entry_edit C s sc key expected replacement c y" and x: "x = Some y"
    using assms by (auto simp: entry_effect_def load_effect_def save_effect_def)
  then obtain u where u: "canon_step s u" "bt_lookup (sr_metadata (ss_record u)) key = expected" "y = sr_revision (ss_record u)"
    "c = (ss_record u)\<lparr>sr_metadata := edit_entry key replacement (sr_metadata (ss_record u))\<rparr>"
    by (auto simp: entry_edit_def)
  have "bt_invar (sr_metadata c)
      \<and> (\<forall>j. bt_lookup (sr_metadata c) j = (if j = key then replacement else bt_lookup (sr_metadata (ss_record u)) j))"
    if inv: "bt_invar (sr_metadata (ss_record u))"
  proof -
    have "sr_metadata c = edit_entry key replacement (sr_metadata (ss_record u))" by (simp add: u(4))
    then show ?thesis using edit_entry_exact [OF inv, of key replacement] by metis
  qed
  with u x show ?thesis unfolding only_entry_changed_def by (intro exI [of _ u]) simp
qed

section \<open>Properties of editors\<close>

text \<open>A store that keeps one record and checks the expected revision of a save, and a turn beside it.\<close>

definition demo_editor_host :: "session_record editor_world store_host" where
  "demo_editor_host = quiet_host (\<lambda>_. 2) (\<lambda>_. True)
     (\<lambda>_ w. (Some (Inr (Some (ew_host w))), w))
     (\<lambda>r x w. if x = Some (sr_revision (ew_host w))
        then (Some (Inr (sr_revision r + 1)), w\<lparr>ew_host := r\<lparr>sr_revision := sr_revision r + 1\<rparr>\<rparr>)
        else (Some (Inl (component_error_new SConflict ''conflict'' ''conflict'' True)), w))"

definition demo_editor_record :: session_record where
  "demo_editor_record = sample_record\<lparr>sr_revision := 3, sr_next_turn_sequence := 2, sr_metadata := [(''a'', JNull), (''k'', JNull)]\<rparr>"

definition demo_editor_config :: engine_config where
  "demo_editor_config = \<lparr>ec_serializer = sample_serializer, ec_limits = limits_default,
     ec_sha256 = (\<lambda>_. replicate 32 (CHR 0x00)), ec_tools = [], ec_tool_specs = []\<rparr>"

definition demo_editor_state :: "bool \<Rightarrow> session_record \<Rightarrow> session_record editor_world sys" where
  "demo_editor_state shut stored = \<lparr>ss_ptr = 0, ss_record = demo_editor_record, ss_persisted = True, ss_lease = Others,
     ss_reconcile = False, ss_cancelled = False, ss_deferrals = 0, ss_usage = usage_default,
     ss_terminal = False, ss_fresh = 1,
     ss_world = \<lparr>ew_alive = True, ew_admission_closed = shut, ew_closed = shut, ew_operation_active = False, ew_host = stored\<rparr>,
     ss_log = []\<rparr>"

definition demo_editor :: metadata_editor where
  "demo_editor = \<lparr>me_identity = 4, me_scope = scope_new demo_editor_record, me_key = ''k''\<rparr>"

definition demo_expected :: metadata_snapshot where
  "demo_expected = \<lparr>mn_editor = demo_editor, mn_record = demo_editor_record\<rparr>"

lemma demo_editor_env: "env_beside demo_editor_host" "closes_for_good demo_editor_host" "debt_stays demo_editor_host"
  by (simp add: demo_editor_host_def env_beside_rely env_rely_quiet)
    (simp_all add: demo_editor_host_def closes_for_good_def debt_stays_def quiet_host_def)

lemma demo_editor_wf: "arc_wf (demo_editor_state b r)"
  by (simp add: arc_wf_def demo_editor_state_def)

text \<open>The entry is replaced although the store holds a newer record with another entry changed.\<close>

lemma demo_editor_run:
  "(case compare_exchange demo_editor_config demo_editor_host demo_editor demo_expected (Some (JBool True))
      (demo_editor_state False (demo_editor_record\<lparr>sr_revision := 7, sr_metadata := [(''a'', JBool False), (''k'', JNull)]\<rparr>)) of
    (r, t) \<Rightarrow> (r, sr_metadata (ss_record t), length (filter constructs_save (ss_log t)))) =
   (Inr 8, [(''a'', JBool False), (''k'', JBool True)], 2)"
  by code_simp

text \<open>
  C15. The compare-and-set of a metadata entry beside a running turn. Every record it sends to the store is a
  canonical record of exactly this turn that held the expected entry, changed in that entry only, validated, and sent
  against that record's own revision; at most 32 are sent, and none while another operation of the turn's editors runs.
  On success one of them was confirmed under the returned revision, and the session holds it or something newer. If
  nobody else settles the reconciliation debt meanwhile, it is set once a save was sent.
\<close>

theorem compare_exchange_contract:
  assumes "env_beside E" and "arc_wf s" and "compare_exchange C E ed expected replacement s = (r, t)"
  shows "\<exists>new. ss_log t = ss_log s @ new
    \<and> list_all (entry_effect C s (me_scope ed) (me_key ed) (snapshot_entry expected) replacement) new
    \<and> length (filter constructs_save new) \<le> 32
    \<and> list_all (\<lambda>e. \<forall>c x. e = Constructed (CallSave c x) \<longrightarrow>
        only_entry_changed s (me_key ed) (snapshot_entry expected) replacement c x) new
    \<and> (debt_stays E \<longrightarrow> list_ex constructs_save new \<longrightarrow> ss_reconcile t)
    \<and> (case r of Inl _ \<Rightarrow> ew_operation_active (ss_world t) \<longrightarrow> new = []
         | Inr v \<Rightarrow> \<not> ew_operation_active (ss_world t)
             \<and> entry_published C s (me_scope ed) (me_key ed) (snapshot_entry expected) replacement v t)"
proof -
  let ?P = "entry_effect C s (me_scope ed) (me_key ed) (snapshot_entry expected) replacement"
  have step: "edit_step (debt_stays E) ?P MAX_METADATA_RETRIES s t \<and> (case r of
      Inl _ \<Rightarrow> ew_operation_active (ss_world t) \<longrightarrow> ss_log t = ss_log s
    | Inr v \<Rightarrow> \<not> ew_operation_active (ss_world t)
        \<and> entry_published C s (me_scope ed) (me_key ed) (snapshot_entry expected) replacement v t)"
    using wp_compare_exchange [OF assms(1) _ assms(2) refl refl refl, of "debt_stays E" C ed expected replacement] assms(3)
    by (auto simp: wp_def split: sum.splits)
  then obtain new where new: "ss_log t = ss_log s @ new" "list_all ?P new"
    using assms(2) by (auto simp: edit_step_def effects_step_def)
  moreover have "length (filter constructs_save new) \<le> 32" "debt_stays E \<longrightarrow> list_ex constructs_save new \<longrightarrow> ss_reconcile t"
    using step assms(2) new(1)
    by (auto simp: edit_step_def saves_sent_def MAX_METADATA_RETRIES_def list_ex_iff filter_empty_conv)
  moreover have "list_all (\<lambda>e. \<forall>c x. e = Constructed (CallSave c x) \<longrightarrow>
      only_entry_changed s (me_key ed) (snapshot_entry expected) replacement c x) new"
    using new(2) by (auto elim!: list.pred_mono_strong dest: entry_effect_only)
  ultimately show ?thesis using step by (intro exI [of _ new]) (auto split: sum.splits)
qed

theorem compare_exchange_contract_witness:
  "\<exists>t :: session_record editor_world sys.
     sr_metadata (ss_record t) = [(''a'', JBool False), (''k'', JBool True)] \<and> ss_reconcile t
     \<and> (\<exists>c x. entry_edit demo_editor_config
         (demo_editor_state False (demo_editor_record\<lparr>sr_revision := 7, sr_metadata := [(''a'', JBool False), (''k'', JNull)]\<rparr>))
         (me_scope demo_editor) ''k'' (Some JNull) (Some (JBool True)) c x \<and> Saved c 8 \<in> set (ss_log t))"
proof -
  let ?s = "demo_editor_state False (demo_editor_record\<lparr>sr_revision := 7, sr_metadata := [(''a'', JBool False), (''k'', JNull)]\<rparr>)"
  obtain r t where run: "compare_exchange demo_editor_config demo_editor_host demo_editor demo_expected (Some (JBool True)) ?s = (r, t)"
    by fastforce
  have rt: "r = Inr 8" "sr_metadata (ss_record t) = [(''a'', JBool False), (''k'', JBool True)]"
      "length (filter constructs_save (ss_log t)) = 2"
    using demo_editor_run unfolding run by simp_all
  have key: "me_key demo_editor = ''k''" "snapshot_entry demo_expected = Some JNull" by code_simp+
  have log: "ss_log ?s = []" by (simp add: demo_editor_state_def)
  from compare_exchange_contract [OF demo_editor_env(1) demo_editor_wf run] rt(1) demo_editor_env(3)
  have "list_ex constructs_save (ss_log t) \<longrightarrow> ss_reconcile t"
    and "entry_published demo_editor_config ?s (me_scope demo_editor) ''k'' (Some JNull) (Some (JBool True)) 8 t"
    by (auto simp: key log)
  moreover have "list_ex constructs_save (ss_log t)"
    using rt(3) by (metis filter_False length_0_conv list_ex_iff numeral_2_eq_2 Zero_not_Suc)
  ultimately have "ss_reconcile t" and "entry_published demo_editor_config ?s (me_scope demo_editor) ''k'' (Some JNull) (Some (JBool True)) 8 t"
    by simp_all
  then show ?thesis
    using rt(2) unfolding entry_published_def log list.size(3) drop_0 by blast
qed

text \<open>
  Reading an entry sends nothing but loads; a snapshot it returns is the canonical record at that moment, belongs
  to the editor and to its turn, and fits the limits.
\<close>

lemma read_entry_result:
  assumes "env_beside E" and "arc_wf s" and "read_entry C E ed s = (r, t)"
  shows "effects_step load_effect s t
    \<and> (case r of Inl _ \<Rightarrow> ew_operation_active (ss_world t) \<longrightarrow> ss_log t = ss_log s
       | Inr n \<Rightarrow> \<not> ew_operation_active (ss_world t) \<and> n = \<lparr>mn_editor = ed, mn_record = ss_record t\<rparr>
           \<and> scope_validate_identity (me_scope ed) (ss_record t) = Inr () \<and> record_ok C (ss_record t))"
  using wp_read_entry [OF assms(1,2), of C ed] assms(3)
  by (cases r) (auto simp: wp_def)

text \<open>
  C20. Once the turn has closed its admission or was cancelled, every editor operation fails and sends nothing.
\<close>

theorem closed_editor_inert:
  fixes s :: "'v editor_world sys"
  assumes "env_beside E" "closes_for_good E" "arc_wf s" "scope_closed s"
  shows "(\<exists>e t. read_entry C E ed s = (Inl (Error e), t) \<and> ss_log t = ss_log s)
    \<and> (\<exists>e t. compare_exchange C E ed expected replacement s = (Inl (Error e), t) \<and> ss_log t = ss_log s)"
proof -
  have run: "\<exists>e t. m s = (Inl (Error e), t) \<and> ss_log t = ss_log s"
    if w: "wp m (\<lambda>_ _. False) (\<lambda>e t. e \<noteq> Dropped \<and> ss_log t = ss_log s) s" for m :: "('v, 'd) editor_op"
  proof -
    obtain e t where "m s = (Inl e, t)" "e \<noteq> Dropped" "ss_log t = ss_log s"
      using w unfolding wp_def by (cases "m s"; cases "fst (m s)") auto
    then show ?thesis by (cases e) auto
  qed
  note idle = wp_closed_holding [OF assms]
  have "\<exists>e t. read_entry C E ed s = (Inl (Error e), t) \<and> ss_log t = ss_log s"
    unfolding read_entry_def by (rule run [OF idle])
  moreover have "\<exists>e t. compare_exchange C E ed expected replacement s = (Inl (Error e), t) \<and> ss_log t = ss_log s"
  proof (cases "me_identity (mn_editor expected) = me_identity ed")
    case True
    then show ?thesis unfolding compare_exchange_def by (simp add: run [OF idle])
  qed (simp add: compare_exchange_def raise_def fail_def)
  ultimately show ?thesis ..
qed

theorem closed_editor_inert_witness:
  "\<exists>e t. compare_exchange demo_editor_config demo_editor_host demo_editor demo_expected None
     (demo_editor_state True demo_editor_record) = (Inl (Error e), t) \<and> ss_log t = []"
  using closed_editor_inert [OF demo_editor_env(1,2) demo_editor_wf, of True demo_editor_record]
  by (simp add: scope_closed_def demo_editor_state_def)

end
