(* ===== verification/Call_Scope.thy ===== *)
theory Call_Scope
  imports MG_Prelude Model_Types
begin

text \<open>
  Identity of sessions, turns and admitted tool calls (\<open>tool/invocation.rs\<close>). Witnesses are weak
  references: they name an allocation and never keep it alive. An admitted call may be claimed once, by
  the witness of its own turn while the turn is open; claims run on host threads, beside the turn.
\<close>

section \<open>Allocations\<close>

text \<open>
  A pointer is a number; memory behind a weak reference is not reused, so an allocation gets a fresh
  one (\<open>sc_fresh\<close> for sessions and turns, \<open>sc_fresh_call\<close> for calls). \<open>ts_strong\<close> and \<open>cs_strong\<close> are strong counts, 0 for an allocation that is gone.
\<close>

record turn_scope =
  ts_session :: nat
  ts_cancelled :: bool
  ts_open :: bool
  ts_strong :: nat

record call_scope =
  cs_turn :: nat
  cs_claimed :: bool
  cs_owned :: bool
  cs_strong :: nat

record scope_heap =
  sc_sessions :: "nat \<Rightarrow> bool"
  sc_turns :: "nat \<Rightarrow> turn_scope"
  sc_calls :: "nat \<Rightarrow> call_scope"
  sc_fresh :: nat
  sc_fresh_call :: nat

record admitted_invocation =
  ai_context :: tool_context
  ai_name :: tool_name
  ai_arguments :: json
  ai_scope :: nat

definition update_turn :: "nat \<Rightarrow> (turn_scope \<Rightarrow> turn_scope) \<Rightarrow> scope_heap \<Rightarrow> scope_heap" where
  "update_turn t f h = h\<lparr>sc_turns := (sc_turns h)(t := f (sc_turns h t))\<rparr>"

definition update_call :: "nat \<Rightarrow> (call_scope \<Rightarrow> call_scope) \<Rightarrow> scope_heap \<Rightarrow> scope_heap" where
  "update_call c f h = h\<lparr>sc_calls := (sc_calls h)(c := f (sc_calls h c))\<rparr>"

section \<open>Witnesses\<close>

definition session_is_live :: "scope_heap \<Rightarrow> nat \<Rightarrow> bool" where
  "session_is_live h session = sc_sessions h session"

definition same_session :: "nat \<Rightarrow> nat \<Rightarrow> bool" where
  "same_session a b = (a = b)"

definition owns_turn :: "scope_heap \<Rightarrow> nat \<Rightarrow> nat \<Rightarrow> bool" where
  "owns_turn h session turn =
     (ts_strong (sc_turns h turn) \<noteq> 0 \<and> ts_session (sc_turns h turn) = session)"

definition turn_scope_new :: "nat \<Rightarrow> scope_heap \<Rightarrow> nat \<times> scope_heap" where
  "turn_scope_new session h =
     (sc_fresh h, (update_turn (sc_fresh h) (\<lambda>_. \<lparr>ts_session = session, ts_cancelled = False, ts_open = True, ts_strong = 1\<rparr>) h)
        \<lparr>sc_fresh := Suc (sc_fresh h)\<rparr>)"

definition scope_close :: "nat \<Rightarrow> scope_heap \<Rightarrow> scope_heap" where
  "scope_close t = update_turn t (\<lambda>x. x\<lparr>ts_open := False\<rparr>)"

definition turn_is_live :: "scope_heap \<Rightarrow> nat \<Rightarrow> bool" where
  "turn_is_live h t =
     (let x = sc_turns h t in
      ts_strong x \<noteq> 0 \<and> ts_open x \<and> \<not> ts_cancelled x \<and> session_is_live h (ts_session x))"

definition same_turn :: "nat \<Rightarrow> nat \<Rightarrow> bool" where
  "same_turn a b = (a = b)"

definition belongs_to :: "scope_heap \<Rightarrow> nat \<Rightarrow> nat \<Rightarrow> bool" where
  "belongs_to h t session = (ts_strong (sc_turns h t) \<noteq> 0 \<and> ts_session (sc_turns h t) = session)"

section \<open>Admitted calls\<close>

definition admitted_new ::
  "tool_context \<Rightarrow> tool_name \<Rightarrow> json \<Rightarrow> nat \<Rightarrow> scope_heap \<Rightarrow> admitted_invocation \<times> scope_heap" where
  "admitted_new ctx name args turn h =
     (\<lparr>ai_context = ctx, ai_name = name, ai_arguments = args, ai_scope = sc_fresh_call h\<rparr>,
      (update_call (sc_fresh_call h) (\<lambda>_. \<lparr>cs_turn = turn, cs_claimed = False, cs_owned = True, cs_strong = 1\<rparr>) h)
        \<lparr>sc_fresh_call := Suc (sc_fresh_call h)\<rparr>)"

definition into_parts :: "admitted_invocation \<Rightarrow> tool_context \<times> json" where
  "into_parts call = (ai_context call, ai_arguments call)"

text \<open>\<open>claim\<close> when nothing runs beside it.\<close>

definition claim :: "nat \<Rightarrow> nat \<Rightarrow> scope_heap \<Rightarrow> bool \<times> scope_heap" where
  "claim c turn h =
     (let x = sc_calls h c in
      if cs_strong x \<noteq> 0 \<and> same_turn (cs_turn x) turn \<and> turn_is_live h (cs_turn x) \<and> \<not> cs_claimed x
      then (True, update_call c (\<lambda>x. x\<lparr>cs_claimed := True\<rparr>) h)
      else (False, h))"

text \<open>The drop of \<open>CallScopeOwner\<close>: the flag first, then the strong reference.\<close>

definition owner_drop :: "nat \<Rightarrow> scope_heap \<Rightarrow> scope_heap" where
  "owner_drop c = update_call c (\<lambda>x. x\<lparr>cs_claimed := True, cs_owned := False, cs_strong := cs_strong x - 1\<rparr>)"

section \<open>Claims in small steps\<close>

text \<open>
  A claim is a sequence of atomic accesses; between two of them other threads run. The upgraded
  references are held in between and released when the claim ends.
\<close>

datatype claim_pc = Upgrading | Comparing | UpgradingTurn | LoadingOpen | LoadingCancelled
  | LoadingSession | Exchanging | Claimed bool

definition hold_call :: "nat \<Rightarrow> scope_heap \<Rightarrow> scope_heap" where
  "hold_call c = update_call c (\<lambda>x. x\<lparr>cs_strong := Suc (cs_strong x)\<rparr>)"

definition release_call :: "nat \<Rightarrow> scope_heap \<Rightarrow> scope_heap" where
  "release_call c = update_call c (\<lambda>x. x\<lparr>cs_strong := cs_strong x - 1\<rparr>)"

definition hold_turn :: "nat \<Rightarrow> scope_heap \<Rightarrow> scope_heap" where
  "hold_turn t = update_turn t (\<lambda>x. x\<lparr>ts_strong := Suc (ts_strong x)\<rparr>)"

definition release_turn :: "nat \<Rightarrow> scope_heap \<Rightarrow> scope_heap" where
  "release_turn t = update_turn t (\<lambda>x. x\<lparr>ts_strong := ts_strong x - 1\<rparr>)"

fun claim_step :: "nat \<Rightarrow> nat \<Rightarrow> claim_pc \<Rightarrow> scope_heap \<Rightarrow> claim_pc \<times> scope_heap" where
  "claim_step c w Upgrading h =
     (if cs_strong (sc_calls h c) = 0 then (Claimed False, h) else (Comparing, hold_call c h))"
| "claim_step c w Comparing h =
     (if same_turn (cs_turn (sc_calls h c)) w then (UpgradingTurn, h) else (Claimed False, release_call c h))"
| "claim_step c w UpgradingTurn h =
     (let t = cs_turn (sc_calls h c) in
      if ts_strong (sc_turns h t) = 0 then (Claimed False, release_call c h) else (LoadingOpen, hold_turn t h))"
| "claim_step c w LoadingOpen h =
     (let t = cs_turn (sc_calls h c) in
      if ts_open (sc_turns h t) then (LoadingCancelled, h) else (Claimed False, release_call c (release_turn t h)))"
| "claim_step c w LoadingCancelled h =
     (let t = cs_turn (sc_calls h c) in
      if ts_cancelled (sc_turns h t) then (Claimed False, release_call c (release_turn t h)) else (LoadingSession, h))"
| "claim_step c w LoadingSession h =
     (let t = cs_turn (sc_calls h c) in
      if session_is_live h (ts_session (sc_turns h t)) then (Exchanging, release_turn t h)
      else (Claimed False, release_call c (release_turn t h)))"
| "claim_step c w Exchanging h =
     (if cs_claimed (sc_calls h c) then (Claimed False, release_call c h)
      else (Claimed True, release_call c (update_call c (\<lambda>x. x\<lparr>cs_claimed := True\<rparr>) h)))"
| "claim_step c w (Claimed b) h = (Claimed b, h)"

record claim_task =
  ct_call :: nat
  ct_witness :: nat
  ct_pc :: claim_pc

text \<open>Everything that can happen to the scopes: allocations, drops, the end of a turn, and claims.\<close>

datatype scope_action =
  OpenSession | DropSession nat | OpenTurn nat | CloseTurn nat | CancelTurn nat | DropTurn nat
  | Admit tool_context tool_name json nat | DropOwner nat | BeginClaim nat nat | StepClaim nat

fun scope_act :: "scope_action \<Rightarrow> scope_heap \<times> claim_task list \<Rightarrow> (scope_heap \<times> claim_task list) option" where
  "scope_act OpenSession (h, ts) =
     Some (h\<lparr>sc_sessions := (sc_sessions h)(sc_fresh h := True), sc_fresh := Suc (sc_fresh h)\<rparr>, ts)"
| "scope_act (DropSession s) (h, ts) = Some (h\<lparr>sc_sessions := (sc_sessions h)(s := False)\<rparr>, ts)"
| "scope_act (OpenTurn s) (h, ts) = Some (snd (turn_scope_new s h), ts)"
| "scope_act (CloseTurn t) (h, ts) = Some (scope_close t h, ts)"
| "scope_act (CancelTurn t) (h, ts) = Some (update_turn t (\<lambda>x. x\<lparr>ts_cancelled := True\<rparr>) h, ts)"
| "scope_act (DropTurn t) (h, ts) = Some (release_turn t h, ts)"
| "scope_act (Admit ctx name args t) (h, ts) = Some (snd (admitted_new ctx name args t h), ts)"
| "scope_act (DropOwner c) (h, ts) = (if cs_owned (sc_calls h c) then Some (owner_drop c h, ts) else None)"
| "scope_act (BeginClaim c w) (h, ts) =
     (if c < sc_fresh_call h then Some (h, ts @ [\<lparr>ct_call = c, ct_witness = w, ct_pc = Upgrading\<rparr>]) else None)"
| "scope_act (StepClaim i) (h, ts) =
     (if i < length ts then
        (case claim_step (ct_call (ts ! i)) (ct_witness (ts ! i)) (ct_pc (ts ! i)) h of
           (pc, h') \<Rightarrow> Some (h', ts[i := (ts ! i)\<lparr>ct_pc := pc\<rparr>]))
      else None)"

inductive scope_step :: "scope_heap \<times> claim_task list \<Rightarrow> scope_heap \<times> claim_task list \<Rightarrow> bool" where
  act: "scope_act a x = Some y \<Longrightarrow> scope_step x y"

definition scope_init :: scope_heap where
  "scope_init = \<lparr>sc_sessions = (\<lambda>_. False),
     sc_turns = (\<lambda>_. \<lparr>ts_session = 0, ts_cancelled = False, ts_open = False, ts_strong = 0\<rparr>),
     sc_calls = (\<lambda>_. \<lparr>cs_turn = 0, cs_claimed = False, cs_owned = False, cs_strong = 0\<rparr>), sc_fresh = 0, sc_fresh_call = 0\<rparr>"

section \<open>Lemmas\<close>

lemma update_call_sel [simp]:
  "sc_calls (update_call c f h) d = (if d = c then f (sc_calls h c) else sc_calls h d)"
  "sc_turns (update_call c f h) = sc_turns h" "sc_sessions (update_call c f h) = sc_sessions h"
  "sc_fresh_call (update_call c f h) = sc_fresh_call h"
  by (simp_all add: update_call_def)

lemma update_turn_sel [simp]:
  "sc_turns (update_turn t f h) u = (if u = t then f (sc_turns h t) else sc_turns h u)"
  "sc_calls (update_turn t f h) = sc_calls h" "sc_sessions (update_turn t f h) = sc_sessions h"
  "sc_fresh_call (update_turn t f h) = sc_fresh_call h"
  by (simp_all add: update_turn_def)

lemmas scope_defs = hold_call_def release_call_def hold_turn_def release_turn_def owner_drop_def
  scope_close_def turn_scope_new_def admitted_new_def

text \<open>
  What an action does to a call that exists: its turn stays, a claim stays claimed, the owner
  does not come back, and only the exchange of a task claims it for that task.
\<close>

definition call_kept :: "scope_heap \<Rightarrow> scope_heap \<Rightarrow> bool" where
  "call_kept h h' \<longleftrightarrow> sc_fresh_call h \<le> sc_fresh_call h' \<and> (\<forall>c < sc_fresh_call h.
     cs_turn (sc_calls h' c) = cs_turn (sc_calls h c)
     \<and> (cs_claimed (sc_calls h c) \<longrightarrow> cs_claimed (sc_calls h' c))
     \<and> (\<not> cs_owned (sc_calls h c) \<longrightarrow> \<not> cs_owned (sc_calls h' c)))"

lemma claim_step_kept: "claim_step c w pc h = (pc', h') \<Longrightarrow> call_kept h h'"
  by (cases pc) (auto simp: call_kept_def scope_defs Let_def split: if_splits)

lemma scope_act_kept:
  assumes "scope_act a (h, ts) = Some (h', ts')"
  shows "call_kept h h'"
proof (cases a)
  case (StepClaim i)
  with assms show ?thesis by (auto split: if_splits prod.splits dest: claim_step_kept)
qed (use assms in \<open>auto simp: call_kept_def scope_defs split: if_splits\<close>)

text \<open>A task is past the comparison only with the witness of the call's turn, and has claimed only a claimed call.\<close>

definition task_ok :: "scope_heap \<Rightarrow> claim_task \<Rightarrow> bool" where
  "task_ok h k \<longleftrightarrow> ct_call k < sc_fresh_call h \<and> (case ct_pc k of
       Upgrading \<Rightarrow> True | Comparing \<Rightarrow> True | Claimed False \<Rightarrow> True
     | Claimed True \<Rightarrow> cs_claimed (sc_calls h (ct_call k)) \<and> cs_turn (sc_calls h (ct_call k)) = ct_witness k
     | _ \<Rightarrow> cs_turn (sc_calls h (ct_call k)) = ct_witness k)"

definition winner :: "claim_task list \<Rightarrow> nat \<Rightarrow> nat \<Rightarrow> bool" where
  "winner ts c i \<longleftrightarrow> i < length ts \<and> ct_call (ts ! i) = c \<and> ct_pc (ts ! i) = Claimed True"

definition scopes_ok :: "scope_heap \<times> claim_task list \<Rightarrow> bool" where
  "scopes_ok x \<longleftrightarrow> (case x of (h, ts) \<Rightarrow> list_all (task_ok h) ts
     \<and> (\<forall>c i j. winner ts c i \<longrightarrow> winner ts c j \<longrightarrow> i = j)
     \<and> (\<forall>c < sc_fresh_call h. \<not> cs_owned (sc_calls h c) \<longrightarrow> cs_claimed (sc_calls h c)))"

lemma task_ok_kept: "call_kept h h' \<Longrightarrow> task_ok h k \<Longrightarrow> task_ok h' k"
  unfolding task_ok_def call_kept_def by (cases k) (auto split: claim_pc.splits bool.splits)

text \<open>A step of a task ends in a claim exactly when the call was not claimed before.\<close>

lemma claim_step_ok:
  assumes "task_ok h k" "claim_step (ct_call k) (ct_witness k) (ct_pc k) h = (pc, h')"
  shows "task_ok h' (k\<lparr>ct_pc := pc\<rparr>)"
    and "pc = Claimed True \<Longrightarrow> ct_pc k = Claimed True \<or> \<not> cs_claimed (sc_calls h (ct_call k))"
  using assms by (cases "ct_pc k"; auto simp: task_ok_def scope_defs same_turn_def Let_def split: if_splits bool.splits)+

lemma claim_step_owner:
  assumes "claim_step c w pc h = (pc', h')"
  shows "sc_fresh_call h' = sc_fresh_call h" "cs_owned (sc_calls h' d) = cs_owned (sc_calls h d)"
  using assms by (cases pc; auto simp: scope_defs Let_def split: if_splits)+

lemma scopes_ok_claimed:
  "scopes_ok (h, ts) \<Longrightarrow> winner ts c i \<Longrightarrow> cs_claimed (sc_calls h c) \<and> cs_turn (sc_calls h c) = ct_witness (ts ! i)"
  by (auto simp: scopes_ok_def winner_def list_all_length task_ok_def)

lemma scope_act_winner:
  assumes "scopes_ok (h, ts)" "scope_act a (h, ts) = Some (h', ts')" "winner ts' c i"
  shows "winner ts c i \<and> ts' ! i = ts ! i \<or> \<not> cs_claimed (sc_calls h c) \<and> a = StepClaim i"
proof (cases a)
  case (StepClaim j)
  then obtain pc where j: "j < length ts" "ts' = ts[j := (ts ! j)\<lparr>ct_pc := pc\<rparr>]"
    and step: "claim_step (ct_call (ts ! j)) (ct_witness (ts ! j)) (ct_pc (ts ! j)) h = (pc, h')"
    using assms(2) by (auto split: if_splits prod.splits)
  have ok: "task_ok h (ts ! j)" using assms(1) j(1) by (simp add: scopes_ok_def list_all_length)
  show ?thesis
  proof (cases "i = j")
    case True
    with assms(3) j have "pc = Claimed True" "ct_call (ts ! j) = c" by (auto simp: winner_def)
    with claim_step_ok(2) [OF ok step] step j StepClaim True show ?thesis by (auto simp: winner_def)
  next
    case False
    with assms(3) j show ?thesis by (simp add: winner_def)
  qed
next
  case (BeginClaim d w)
  with assms(2,3) show ?thesis by (auto simp: winner_def nth_append split: if_splits)
qed (use assms(2,3) in \<open>auto split: if_splits\<close>)

lemma scopes_ok_step:
  assumes ok: "scopes_ok (h, ts)" and act: "scope_act a (h, ts) = Some (h', ts')"
  shows "scopes_ok (h', ts')"
proof -
  have kept: "call_kept h h'" using act by (rule scope_act_kept)
  have tasks: "list_all (task_ok h') ts"
    using ok task_ok_kept [OF kept] by (auto simp: scopes_ok_def list_all_iff)
  have "list_all (task_ok h') ts'"
  proof (cases a)
    case (StepClaim j)
    then obtain pc where j: "j < length ts" "ts' = ts[j := (ts ! j)\<lparr>ct_pc := pc\<rparr>]"
      and step: "claim_step (ct_call (ts ! j)) (ct_witness (ts ! j)) (ct_pc (ts ! j)) h = (pc, h')"
      using act by (auto split: if_splits prod.splits)
    have "task_ok h (ts ! j)" using ok j(1) by (simp add: scopes_ok_def list_all_length)
    from claim_step_ok(1) [OF this step] tasks j show ?thesis by (auto simp: list_all_length nth_list_update)
  qed (use act tasks in \<open>auto simp: task_ok_def split: if_splits\<close>)
  moreover have "i = j" if "winner ts' c i" "winner ts' c j" for c i j
    using scope_act_winner [OF ok act that(1)] scope_act_winner [OF ok act that(2)] scopes_ok_claimed [OF ok, of c] ok
    by (auto simp: scopes_ok_def)
  moreover have "cs_claimed (sc_calls h' c)" if "c < sc_fresh_call h'" "\<not> cs_owned (sc_calls h' c)" for c
  proof -
    have old: "cs_claimed (sc_calls h d)" if "d < sc_fresh_call h" "\<not> cs_owned (sc_calls h d)" for d
      using ok that by (simp add: scopes_ok_def)
    show ?thesis
    proof (cases a)
      case (StepClaim j)
      with act obtain pc where "claim_step (ct_call (ts ! j)) (ct_witness (ts ! j)) (ct_pc (ts ! j)) h = (pc, h')"
        by (auto split: if_splits prod.splits)
      with claim_step_owner [OF this] old that kept show ?thesis by (simp add: call_kept_def)
    qed (use act old that in \<open>auto simp: scope_defs less_Suc_eq split: if_splits\<close>)
  qed
  ultimately show ?thesis by (auto simp: scopes_ok_def)
qed

inductive_cases scope_stepE: "scope_step x y"

lemma scopes_ok_reachable: "scope_step\<^sup>*\<^sup>* x y \<Longrightarrow> scopes_ok x \<Longrightarrow> scopes_ok y"
  by (induction rule: rtranclp_induct) (auto elim!: scope_stepE dest: scopes_ok_step split: prod.splits)

lemma scopes_ok_init: "scopes_ok (scope_init, [])"
  by (simp add: scopes_ok_def winner_def scope_init_def)

text \<open>Once a call is claimed, or its owner is gone, no further task wins it.\<close>

lemma claimed_stays:
  assumes "scope_step\<^sup>*\<^sup>* (h, ts) (h', ts')" and "scopes_ok (h, ts)"
    and "c < sc_fresh_call h" and "cs_claimed (sc_calls h c)"
  shows "c < sc_fresh_call h' \<and> cs_claimed (sc_calls h' c) \<and> (\<forall>i. winner ts' c i \<longrightarrow> winner ts c i \<and> ts' ! i = ts ! i)"
  using assms(1)
proof (induction "(h', ts')" arbitrary: h' ts' rule: rtranclp_induct)
  case base
  then show ?case using assms by simp
next
  case (step y)
  obtain g us where y: "y = (g, us)" by fastforce
  with step obtain a where act: "scope_act a (g, us) = Some (h', ts')" by (auto elim: scope_stepE)
  have ih: "c < sc_fresh_call g \<and> cs_claimed (sc_calls g c) \<and> (\<forall>i. winner us c i \<longrightarrow> winner ts c i \<and> us ! i = ts ! i)"
    using step(3) [OF y] .
  have "scopes_ok (g, us)" using scopes_ok_reachable [OF step(1) assms(2)] y by simp
  then have "winner us c i \<and> ts' ! i = us ! i" if "winner ts' c i" for i
    using scope_act_winner [OF _ act that] ih by blast
  with ih scope_act_kept [OF act] show ?case unfolding call_kept_def by simp
qed

text \<open>A claim that nothing interrupts does what \<open>claim\<close> says.\<close>

fun claim_steps :: "nat \<Rightarrow> nat \<Rightarrow> nat \<Rightarrow> claim_pc \<Rightarrow> scope_heap \<Rightarrow> claim_pc \<times> scope_heap" where
  "claim_steps 0 c w pc h = (pc, h)"
| "claim_steps (Suc n) c w pc h = (case claim_step c w pc h of (pc', h') \<Rightarrow> claim_steps n c w pc' h')"

lemma update_same [simp]: "update_call c (\<lambda>x. x) h = h" "update_turn t (\<lambda>x. x) h = h"
  by (simp_all add: update_call_def update_turn_def)

lemma update_update [simp]:
  "update_call c f (update_call c g h) = update_call c (\<lambda>x. f (g x)) h"
  "update_turn t p (update_turn t q h) = update_turn t (\<lambda>x. p (q x)) h"
  "update_turn t p (update_call c f h) = update_call c f (update_turn t p h)"
  by (simp_all add: update_call_def update_turn_def)

lemma claim_steps_claim:
  "claim_steps 7 c w Upgrading h = (case claim c w h of (b, h') \<Rightarrow> (Claimed b, h'))"
  by (simp add: eval_nat_numeral claim_def turn_is_live_def scope_defs same_turn_def session_is_live_def Let_def)

text \<open>
  C11. In every interleaving of claims with the end of turns, cancellation, drops and other claims: an admitted
  call is claimed at most once, only by a task that presents the witness of the call's own turn, and not at all by a
  task that is still undecided when the owner of the call is dropped.
\<close>

theorem claimed_at_most_once:
  assumes "scope_step\<^sup>*\<^sup>* (scope_init, []) (h, ts)"
  shows "(winner ts c i \<and> winner ts c j \<longrightarrow> i = j)
    \<and> (winner ts c i \<longrightarrow> ct_witness (ts ! i) = cs_turn (sc_calls h c))
    \<and> (c < sc_fresh_call h \<and> \<not> cs_owned (sc_calls h c) \<and> scope_step\<^sup>*\<^sup>* (h, ts) (h', ts') \<and> winner ts' c i
         \<longrightarrow> winner ts c i)"
proof -
  have ok: "scopes_ok (h, ts)" using assms scopes_ok_init by (rule scopes_ok_reachable)
  have "winner ts c i" if "c < sc_fresh_call h" "\<not> cs_owned (sc_calls h c)" "scope_step\<^sup>*\<^sup>* (h, ts) (h', ts')" "winner ts' c i"
  proof -
    have "cs_claimed (sc_calls h c)" using ok that(1,2) by (simp add: scopes_ok_def)
    with claimed_stays [OF that(3) ok that(1)] that(4) show ?thesis by blast
  qed
  then show ?thesis
    using ok scopes_ok_claimed [OF ok, of c i] by (auto simp: scopes_ok_def)
qed

fun scope_run :: "scope_action list \<Rightarrow> scope_heap \<times> claim_task list \<Rightarrow> scope_heap \<times> claim_task list" where
  "scope_run [] x = x"
| "scope_run (a # as) x = (case scope_act a x of None \<Rightarrow> x | Some y \<Rightarrow> scope_run as y)"

lemma scope_run_reach: "scope_step\<^sup>*\<^sup>* x (scope_run as x)"
  by (induction as x rule: scope_run.induct)
    (auto split: option.splits intro: converse_rtranclp_into_rtranclp scope_step.intros)

definition demo_schedule :: "scope_action list" where
  "demo_schedule =
     [OpenSession, OpenTurn 0, OpenTurn 0,
      Admit \<lparr>tctx_session_id = SessionId ''s'', tctx_session_incarnation_id = SessionIncarnationId ''i'',
        tctx_turn_id = TurnId ''t'', tctx_call_id = ToolCallId ''c''\<rparr> (ToolName ''echo'') JNull 1,
      BeginClaim 0 1, BeginClaim 0 1, BeginClaim 0 2]
     @ replicate 6 (StepClaim 0) @ replicate 2 (StepClaim 2) @ replicate 7 (StepClaim 1) @ [DropOwner 0] @ [StepClaim 0]"

theorem claimed_at_most_once_witness:
  "map ct_pc (snd (scope_run demo_schedule (scope_init, []))) = [Claimed False, Claimed True, Claimed False]
   \<and> ct_witness (snd (scope_run demo_schedule (scope_init, [])) ! 1) =
       cs_turn (sc_calls (fst (scope_run demo_schedule (scope_init, []))) 0)"
proof -
  let ?x = "scope_run demo_schedule (scope_init, [])"
  have reach: "scope_step\<^sup>*\<^sup>* (scope_init, []) (fst ?x, snd ?x)" using scope_run_reach by simp
  have run: "map ct_pc (snd ?x) = [Claimed False, Claimed True, Claimed False]" by code_simp
  have "winner (snd ?x) 0 1" by code_simp
  with claimed_at_most_once [OF reach, of 0 1] run show ?thesis by blast
qed

end
