(* ===== verification/Session_Registry.thy ===== *)
theory Session_Registry
  imports Session_Ops
begin

text \<open>
  The engine's registry of live sessions (\<open>SessionRegistry\<close> and \<open>SessionRegistration\<close> in \<open>engine.rs\<close>).
  It maps a session identifier to a weak reference of the one live state of that session. The last
  handle of a state removes the entry while it is dropped; that removal runs after the state has stopped
  being reachable, so another thread may have registered a successor in between.
\<close>

section \<open>States and entries\<close>

text \<open>Of a session state only its identity matters here, which never changes, and its strong count.\<close>

record live_state =
  lv_id :: session_id
  lv_incarnation :: session_incarnation_id
  lv_strong :: nat

record session_registry =
  rg_entries :: "(session_id, nat) btree"
  rg_states :: "nat \<Rightarrow> live_state"
  rg_fresh :: nat

definition add_strong :: "nat \<Rightarrow> session_registry \<Rightarrow> session_registry" where
  "add_strong p g = g\<lparr>rg_states := (rg_states g)(p := (rg_states g p)\<lparr>lv_strong := Suc (lv_strong (rg_states g p))\<rparr>)\<rparr>"

definition drop_strong :: "nat \<Rightarrow> session_registry \<Rightarrow> session_registry" where
  "drop_strong p g = g\<lparr>rg_states := (rg_states g)(p := (rg_states g p)\<lparr>lv_strong := lv_strong (rg_states g p) - 1\<rparr>)\<rparr>"

text \<open>\<open>Weak::upgrade\<close> of an entry.\<close>

definition upgrade_entry :: "session_registry \<Rightarrow> session_id \<Rightarrow> nat option" where
  "upgrade_entry g i =
     (case bt_lookup (rg_entries g) i of
        Some p \<Rightarrow> if lv_strong (rg_states g p) = 0 then None else Some p
      | None \<Rightarrow> None)"

definition new_registered :: "session_record \<Rightarrow> session_registry \<Rightarrow> nat \<times> session_registry" where
  "new_registered r g =
     (rg_fresh g, g\<lparr>rg_states := (rg_states g)(rg_fresh g :=
          \<lparr>lv_id = sr_id r, lv_incarnation = sr_incarnation_id r, lv_strong = 1\<rparr>),
        rg_fresh := Suc (rg_fresh g), rg_entries := bt_insert (sr_id r) (rg_fresh g) (rg_entries g)\<rparr>)"

text \<open>The part of \<open>session_state\<close> that runs under the lock; an upgraded state is validated after it.\<close>

definition session_state_locked :: "session_record \<Rightarrow> session_registry \<Rightarrow> (nat + nat) \<times> session_registry" where
  "session_state_locked r g =
     (case upgrade_entry g (sr_id r) of
        Some p \<Rightarrow> (Inl p, add_strong p g)
      | None \<Rightarrow> (case new_registered r g of (p, g') \<Rightarrow> (Inr p, g')))"

definition state_matches :: "session_registry \<Rightarrow> nat \<Rightarrow> session_record \<Rightarrow> bool" where
  "state_matches g p r =
     (lv_id (rg_states g p) = sr_id r \<and> lv_incarnation (rg_states g p) = sr_incarnation_id r)"

definition remove_if_matches :: "session_id \<Rightarrow> nat \<Rightarrow> session_registry \<Rightarrow> session_registry" where
  "remove_if_matches i p g =
     (if bt_lookup (rg_entries g) i = Some p then g\<lparr>rg_entries := bt_remove i (rg_entries g)\<rparr> else g)"

section \<open>Threads\<close>

text \<open>
  A thread looks a session up, validates the state it got, holds a handle, drops it, and, if it was the
  last one, runs the drop of the registration.
\<close>

datatype handle =
  Checking nat session_record | Holding nat | Refused | Removing nat | Gone

datatype registry_action =
  Request session_record | Validate nat | CloneHandle nat | DropHandle nat | RunRemoval nat

definition after_drop :: "session_registry \<Rightarrow> nat \<Rightarrow> handle \<Rightarrow> handle" where
  "after_drop g p h = (if lv_strong (rg_states g p) = 1 then Removing p else h)"

fun registry_act ::
  "registry_action \<Rightarrow> session_registry \<times> handle list \<Rightarrow> (session_registry \<times> handle list) option" where
  "registry_act (Request r) (g, hs) =
     (case session_state_locked r g of
        (Inl p, g') \<Rightarrow> Some (g', hs @ [Checking p r])
      | (Inr p, g') \<Rightarrow> Some (g', hs @ [Holding p]))"
| "registry_act (Validate i) (g, hs) =
     (if i < length hs then
        (case hs ! i of
           Checking p r \<Rightarrow>
             if state_matches g p r then Some (g, hs[i := Holding p])
             else Some (drop_strong p g, hs[i := after_drop g p Refused])
         | _ \<Rightarrow> None)
      else None)"
| "registry_act (CloneHandle i) (g, hs) =
     (if i < length hs then
        (case hs ! i of Holding p \<Rightarrow> Some (add_strong p g, hs @ [Holding p]) | _ \<Rightarrow> None)
      else None)"
| "registry_act (DropHandle i) (g, hs) =
     (if i < length hs then
        (case hs ! i of Holding p \<Rightarrow> Some (drop_strong p g, hs[i := after_drop g p Gone]) | _ \<Rightarrow> None)
      else None)"
| "registry_act (RunRemoval i) (g, hs) =
     (if i < length hs then
        (case hs ! i of
           Removing p \<Rightarrow> Some (remove_if_matches (lv_id (rg_states g p)) p g, hs[i := Gone])
         | _ \<Rightarrow> None)
      else None)"

inductive registry_step :: "session_registry \<times> handle list \<Rightarrow> session_registry \<times> handle list \<Rightarrow> bool" where
  act: "registry_act a x = Some y \<Longrightarrow> registry_step x y"

inductive_cases registry_stepE: "registry_step x y"

definition registry_init :: session_registry where
  "registry_init = \<lparr>rg_entries = [],
     rg_states = (\<lambda>_. \<lparr>lv_id = SessionId [], lv_incarnation = SessionIncarnationId [], lv_strong = 0\<rparr>), rg_fresh = 0\<rparr>"

section \<open>Lemmas\<close>

fun refers :: "nat \<Rightarrow> handle \<Rightarrow> bool" where
  "refers p (Checking q _) = (q = p)"
| "refers p (Holding q) = (q = p)"
| "refers p _ = False"

definition references :: "handle list \<Rightarrow> nat \<Rightarrow> nat" where
  "references hs p = length (filter (refers p) hs)"

lemma references_append [simp]: "references (hs @ [h]) p = references hs p + (if refers p h then 1 else 0)"
  by (simp add: references_def)

lemma references_update:
  "i < length hs \<Longrightarrow> references (hs[i := h]) p + (if refers p (hs ! i) then 1 else 0) =
     references hs p + (if refers p h then 1 else 0)"
proof (induction hs arbitrary: i)
  case (Cons x hs)
  then show ?case by (cases i) (auto simp: references_def)
qed simp

lemma references_pos: "i < length hs \<Longrightarrow> refers p (hs ! i) \<Longrightarrow> 0 < references hs p"
  by (auto simp: references_def filter_empty_conv)

lemma strong_sel [simp]:
  "rg_entries (add_strong p g) = rg_entries g" "rg_entries (drop_strong p g) = rg_entries g"
  "rg_fresh (add_strong p g) = rg_fresh g" "rg_fresh (drop_strong p g) = rg_fresh g"
  "lv_id (rg_states (add_strong p g) q) = lv_id (rg_states g q)" "lv_id (rg_states (drop_strong p g) q) = lv_id (rg_states g q)"
  "lv_incarnation (rg_states (add_strong p g) q) = lv_incarnation (rg_states g q)"
  "lv_incarnation (rg_states (drop_strong p g) q) = lv_incarnation (rg_states g q)"
  "lv_strong (rg_states (add_strong p g) q) = lv_strong (rg_states g q) + (if q = p then 1 else 0)"
  "lv_strong (rg_states (drop_strong p g) q) = lv_strong (rg_states g q) - (if q = p then 1 else 0)"
  by (auto simp: add_strong_def drop_strong_def)

text \<open>
  Strong counts are the numbers of handles; every live state is the registered one of its identifier;
  an entry without a live state has its removal pending, and a pending removal has no live state.
\<close>

definition registry_ok :: "session_registry \<times> handle list \<Rightarrow> bool" where
  "registry_ok x \<longleftrightarrow> (case x of (g, hs) \<Rightarrow> bt_invar (rg_entries g)
     \<and> (\<forall>p. lv_strong (rg_states g p) = references hs p)
     \<and> (\<forall>p. 0 < references hs p \<longrightarrow> p < rg_fresh g \<and> bt_lookup (rg_entries g) (lv_id (rg_states g p)) = Some p)
     \<and> (\<forall>i p. bt_lookup (rg_entries g) i = Some p \<longrightarrow> p < rg_fresh g \<and> lv_id (rg_states g p) = i
          \<and> (0 < references hs p \<or> Removing p \<in> set hs))
     \<and> (\<forall>p. Removing p \<in> set hs \<longrightarrow> p < rg_fresh g \<and> references hs p = 0))"

lemma registry_ok_init: "registry_ok (registry_init, [])"
  by (simp add: registry_ok_def registry_init_def bt_invar_def references_def)

lemma registry_okD:
  assumes "registry_ok (g, hs)"
  shows "bt_invar (rg_entries g)" "lv_strong (rg_states g p) = references hs p"
    "0 < references hs p \<Longrightarrow> p < rg_fresh g \<and> bt_lookup (rg_entries g) (lv_id (rg_states g p)) = Some p"
    "bt_lookup (rg_entries g) i = Some p \<Longrightarrow> p < rg_fresh g \<and> lv_id (rg_states g p) = i
       \<and> (0 < references hs p \<or> Removing p \<in> set hs)"
    "Removing p \<in> set hs \<Longrightarrow> p < rg_fresh g \<and> references hs p = 0"
  using assms by (simp_all add: registry_ok_def)

lemma registry_okI:
  assumes "bt_invar (rg_entries g)" "\<And>p. lv_strong (rg_states g p) = references hs p"
    "\<And>p. 0 < references hs p \<Longrightarrow> p < rg_fresh g \<and> bt_lookup (rg_entries g) (lv_id (rg_states g p)) = Some p"
    "\<And>i p. bt_lookup (rg_entries g) i = Some p \<Longrightarrow> p < rg_fresh g \<and> lv_id (rg_states g p) = i
       \<and> (0 < references hs p \<or> Removing p \<in> set hs)"
    "\<And>p. Removing p \<in> set hs \<Longrightarrow> p < rg_fresh g \<and> references hs p = 0"
  shows "registry_ok (g, hs)"
  using assms by (simp add: registry_ok_def)

text \<open>A further handle of a live state.\<close>

lemma registry_ok_add:
  assumes ok: "registry_ok (g, hs)" and live: "0 < references hs p" and h: "\<And>q. refers q h \<longleftrightarrow> q = p"
  shows "registry_ok (add_strong p g, hs @ [h])"
proof -
  have "\<And>q. h \<noteq> Removing q" using h [of p] by (cases h) auto
  moreover note D = registry_okD [OF ok]
  ultimately show ?thesis
  proof (intro registry_okI)
    show "q < rg_fresh (add_strong p g) \<and> bt_lookup (rg_entries (add_strong p g)) (lv_id (rg_states (add_strong p g) q)) = Some q"
      if "0 < references (hs @ [h]) q" for q
      using that D(3) [of q] live h by (auto split: if_splits)
    show "q < rg_fresh (add_strong p g) \<and> lv_id (rg_states (add_strong p g) q) = i
        \<and> (0 < references (hs @ [h]) q \<or> Removing q \<in> set (hs @ [h]))"
      if "bt_lookup (rg_entries (add_strong p g)) i = Some q" for i q
      using that D(4) [of i q] by auto
    show "q < rg_fresh (add_strong p g) \<and> references (hs @ [h]) q = 0" if "Removing q \<in> set (hs @ [h])" for q
      using that D(5) [of q] live h [of q] \<open>\<And>q. h \<noteq> Removing q\<close> [of q] by (auto split: if_splits)
  qed (simp_all add: D(1,2) h)
qed

text \<open>A new state of an identifier without a live one.\<close>

lemma registry_ok_new:
  assumes ok: "registry_ok (g, hs)" and none: "upgrade_entry g (sr_id r) = None" and new: "new_registered r g = (p, g')"
  shows "registry_ok (g', hs @ [Holding p])"
proof -
  note D = registry_okD [OF ok]
  have p: "p = rg_fresh g" and states: "rg_states g' = (rg_states g)(p := \<lparr>lv_id = sr_id r, lv_incarnation = sr_incarnation_id r, lv_strong = 1\<rparr>)"
    and g': "rg_fresh g' = Suc p" "rg_entries g' = bt_insert (sr_id r) p (rg_entries g)"
    using new by (auto simp: new_registered_def)
  have zero: "references hs p = 0" using D(3) [of p] p by (cases "references hs p") auto
  have other: "lv_id (rg_states g q) \<noteq> sr_id r" if "0 < references hs q" for q
    using none D(2,3) [of q] that by (auto simp: upgrade_entry_def)
  show ?thesis
  proof (rule registry_okI)
    show "bt_invar (rg_entries g')" using D(1) by (simp add: g' bt_invar_insert)
    show "lv_strong (rg_states g' q) = references (hs @ [Holding p]) q" for q
      using D(2) [of q] zero by (auto simp: states)
    show "q < rg_fresh g' \<and> bt_lookup (rg_entries g') (lv_id (rg_states g' q)) = Some q"
      if "0 < references (hs @ [Holding p]) q" for q
      using that D(1) D(3) [of q] other [of q] p by (auto simp: states g' bt_lookup_insert split: if_splits)
    show "q < rg_fresh g' \<and> lv_id (rg_states g' q) = i \<and> (0 < references (hs @ [Holding p]) q \<or> Removing q \<in> set (hs @ [Holding p]))"
      if "bt_lookup (rg_entries g') i = Some q" for i q
      using that D(1) D(4) [of i q] p by (auto simp: states g' bt_lookup_insert split: if_splits)
    show "q < rg_fresh g' \<and> references (hs @ [Holding p]) q = 0" if "Removing q \<in> set (hs @ [Holding p])" for q
      using that D(5) [of q] p by (auto simp: g')
  qed
qed

text \<open>A handle is dropped; the last one leaves the removal of its entry behind.\<close>

lemma registry_ok_drop:
  assumes ok: "registry_ok (g, hs)" and i: "i < length hs" "refers p (hs ! i)"
    and h: "\<And>q. \<not> refers q h" "\<And>q. h \<noteq> Removing q"
  shows "registry_ok (drop_strong p g, hs[i := after_drop g p h])"
proof -
  note D = registry_okD [OF ok]
  have only: "refers q (hs ! i) \<longleftrightarrow> q = p" for q using i(2) by (cases "hs ! i") auto
  have none: "\<not> refers q (after_drop g p h)" for q using h by (simp add: after_drop_def)
  have pos: "0 < references hs p" using i by (rule references_pos)
  have refs: "references (hs[i := after_drop g p h]) q = references hs q - (if q = p then 1 else 0)" for q
    using references_update [OF i(1), of "after_drop g p h" q] only none by auto
  have rem: "Removing q \<in> set (hs[i := after_drop g p h]) \<longleftrightarrow> Removing q \<in> set hs \<or> q = p \<and> references hs p = 1" for q
  proof -
    have "hs ! i \<noteq> Removing q" using i(2) by auto
    then have "Removing q \<in> set (hs[i := x]) \<longleftrightarrow> Removing q \<in> set hs \<or> x = Removing q" for x
      using i(1) by (metis in_set_conv_nth length_list_update nth_list_update_eq nth_list_update_neq)
    then show ?thesis using h D(2) [of p] by (auto simp: after_drop_def)
  qed
  show ?thesis
  proof (rule registry_okI)
    fix q j
    show "lv_strong (rg_states (drop_strong p g) q) = references (hs[i := after_drop g p h]) q" by (simp add: refs D(2))
    show "q < rg_fresh (drop_strong p g) \<and> bt_lookup (rg_entries (drop_strong p g)) (lv_id (rg_states (drop_strong p g) q)) = Some q"
      if "0 < references (hs[i := after_drop g p h]) q"
      using that D(3) [of q] by (auto simp: refs split: if_splits)
    show "q < rg_fresh (drop_strong p g) \<and> lv_id (rg_states (drop_strong p g) q) = j
        \<and> (0 < references (hs[i := after_drop g p h]) q \<or> Removing q \<in> set (hs[i := after_drop g p h]))"
      if "bt_lookup (rg_entries (drop_strong p g)) j = Some q"
      using that D(4) [of j q] pos by (auto simp: refs rem)
    show "q < rg_fresh (drop_strong p g) \<and> references (hs[i := after_drop g p h]) q = 0"
      if "Removing q \<in> set (hs[i := after_drop g p h])"
      using that D(5) [of q] D(3) [of p] pos by (auto simp: refs rem)
  qed (simp add: D(1))
qed

text \<open>A removal takes the entry away only if it still is the entry of the dropped state.\<close>

lemma registry_ok_removal:
  assumes ok: "registry_ok (g, hs)" and i: "i < length hs" "hs ! i = Removing p"
  shows "registry_ok (remove_if_matches (lv_id (rg_states g p)) p g, hs[i := Gone])"
proof -
  note D = registry_okD [OF ok]
  have refs: "references (hs[i := Gone]) q = references hs q" for q
    using references_update [OF i(1), of Gone q] i(2) by simp
  have rem: "Removing q \<in> set (hs[i := Gone]) \<Longrightarrow> Removing q \<in> set hs" for q
    using set_update_subset_insert [of hs i Gone] by auto
  have rem': "Removing q \<in> set (hs[i := Gone])" if q: "Removing q \<in> set hs" "q \<noteq> p" for q
  proof -
    obtain k where k: "k < length hs" "hs ! k = Removing q" using q(1) by (auto simp: in_set_conv_nth)
    with i(2) q(2) have "k \<noteq> i" by auto
    with k have "hs[i := Gone] ! k = Removing q" "k < length (hs[i := Gone])" by simp_all
    then show ?thesis by (metis nth_mem)
  qed
  have p: "references hs p = 0" using D(5) [of p] nth_mem [OF i(1)] i(2) by simp
  let ?g = "remove_if_matches (lv_id (rg_states g p)) p g"
  have sel: "rg_states ?g = rg_states g" "rg_fresh ?g = rg_fresh g" "bt_invar (rg_entries ?g)"
    using D(1) by (simp_all add: remove_if_matches_def bt_invar_remove)
  have look: "bt_lookup (rg_entries ?g) j = (if bt_lookup (rg_entries g) j = Some p then None else bt_lookup (rg_entries g) j)" for j
  proof (cases "j = lv_id (rg_states g p)")
    case True
    then show ?thesis by (simp add: remove_if_matches_def bt_lookup_remove)
  next
    case False
    with D(4) [of j p] have "bt_lookup (rg_entries g) j \<noteq> Some p" by metis
    with False show ?thesis by (simp add: remove_if_matches_def bt_lookup_remove)
  qed
  show ?thesis
  proof (rule registry_okI)
    fix q j
    show "q < rg_fresh ?g \<and> bt_lookup (rg_entries ?g) (lv_id (rg_states ?g q)) = Some q" if "0 < references (hs[i := Gone]) q"
    proof -
      from that have q: "0 < references hs q" by (simp add: refs)
      with p have "q \<noteq> p" by auto
      with D(3) [OF q] show ?thesis by (simp add: sel look)
    qed
    show "q < rg_fresh ?g \<and> lv_id (rg_states ?g q) = j \<and> (0 < references (hs[i := Gone]) q \<or> Removing q \<in> set (hs[i := Gone]))"
      if "bt_lookup (rg_entries ?g) j = Some q"
    proof -
      from that have q: "bt_lookup (rg_entries g) j = Some q" "q \<noteq> p" by (auto simp: look split: if_splits)
      with D(4) [OF q(1)] rem' [of q] show ?thesis by (simp add: sel refs) metis
    qed
    show "q < rg_fresh ?g \<and> references (hs[i := Gone]) q = 0" if "Removing q \<in> set (hs[i := Gone])"
      using D(5) [OF rem [OF that]] by (simp add: refs sel)
  qed (simp_all add: sel refs D(2))
qed

lemma registry_ok_step:
  assumes ok: "registry_ok (g, hs)" and act: "registry_act a (g, hs) = Some (g', hs')"
  shows "registry_ok (g', hs')"
proof (cases a)
  case (Request r)
  show ?thesis
  proof (cases "upgrade_entry g (sr_id r)")
    case None
    obtain p h where "new_registered r g = (p, h)" by fastforce
    with registry_ok_new [OF ok None this] None act Request show ?thesis by (simp add: session_state_locked_def)
  next
    case (Some p)
    then have "0 < references hs p"
      using registry_okD(2) [OF ok, of p] by (auto simp: upgrade_entry_def split: option.splits if_splits)
    then have "registry_ok (add_strong p g, hs @ [Checking p r])" by (rule registry_ok_add [OF ok]) auto
    with Some act Request show ?thesis by (simp add: session_state_locked_def)
  qed
next
  case (Validate i)
  with act obtain p r where i: "i < length hs" "hs ! i = Checking p r" by (auto split: if_splits handle.splits)
  show ?thesis
  proof (cases "state_matches g p r")
    case True
    have "references (hs[i := Holding p]) q = references hs q" for q
      using references_update [OF i(1), of "Holding p" q] i(2) by (auto split: if_splits)
    moreover have "Removing q \<in> set (hs[i := Holding p]) \<longleftrightarrow> Removing q \<in> set hs" for q
      using i by (metis handle.distinct(5,11) in_set_conv_nth length_list_update nth_list_update_eq nth_list_update_neq)
    ultimately show ?thesis using ok act Validate i True by (simp add: registry_ok_def)
  next
    case False
    have "registry_ok (drop_strong p g, hs[i := after_drop g p Refused])"
      by (rule registry_ok_drop [OF ok i(1)]) (simp_all add: i)
    with False act Validate i show ?thesis by simp
  qed
next
  case (CloneHandle i)
  with act obtain p where i: "i < length hs" "hs ! i = Holding p" by (auto split: if_splits handle.splits)
  then have "0 < references hs p" using references_pos [of i hs p] by simp
  then have "registry_ok (add_strong p g, hs @ [Holding p])" by (rule registry_ok_add [OF ok]) auto
  with act CloneHandle i show ?thesis by simp
next
  case (DropHandle i)
  with act obtain p where i: "i < length hs" "hs ! i = Holding p" by (auto split: if_splits handle.splits)
  have "registry_ok (drop_strong p g, hs[i := after_drop g p Gone])"
    by (rule registry_ok_drop [OF ok i(1)]) (simp_all add: i)
  with act DropHandle i show ?thesis by simp
next
  case (RunRemoval i)
  with act obtain p where i: "i < length hs" "hs ! i = Removing p" by (auto split: if_splits handle.splits)
  with registry_ok_removal [OF ok i] act RunRemoval show ?thesis by simp
qed

lemma registry_ok_reachable: "registry_step\<^sup>*\<^sup>* x y \<Longrightarrow> registry_ok x \<Longrightarrow> registry_ok y"
proof (induction rule: rtranclp_induct)
  case (step y z)
  then obtain a where act: "registry_act a (fst y, snd y) = Some (fst z, snd z)" by (auto elim: registry_stepE)
  have "registry_ok (fst y, snd y)" using step by simp
  from registry_ok_step [OF this act] show ?case by simp
qed

text \<open>
  C12. In every interleaving of requests, validations, clones, drops and delayed removals, two handles of one session
  identifier share one state, and that state is the registered one; so a removal never takes away the entry of a
  live session. When no removal is pending, the entries are exactly the live sessions.
\<close>

theorem registry_canonical:
  assumes "registry_step\<^sup>*\<^sup>* (registry_init, []) (g, hs)"
  shows "(\<forall>p q. Holding p \<in> set hs \<longrightarrow> Holding q \<in> set hs \<longrightarrow> lv_id (rg_states g p) = lv_id (rg_states g q) \<longrightarrow> p = q)
    \<and> (\<forall>p. Holding p \<in> set hs \<longrightarrow> bt_lookup (rg_entries g) (lv_id (rg_states g p)) = Some p)
    \<and> ((\<forall>p. Removing p \<notin> set hs) \<longrightarrow> (\<forall>i p. bt_lookup (rg_entries g) i = Some p \<longleftrightarrow>
         lv_id (rg_states g p) = i \<and> (\<exists>h \<in> set hs. refers p h)))"
proof -
  have ok: "registry_ok (g, hs)" using assms registry_ok_init by (rule registry_ok_reachable)
  note D = registry_okD [OF ok]
  have pos: "0 < references hs p \<longleftrightarrow> (\<exists>h \<in> set hs. refers p h)" for p
    by (simp add: references_def filter_empty_conv)
  have reg: "bt_lookup (rg_entries g) (lv_id (rg_states g p)) = Some p" if "\<exists>h \<in> set hs. refers p h" for p
    using D(3) [of p] pos [of p] that by simp
  have held: "\<exists>h \<in> set hs. refers p h" if "Holding p \<in> set hs" for p
    using that by (rule bexI [rotated]) simp
  have entry: "lv_id (rg_states g p) = i" "(\<exists>h \<in> set hs. refers p h) \<or> Removing p \<in> set hs"
    if "bt_lookup (rg_entries g) i = Some p" for i p
    using D(4) [OF that] unfolding pos by simp_all
  show ?thesis
  proof (intro conjI allI impI iffI)
    fix p q assume p: "Holding p \<in> set hs" and q: "Holding q \<in> set hs" and "lv_id (rg_states g p) = lv_id (rg_states g q)"
    with reg [OF held [OF p]] reg [OF held [OF q]] have "Some p = Some q" by metis
    then show "p = q" by simp
  qed (use entry reg held in \<open>(blast | metis)+\<close>)
qed

fun registry_run :: "registry_action list \<Rightarrow> session_registry \<times> handle list \<Rightarrow> session_registry \<times> handle list" where
  "registry_run [] x = x"
| "registry_run (a # as) x = (case registry_act a x of None \<Rightarrow> x | Some y \<Rightarrow> registry_run as y)"

lemma registry_run_reach: "registry_step\<^sup>*\<^sup>* x (registry_run as x)"
  by (induction as x rule: registry_run.induct)
    (auto split: option.splits intro: converse_rtranclp_into_rtranclp registry_step.intros)

text \<open>A session is dropped and reopened before the removal of its old entry runs.\<close>

definition demo_registry :: "session_registry \<times> handle list" where
  "demo_registry = registry_run
     [Request sample_record, DropHandle 0, Request sample_record, Request sample_record, Validate 2, RunRemoval 0]
     (registry_init, [])"

theorem registry_canonical_witness:
  "snd demo_registry = [Gone, Holding 1, Holding 1]
   \<and> (\<forall>i p. bt_lookup (rg_entries (fst demo_registry)) i = Some p \<longleftrightarrow>
         lv_id (rg_states (fst demo_registry) p) = i \<and> p = 1)"
proof -
  have reach: "registry_step\<^sup>*\<^sup>* (registry_init, []) (fst demo_registry, snd demo_registry)"
    unfolding demo_registry_def prod.collapse by (rule registry_run_reach)
  have hs: "snd demo_registry = [Gone, Holding 1, Holding 1]" by code_simp
  have ex: "(\<exists>h \<in> set [Gone, Holding 1, Holding 1]. refers p h) \<longleftrightarrow> p = 1" for p by auto
  have "\<forall>p. Removing p \<notin> set [Gone, Holding 1, Holding 1]" by simp
  with registry_canonical [OF reach, THEN conjunct2, THEN conjunct2, unfolded hs ex] hs show ?thesis
    by (intro conjI) (assumption, rule mp)
qed

end
