(* ===== verification/Engine_Core.thy ===== *)
theory Engine_Core
  imports Session_Registry "HOL-Library.Code_Target_Numeral"
begin

text \<open>
  Building an engine and opening sessions on it (\<open>EngineBuilder\<close>, \<open>Engine\<close> and \<open>EngineRequester\<close> in
  \<open>engine.rs\<close>).
\<close>

section \<open>The builder\<close>

text \<open>The components only matter by their presence; tools come with the specification captured on registration.\<close>

record engine_builder =
  eb_provider :: bool
  eb_session_store :: bool
  eb_permission_handler :: bool
  eb_tools :: "(tool_name, registered_tool) btree"
  eb_duplicate :: "tool_name option"
  eb_limits :: engine_limits

definition builder_new :: engine_builder where
  "builder_new = \<lparr>eb_provider = False, eb_session_store = False, eb_permission_handler = False, eb_tools = [],
     eb_duplicate = None, eb_limits = limits_default\<rparr>"

definition builder_tool :: "registered_tool \<Rightarrow> engine_builder \<Rightarrow> engine_builder" where
  "builder_tool t b =
     (let name = ts_name (rt_spec t) in
      b\<lparr>eb_tools := bt_insert name t (eb_tools b),
        eb_duplicate := (if bt_lookup (eb_tools b) name = None then eb_duplicate b else Some name)\<rparr>)"

definition registered_tool_names :: "engine_builder \<Rightarrow> tool_name list" where
  "registered_tool_names b = map fst (eb_tools b)"

definition build :: "serializer \<Rightarrow> (string \<Rightarrow> string) \<Rightarrow> engine_builder \<Rightarrow> (build_error, engine_config) result" where
  "build ser sha b =
     (let specs = map rt_spec (bt_values (eb_tools b)); l = eb_limits b in
      if max_json_depth l > MAX_SAFE_JSON_DEPTH then Inl JsonDepthLimitExceedsSafeMaximum
      else case eb_duplicate b of Some name \<Rightarrow> Inl (DuplicateTool (tool_name_str name)) | None \<Rightarrow>
      if \<not> eb_provider b then Inl MissingProvider
      else if \<not> eb_session_store b then Inl MissingSessionStore
      else if \<not> eb_permission_handler b then Inl MissingPermissionHandler
      else case validate_json_roots (max_json_nodes l) (max_json_depth l) (map ts_input_schema specs) of
        Inl Depth \<Rightarrow> Inl ToolCatalogJsonDepthExceeded
      | Inl Nodes \<Rightarrow> Inl ToolCatalogJsonNodeLimitExceeded
      | Inr _ \<Rightarrow>
          (case serialized_json_size_bounded (ser (SerCatalog specs)) (max_tool_catalog_bytes l) of
             Inr (Some _) \<Rightarrow> Inr \<lparr>ec_serializer = ser, ec_limits = l, ec_sha256 = sha,
               ec_tools = eb_tools b, ec_tool_specs = specs\<rparr>
           | _ \<Rightarrow> Inl ToolCatalogTooLarge))"

section \<open>Opening sessions\<close>

definition host_upgrade :: "('w, 'z) store_host_scheme \<Rightarrow> ('w, unit) session_op" where
  "host_upgrade E = bindE (interleave E) (\<lambda>_ s.
     if sh_host_open E (ss_world s) then (Inr (), s) else (Inl (Error HostClosed), s))"

definition fresh_state :: "session_record \<Rightarrow> bool \<Rightarrow> 'w sys \<Rightarrow> 'w sys" where
  "fresh_state r persisted s =
     (install r s)\<lparr>ss_persisted := persisted, ss_lease := Free, ss_reconcile := False\<rparr>"

text \<open>
  \<open>session_state\<close>, seen from the state cell of the session: \<open>live\<close> is the answer of the registry. A live
  state is kept and only its identity is compared; otherwise the cell starts with the given record.
\<close>

definition open_state ::
  "('w, 'z) store_host_scheme \<Rightarrow> ('w \<Rightarrow> bool) \<Rightarrow> session_record \<Rightarrow> bool \<Rightarrow> ('w, unit) session_op" where
  "open_state E live r persisted = bindE (interleave E) (\<lambda>_ s.
     if live (ss_world s)
     then (case validate_record_identity (ss_record (sh_yield E s)) r of
             Inl e \<Rightarrow> (Inl (Error e), sh_yield E s) | Inr _ \<Rightarrow> (Inr (), sh_yield E s))
     else (Inr (), fresh_state r persisted s))"

definition create_session ::
  "('w, 'z) store_host_scheme \<Rightarrow> ('w \<Rightarrow> bool) \<Rightarrow> session_id \<Rightarrow> session_incarnation_id \<Rightarrow> ('w, unit) session_op" where
  "create_session E live i inc = open_state E live (session_record_empty i inc) False"

definition requester_create_session ::
  "('w, 'z) store_host_scheme \<Rightarrow> ('w \<Rightarrow> bool) \<Rightarrow> session_id \<Rightarrow> session_incarnation_id \<Rightarrow> ('w, unit) session_op" where
  "requester_create_session E live i inc =
     bindE (ensure_open E) (\<lambda>_.
     bindE (open_state E live (session_record_empty i inc) False) (\<lambda>_. host_upgrade E))"

definition reserve_session ::
  "('w, 'z) store_host_scheme \<Rightarrow> ('w \<Rightarrow> bool) \<Rightarrow> session_id \<Rightarrow> session_incarnation_id \<Rightarrow> ('w, unit) session_op" where
  "reserve_session E live i inc =
     bindE (ensure_open E) (\<lambda>_.
     bindE (open_state E live (session_record_empty i inc) False) (\<lambda>_. ensure_open E))"

definition err_wrong_id :: "session_id \<Rightarrow> session_id \<Rightarrow> engine_error" where
  "err_wrong_id got wanted = Protocol (''session store returned ID '' @ session_id_str got
     @ '' for requested ID '' @ session_id_str wanted)"

definition err_wrong_revision :: engine_error where
  "err_wrong_revision = Store (component_error_new SConflict ''store_failed'' ''session store failed'' False)"

definition check_loaded ::
  "engine_config \<Rightarrow> session_id \<Rightarrow> (session_incarnation_id \<times> u64) option \<Rightarrow> session_record \<Rightarrow> (engine_error, unit) result" where
  "check_loaded C i expected r =
     (if sr_id r \<noteq> i then Inl (err_wrong_id (sr_id r) i)
      else bind_res (validate_loaded r) (\<lambda>_.
      bind_res (validate_record_limits (ec_serializer C) r (ec_limits C)) (\<lambda>_.
      case expected of
        None \<Rightarrow> Inr ()
      | Some (inc, revision) \<Rightarrow>
          if sr_incarnation_id r \<noteq> inc then Inl SessionIncarnationConflict
          else if sr_revision r \<noteq> revision then Inl err_wrong_revision
          else Inr ())))"

definition publish_session ::
  "('w, 'z) store_host_scheme \<Rightarrow> ('w \<Rightarrow> bool) \<Rightarrow> bool \<Rightarrow> session_record \<Rightarrow> ('w, session_record) session_op" where
  "publish_session E live exact r =
     bindE (open_state E live r True) (\<lambda>_.
     bindE (if exact then reconcile_loaded_idle E r else reconcile_loaded E r) (\<lambda>_.
     bindE (host_upgrade E) (\<lambda>_. ret r)))"

definition load_session_guarded ::
  "engine_config \<Rightarrow> ('w, 'z) store_host_scheme \<Rightarrow> nat \<Rightarrow> 'w store_access option \<Rightarrow> ('w \<Rightarrow> bool) \<Rightarrow> session_id \<Rightarrow>
   (session_incarnation_id \<times> u64) option \<Rightarrow> ('w, session_record option) session_op" where
  "load_session_guarded C E store access live i expected =
     bindE (ensure_open E) (\<lambda>_.
     bindE (case access of None \<Rightarrow> ret E
            | Some a \<Rightarrow> bindE (lift_err (validate_store_access store a)) (\<lambda>_. ret (with_access E a))) (\<lambda>F.
     bindE (store_load F i) (\<lambda>res.
     bindE (lift_store res) (\<lambda>loaded.
     bindE (ensure_open E) (\<lambda>_.
     case loaded of
       None \<Rightarrow> ret None
     | Some r \<Rightarrow>
         bindE (lift_err (check_loaded C i expected r)) (\<lambda>_.
         bindE (publish_session E live (expected \<noteq> None) r) (\<lambda>r. ret (Some r))))))))"

section \<open>Lemmas\<close>

text \<open>
  The tools of a builder after registering a list of tools: without a recorded duplicate their names are
  distinct, and each of them is found under its name.
\<close>

definition registered :: "registered_tool list \<Rightarrow> engine_builder \<Rightarrow> bool" where
  "registered ts b \<longleftrightarrow> bt_invar (eb_tools b)
     \<and> (\<forall>name. bt_lookup (eb_tools b) name = None \<longleftrightarrow> name \<notin> (ts_name \<circ> rt_spec) ` set ts)
     \<and> (eb_duplicate b = None \<longleftrightarrow> distinct (map (ts_name \<circ> rt_spec) ts))
     \<and> (eb_duplicate b = None \<longrightarrow>
          (\<forall>name t. bt_lookup (eb_tools b) name = Some t \<longleftrightarrow> t \<in> set ts \<and> ts_name (rt_spec t) = name))"

lemma registered_new: "eb_tools b = [] \<Longrightarrow> eb_duplicate b = None \<Longrightarrow> registered [] b"
  by (simp add: registered_def bt_invar_def)

lemma registered_tool:
  assumes "registered ts b"
  shows "registered (ts @ [x]) (builder_tool x b)"
proof -
  let ?n = "ts_name (rt_spec x)"
  have inv: "bt_invar (eb_tools b)" using assms by (simp add: registered_def)
  have look: "bt_lookup (eb_tools (builder_tool x b)) name = (if name = ?n then Some x else bt_lookup (eb_tools b) name)" for name
    by (simp add: builder_tool_def Let_def bt_lookup_insert [OF inv])
  have dup: "eb_duplicate (builder_tool x b) = (if ?n \<in> (ts_name \<circ> rt_spec) ` set ts then Some ?n else eb_duplicate b)"
    using assms by (simp add: builder_tool_def Let_def registered_def)
  have "bt_invar (eb_tools (builder_tool x b))" by (simp add: builder_tool_def Let_def bt_invar_insert inv)
  with assms show ?thesis unfolding registered_def look dup by (auto split: if_splits) (metis imageI)
qed

lemma registered_fold: "registered us b \<Longrightarrow> registered (us @ ts) (fold builder_tool ts b)"
proof (induction ts arbitrary: us b)
  case (Cons x ts)
  from Cons.IH [OF registered_tool [OF Cons.prems, of x]] show ?case by simp
qed simp

text \<open>What \<open>build\<close> accepts.\<close>

lemma build_Inr:
  assumes "limits_wf (eb_limits b)"
  shows "build ser sha b = Inr C \<longleftrightarrow> max_json_depth (eb_limits b) \<le> MAX_SAFE_JSON_DEPTH \<and> eb_duplicate b = None
    \<and> eb_provider b \<and> eb_session_store b \<and> eb_permission_handler b
    \<and> trees_fit (eb_limits b) (map ts_input_schema (ec_tool_specs C))
    \<and> ser_fits ser (SerCatalog (ec_tool_specs C)) (max_tool_catalog_bytes (eb_limits b))
    \<and> C = \<lparr>ec_serializer = ser, ec_limits = eb_limits b, ec_sha256 = sha, ec_tools = eb_tools b,
         ec_tool_specs = map rt_spec (bt_values (eb_tools b))\<rparr>"
proof -
  let ?specs = "map rt_spec (bt_values (eb_tools b))" and ?l = "eb_limits b"
  have json: "validate_json_roots (max_json_nodes ?l) (max_json_depth ?l) vs = Inr u \<longleftrightarrow> trees_fit ?l vs" for vs u
    using validate_json_roots_Inr [OF limits_wfD(1,2) [OF assms]] by (simp add: trees_fit_def)
  have size: "(\<exists>n. serialized_json_size_bounded (ser v) (max_tool_catalog_bytes ?l) = Inr (Some n)) \<longleftrightarrow>
      ser_fits ser v (max_tool_catalog_bytes ?l)" for v
    using assms by (simp add: serialized_size_Some limits_wfD ser_fits_def)
  show ?thesis
    unfolding build_def Let_def
    using json [of "map ts_input_schema ?specs"] size [of "SerCatalog ?specs"]
    by (auto simp: not_less split: option.splits sum.splits json_limit_violation.splits)
qed

lemma builder_fold_sel:
  "eb_limits (fold builder_tool ts b) = eb_limits b" "eb_provider (fold builder_tool ts b) = eb_provider b"
  "eb_session_store (fold builder_tool ts b) = eb_session_store b"
  "eb_permission_handler (fold builder_tool ts b) = eb_permission_handler b"
  by (induction ts arbitrary: b) (simp_all add: builder_tool_def Let_def)

text \<open>
  C32. An engine is built exactly when its limits are safe, the required components are present, no two registered tools
  share a name and the catalog of their specifications fits the limits; the built engine finds each registered tool under
  its name and nothing else.
\<close>

theorem build_exact:
  assumes "limits_wf (eb_limits b)" and "eb_tools b = []" and "eb_duplicate b = None"
    and "B = fold builder_tool ts b" and "specs = map rt_spec (bt_values (eb_tools B))"
  shows "((\<exists>C. build ser sha B = Inr C) \<longleftrightarrow> max_json_depth (eb_limits b) \<le> 64
      \<and> eb_provider b \<and> eb_session_store b \<and> eb_permission_handler b
      \<and> distinct (map (ts_name \<circ> rt_spec) ts)
      \<and> trees_fit (eb_limits b) (map ts_input_schema specs)
      \<and> ser_fits ser (SerCatalog specs) (max_tool_catalog_bytes (eb_limits b)))
    \<and> (\<forall>C name t. build ser sha B = Inr C \<longrightarrow>
        (bt_lookup (ec_tools C) name = Some t \<longleftrightarrow> t \<in> set ts \<and> ts_name (rt_spec t) = name))"
proof -
  have wf: "limits_wf (eb_limits B)" using assms(1,4) by (simp add: builder_fold_sel)
  have reg: "registered ts B" using registered_fold [OF registered_new [OF assms(2,3)], of ts] assms(4) by simp
  then have dup: "eb_duplicate B = None \<longleftrightarrow> distinct (map (ts_name \<circ> rt_spec) ts)" by (simp add: registered_def)
  have sel: "eb_limits B = eb_limits b" "eb_provider B = eb_provider b" "eb_session_store B = eb_session_store b"
    "eb_permission_handler B = eb_permission_handler b" using assms(4) by (simp_all add: builder_fold_sel)
  show ?thesis
    using reg unfolding build_Inr [OF wf] sel assms(5) dup registered_def MAX_SAFE_JSON_DEPTH_def by auto
qed

definition demo_builder :: engine_builder where
  "demo_builder = builder_new\<lparr>eb_provider := True, eb_session_store := True, eb_permission_handler := True\<rparr>"

definition demo_registered :: "nat \<Rightarrow> string \<Rightarrow> registered_tool" where
  "demo_registered i name = \<lparr>rt_spec = \<lparr>ts_name = ToolName name, ts_description = ''d'', ts_input_schema = JNull\<rparr>, rt_tool = i\<rparr>"

theorem build_exact_witness:
  "\<not> (\<exists>C. build sample_serializer (\<lambda>x. x) (fold builder_tool [demo_registered 1 ''a'', demo_registered 2 ''a''] demo_builder) = Inr C)
   \<and> (\<exists>C. build sample_serializer (\<lambda>x. x) (fold builder_tool [demo_registered 1 ''b'', demo_registered 2 ''a''] demo_builder) = Inr C
        \<and> bt_lookup (ec_tools C) (ToolName ''b'') = Some (demo_registered 1 ''b''))"
proof -
  have b: "limits_wf (eb_limits demo_builder)" "eb_tools demo_builder = []" "eb_duplicate demo_builder = None"
    using limits_default_wf by (simp_all add: demo_builder_def builder_new_def)
  note exact = build_exact [OF b refl refl, of sample_serializer "\<lambda>x. x"]
  have "\<not> (\<exists>C. build sample_serializer (\<lambda>x. x) (fold builder_tool [demo_registered 1 ''a'', demo_registered 2 ''a''] demo_builder) = Inr C)"
    using exact [of "[demo_registered 1 ''a'', demo_registered 2 ''a'']"] by (simp add: demo_registered_def)
  moreover obtain C where C: "build sample_serializer (\<lambda>x. x) (fold builder_tool [demo_registered 1 ''b'', demo_registered 2 ''a''] demo_builder) = Inr C"
  proof -
    have "case build sample_serializer (\<lambda>x. x) (fold builder_tool [demo_registered 1 ''b'', demo_registered 2 ''a''] demo_builder) of
        Inr _ \<Rightarrow> True | Inl _ \<Rightarrow> False" by code_simp
    then show ?thesis using that by (auto split: sum.splits)
  qed
  moreover have "bt_lookup (ec_tools C) (ToolName ''b'') = Some (demo_registered 1 ''b'')"
    using exact [of "[demo_registered 1 ''b'', demo_registered 2 ''a'']"] C by (simp add: demo_registered_def)
  ultimately show ?thesis by blast
qed

section \<open>Loading a session\<close>

text \<open>
  What loading may do: it only asks the store for records, and it does not take a live session back
  (\<open>k\<close>: the registry answers that the session is live).
\<close>

definition load_step :: "bool \<Rightarrow> 'w sys \<Rightarrow> 'w sys \<Rightarrow> bool" where
  "load_step k s t \<longleftrightarrow> (arc_wf s \<longrightarrow> arc_wf t \<and> (\<exists>new. ss_log t = ss_log s @ new \<and> list_all load_effect new)
     \<and> (k \<longrightarrow> canon_step s t))"

interpretation ld: step_relation "load_step k" for k
proof unfold_locales
  show "load_step k s s" for s by (simp add: load_step_def canon_step_refl)
  show "load_step k s u" if "load_step k s t" "load_step k t u" for s t u
    using that unfolding load_step_def by (auto intro: canon_step_trans)
qed

lemma effects_load_step: "effects_step load_effect s t \<Longrightarrow> load_step k s t"
  by (auto simp: effects_step_def load_step_def canon_step_def)

lemma load_step_fresh: "load_step False s (fresh_state r p s)"
  by (simp add: load_step_def fresh_state_def install_def arc_wf_def)

lemma session_env_effects:
  assumes "env_rely E"
  shows "session_env (effects_step P) E"
proof unfold_locales
  show "effects_step P s (sh_yield E s)" for s
    using assms by (simp add: env_rely_def op_step_effects op_step_rely)
qed (auto simp: effects_step_def canon_step_def)

lemma keeps_load:
  "keeps (effects_step load_effect) m \<Longrightarrow> keeps (load_step k) m"
  unfolding keeps_def by (blast intro: effects_load_step)

lemma keeps_effects_op: "keeps (op_step P) m \<Longrightarrow> keeps (effects_step P) m"
  unfolding keeps_def by (blast intro: op_step_effects)

lemma check_loaded_Inr:
  "check_loaded C i expected r = Inr () \<longleftrightarrow> sr_id r = i \<and> sr_revision r \<noteq> 0 \<and> sr_next_turn_sequence r \<noteq> 0
     \<and> record_ok C r \<and> (\<forall>inc v. expected = Some (inc, v) \<longrightarrow> sr_incarnation_id r = inc \<and> sr_revision r = v)"
  by (auto simp: check_loaded_def record_ok_def validate_loaded_def split: option.splits if_splits)

lemma wp_open_state:
  "wp (open_state E live r p) Q X s =
   (let u = sh_yield E s; v = sh_yield E u in
    if live (ss_world u)
    then (case validate_record_identity (ss_record v) r of Inl e \<Rightarrow> X (Error e) v | Inr _ \<Rightarrow> Q () v)
    else Q () (fresh_state r p u))"
  by (simp add: open_state_def Let_def) (simp add: wp_def split: sum.splits)

lemma wp_host_upgrade:
  "wp (host_upgrade E) Q X s =
   (let u = sh_yield E s in if sh_host_open E (ss_world u) then Q () u else X (Error HostClosed) u)"
  by (simp add: host_upgrade_def Let_def) (simp add: wp_def)

lemma load_step_lease [simp]:
  "load_step k s (t\<lparr>ss_lease := b\<rparr>) = load_step k s t" "load_step k (s\<lparr>ss_lease := b\<rparr>) t = load_step k s t"
  by (simp_all add: load_step_def canon_step_def arc_wf_def)

text \<open>The record is adopted: at the moment of publication the session holds exactly it.\<close>

definition adopted :: "session_record \<Rightarrow> 'w sys \<Rightarrow> bool" where
  "adopted r t \<longleftrightarrow> (\<exists>u. ss_record u = r \<and> ss_persisted u \<and> arc_wf u \<and> canon_step u t)"

lemma wp_publish_session:
  assumes env: "env_rely E" and wf: "arc_wf s" and k: "k \<longrightarrow> (\<forall>w. live w)"
  shows "wp (publish_session E live exact r) (\<lambda>x t. load_step k s t \<and> x = r \<and> adopted r t) (\<lambda>_. load_step k s) s"
proof -
  note S = session_env_effects [OF env, of load_effect]
  have yield: "load_step k v (sh_yield E v)" for v using session_env.yield [OF S] by (rule effects_load_step)
  have opened: "wp (open_state E live r True) (\<lambda>_. load_step k s) (\<lambda>_. load_step k s) s"
  proof (cases "live (ss_world (sh_yield E s))")
    case True
    have "load_step k s (sh_yield E (sh_yield E s))" using yield yield by (rule ld.trans)
    with True show ?thesis by (simp add: wp_open_state Let_def split: sum.split)
  next
    case False
    then have "k = False" using k by auto
    then have "load_step k s (fresh_state r True (sh_yield E s))" using yield [of s] load_step_fresh ld.trans by fastforce
    with False show ?thesis by (simp add: wp_open_state Let_def)
  qed
  have rec: "wp (reconcile_loaded E r) (\<lambda>_ t. load_step k s t \<and> ss_record t = r \<and> ss_persisted t) (\<lambda>_. load_step k s) u"
    if u: "load_step k s u" for u
  proof -
    have "arc_wf u" using u wf by (simp add: load_step_def)
    then show ?thesis
      by (rule wp_mono [OF session_env.wp_reconcile_loaded [OF S]]) (auto intro: ld.trans [OF u effects_load_step])
  qed
  have idle: "wp (reconcile_loaded_idle E r) (\<lambda>_ t. load_step k s t \<and> ss_record t = r \<and> ss_persisted t) (\<lambda>_. load_step k s) u"
    if u: "load_step k s u" for u
  proof -
    have "load_step k s ((sh_yield E u)\<lparr>ss_lease := Mine\<rparr>)" using ld.trans [OF u yield] by simp
    from wp_mono [OF rec [OF this]] ld.trans [OF u yield] show ?thesis by (auto simp: reconcile_loaded_idle_def Let_def)
  qed
  have fin: "wp (bindE (host_upgrade E) (\<lambda>_. ret r)) (\<lambda>x t. load_step k s t \<and> x = r \<and> adopted r t) (\<lambda>_. load_step k s) t"
    if t: "load_step k s t \<and> ss_record t = r \<and> ss_persisted t" for t
  proof -
    have "arc_wf t" using t wf by (simp add: load_step_def)
    moreover have "canon_step t (sh_yield E t)" using env by (simp add: env_rely_def rely_def)
    ultimately have "adopted r (sh_yield E t)" using t by (auto simp: adopted_def)
    then show ?thesis using ld.trans [OF conjunct1 [OF t] yield] by (simp add: wp_host_upgrade Let_def)
  qed
  show ?thesis
    unfolding publish_session_def
  proof (rule wp_seq [OF opened])
    fix u assume u: "load_step k s u"
    have "wp (if exact then reconcile_loaded_idle E r else reconcile_loaded E r)
        (\<lambda>_ t. load_step k s t \<and> ss_record t = r \<and> ss_persisted t) (\<lambda>_. load_step k s) u"
      using rec [OF u] idle [OF u] by simp
    then show "wp (bindE (if exact then reconcile_loaded_idle E r else reconcile_loaded E r) (\<lambda>_.
        bindE (host_upgrade E) (\<lambda>_. ret r))) (\<lambda>x t. load_step k s t \<and> x = r \<and> adopted r t) (\<lambda>_. load_step k s) u"
      by (rule wp_seq) (erule fin, assumption)
  qed
qed

text \<open>The whole load, whatever the store and the other users of the session do.\<close>

lemma wp_load_session:
  fixes E :: "('w, 'z) store_host_scheme"
  assumes env: "env_rely E" and wf: "arc_wf s" and k: "k \<longrightarrow> (\<forall>w. live w)"
  shows "wp (load_session_guarded C E store access live i expected)
    (\<lambda>x t. load_step k s t \<and> (\<forall>r. x = Some r \<longrightarrow> check_loaded C i expected r = Inr () \<and> adopted r t)) (\<lambda>_. load_step k s) s"
proof -
  have D: "debt_env (op_step load_effect) F load_effect" if "env_rely F" for F :: "('w, 'z) store_host_scheme"
    using that by (rule debt_env_op_step) (simp_all add: load_effect_def)
  note T = D [THEN debt_env.axioms(1)]
  have open_ok: "keeps (load_step k) (ensure_open E)"
    using env by (intro keeps_load keepsI) (simp add: ensure_open_def bindE_def interleave_def modify_def env_rely_def
        op_step_effects op_step_rely)
  have load: "keeps (load_step k) (store_load F i)" if "env_rely F" for F :: "('w, 'z) store_host_scheme"
    by (intro keeps_load keeps_effects_op turn_env.keeps_store_load [OF T [OF that]]) (simp_all add: load_effect_def)
  let ?Q = "\<lambda>x t. load_step k s t \<and> (\<forall>r. x = Some r \<longrightarrow> check_loaded C i expected r = Inr () \<and> adopted r t)"
  have publish: "wp (bindE (publish_session E live exact r) (\<lambda>r. ret (Some r))) ?Q (\<lambda>_. load_step k s) t"
    if t: "load_step k s t" and r: "check_loaded C i expected r = Inr ()" for exact r t
  proof -
    have "arc_wf t" using t wf by (simp add: load_step_def)
    from wp_publish_session [OF env this k] show ?thesis
      by (rule wp_seq) (auto simp: r intro: ld.trans [OF t])
  qed
  have answer: "wp (case loaded of None \<Rightarrow> ret None
      | Some r \<Rightarrow> bindE (lift_err (check_loaded C i expected r)) (\<lambda>_.
          bindE (publish_session E live (expected \<noteq> None) r) (\<lambda>r. ret (Some r)))) ?Q (\<lambda>_. load_step k s) t"
    if t: "load_step k s t" for loaded t
  proof (cases loaded)
    case (Some r)
    then show ?thesis
      using t by (simp only: option.case, subst wp_bindE) (rule wp_lift_errI; simp add: publish del: wp_bindE)
  qed (use t in simp)
  note seq = ld.wp_seq_acc [where k = k and ?s0.0 = s]
  have lift: "keeps (load_step k) (lift_store res :: ('w, session_record option) session_op)" for res
    by (simp add: lift_store_def lift_err_def ld.keeps_lift_res)
  have main: "wp (bindE (store_load F i) (\<lambda>res. bindE (lift_store res) (\<lambda>loaded. bindE (ensure_open E) (\<lambda>_.
      case loaded of None \<Rightarrow> ret None
      | Some r \<Rightarrow> bindE (lift_err (check_loaded C i expected r)) (\<lambda>_.
          bindE (publish_session E live (expected \<noteq> None) r) (\<lambda>r. ret (Some r))))))) ?Q (\<lambda>_. load_step k s) t"
    if "env_rely F" "load_step k s t" for F :: "('w, 'z) store_host_scheme" and t
    by (rule seq [OF load [OF that(1)] that(2)], rule seq [OF lift], assumption, rule seq [OF open_ok], assumption,
        erule answer)
  show ?thesis
    unfolding load_session_guarded_def
  proof (rule seq [OF open_ok ld.refl])
    fix t assume t: "load_step k s t"
    show "wp (bindE (case access of None \<Rightarrow> ret E
        | Some a \<Rightarrow> bindE (lift_err (validate_store_access store a)) (\<lambda>_. ret (with_access E a))) (\<lambda>F.
      bindE (store_load F i) (\<lambda>res. bindE (lift_store res) (\<lambda>loaded. bindE (ensure_open E) (\<lambda>_.
      case loaded of None \<Rightarrow> ret None
      | Some r \<Rightarrow> bindE (lift_err (check_loaded C i expected r)) (\<lambda>_.
          bindE (publish_session E live (expected \<noteq> None) r) (\<lambda>r. ret (Some r)))))))) ?Q (\<lambda>_. load_step k s) t"
    proof (cases access)
      case None
      then show ?thesis using main [OF env t] by (subst wp_bindE) (simp del: wp_bindE)
    next
      case (Some a)
      have "env_rely (with_access E a)" using env by (simp add: env_rely_def with_access_def)
      from main [OF this t] Some t show ?thesis
        by (subst wp_bindE) (simp del: wp_bindE, subst wp_bindE, rule wp_lift_errI, simp_all del: wp_bindE)
    qed
  qed simp
qed

text \<open>
  C13. Loading a session only asks the store for records, whatever the outcome, and never takes a live session back. A loaded
  session has the requested identifier and, where they were asked for, exactly the requested incarnation and revision;
  its record is a valid stored record within the limits, and the session held exactly it when it was published.
\<close>

theorem load_session_contract:
  assumes "env_rely E" and "arc_wf s" and "load_session_guarded C E store access live i expected s = (res, t)"
  shows "(\<exists>new. ss_log t = ss_log s @ new \<and> list_all load_effect new) \<and> ((\<forall>w. live w) \<longrightarrow> canon_step s t)
    \<and> (\<forall>r. res = Inr (Some r) \<longrightarrow> sr_id r = i \<and> sr_revision r \<noteq> 0 \<and> sr_next_turn_sequence r \<noteq> 0 \<and> record_ok C r
        \<and> (\<forall>inc v. expected = Some (inc, v) \<longrightarrow> sr_incarnation_id r = inc \<and> sr_revision r = v) \<and> adopted r t)"
proof -
  have run: "load_step k s t \<and> (\<forall>r. res = Inr (Some r) \<longrightarrow> check_loaded C i expected r = Inr () \<and> adopted r t)"
    if "k \<longrightarrow> (\<forall>w. live w)" for k
    using wp_load_session [OF assms(1,2) that, of C store access i expected] assms(3) by (cases res) (simp_all add: wp_def)
  have "(\<forall>w. live w) \<longrightarrow> canon_step s t" using run [of "\<forall>w. live w"] assms(2) by (simp add: load_step_def)
  moreover have "\<exists>new. ss_log t = ss_log s @ new \<and> list_all load_effect new"
    using run [of False] assms(2) by (simp add: load_step_def)
  moreover have "\<forall>r. res = Inr (Some r) \<longrightarrow> check_loaded C i expected r = Inr () \<and> adopted r t" using run [of False] by simp
  ultimately show ?thesis unfolding check_loaded_Inr by blast
qed

definition demo_load_host :: "nat store_host" where
  "demo_load_host = quiet_host (\<lambda>_. 1) (\<lambda>_. True) (\<lambda>_ w. (Some (Inr (Some sample_record)), w)) (\<lambda>_ _ w. (None, w))"

definition demo_load_config :: engine_config where
  "demo_load_config = \<lparr>ec_serializer = sample_serializer, ec_limits = limits_default,
     ec_sha256 = (\<lambda>_. replicate 32 (CHR 0x00)), ec_tools = [], ec_tool_specs = []\<rparr>"

definition demo_load_state :: "nat sys" where
  "demo_load_state = \<lparr>ss_ptr = 0, ss_record = session_record_empty (SessionId ''x'') (SessionIncarnationId ''y''),
     ss_persisted = False, ss_lease = Free, ss_reconcile = False, ss_cancelled = False, ss_deferrals = 0,
     ss_usage = usage_default, ss_terminal = False, ss_fresh = 1, ss_world = 0, ss_log = []\<rparr>"

abbreviation demo_load :: "session_id \<Rightarrow> (engine_error stop + session_record option) \<times> nat sys" where
  "demo_load i \<equiv> load_session_guarded demo_load_config demo_load_host 0 None (\<lambda>_. False) i
     (Some (SessionIncarnationId ''i'', 1)) demo_load_state"

theorem load_session_contract_witness:
  "\<exists>t. demo_load (SessionId ''s'') = (Inr (Some sample_record), t) \<and> adopted sample_record t"
proof -
  have env: "env_rely demo_load_host" by (simp add: demo_load_host_def env_rely_quiet)
  have wf: "arc_wf demo_load_state" by (simp add: arc_wf_def demo_load_state_def)
  obtain res t where run: "demo_load (SessionId ''s'') = (res, t)" by fastforce
  have "fst (demo_load (SessionId ''s'')) = Inr (Some sample_record)" by code_simp
  then have res: "res = Inr (Some sample_record)" using run by simp
  with load_session_contract [OF env wf run] run show ?thesis by blast
qed

end
