(* ===== verification/Permission_Context.thy ===== *)
theory Permission_Context
  imports Model_Types
begin

text \<open>
  What a permission policy may observe of the call it is asked about
  (\<open>session/permission_context.rs\<close>): while a request is being authorized, the session names the pending
  assistant message and its position; the observation ends with the authorization.
\<close>

section \<open>Scopes\<close>

text \<open>
  \<open>ActivePermissionContext\<close> is owned by its scope; the session and the snapshots hold weak references to
  it. \<open>ap_alive\<close> says that the owner still exists, and a pending message is gone (\<open>None\<close>) when its
  owner dropped it.
\<close>

record active_permission =
  ap_request_id :: permission_request_id
  ap_session_id :: session_id
  ap_incarnation_id :: session_incarnation_id
  ap_turn_id :: turn_id
  ap_cursor :: "nat \<times> nat"
  ap_pending :: nat
  ap_cancelled :: bool
  ap_open :: bool
  ap_alive :: bool

record permission_heap =
  ph_actives :: "nat \<Rightarrow> active_permission"
  ph_messages :: "nat \<Rightarrow> message option"
  ph_current :: "nat option"
  ph_fresh :: nat

record permission_snapshot =
  pn_active :: nat
  pn_pending :: message
  pn_cursor :: "nat \<times> nat"

definition permission_scope_open ::
  "permission_request \<Rightarrow> nat \<times> nat \<Rightarrow> nat \<Rightarrow> bool \<Rightarrow> permission_heap \<Rightarrow> nat \<times> permission_heap" where
  "permission_scope_open request cursor pending cancelled h =
     (ph_fresh h, h\<lparr>ph_actives := (ph_actives h)(ph_fresh h :=
          \<lparr>ap_request_id = pr_id request, ap_session_id = pr_session_id request,
           ap_incarnation_id = pr_session_incarnation_id request, ap_turn_id = pr_turn_id request,
           ap_cursor = cursor, ap_pending = pending, ap_cancelled = cancelled, ap_open = True, ap_alive = True\<rparr>),
        ph_current := Some (ph_fresh h), ph_fresh := Suc (ph_fresh h)\<rparr>)"

definition permission_scope_drop :: "nat \<Rightarrow> permission_heap \<Rightarrow> permission_heap" where
  "permission_scope_drop a h =
     h\<lparr>ph_actives := (ph_actives h)(a := (ph_actives h a)\<lparr>ap_open := False, ap_alive := False\<rparr>),
       ph_current := (if ph_current h = Some a then None else ph_current h)\<rparr>"

definition permission_cancel :: "nat \<Rightarrow> permission_heap \<Rightarrow> permission_heap" where
  "permission_cancel a h = h\<lparr>ph_actives := (ph_actives h)(a := (ph_actives h a)\<lparr>ap_cancelled := True\<rparr>)\<rparr>"

section \<open>Observation\<close>

definition snapshot_is_live :: "permission_heap \<Rightarrow> permission_snapshot \<Rightarrow> bool" where
  "snapshot_is_live h n =
     (let x = ph_actives h (pn_active n) in ap_alive x \<and> ap_open x \<and> \<not> ap_cancelled x)"

definition permission_invocation_snapshot :: "permission_heap \<Rightarrow> permission_request \<Rightarrow> permission_snapshot option" where
  "permission_invocation_snapshot h request =
     (case ph_current h of None \<Rightarrow> None | Some a \<Rightarrow>
        let x = ph_actives h a in
        if \<not> ap_alive x then None
        else if ap_request_id x \<noteq> pr_id request \<or> ap_session_id x \<noteq> pr_session_id request
          \<or> ap_incarnation_id x \<noteq> pr_session_incarnation_id request \<or> ap_turn_id x \<noteq> pr_turn_id request
          \<or> \<not> ap_open x \<or> ap_cancelled x then None
        else case ph_messages h (ap_pending x) of
          None \<Rightarrow> None
        | Some m \<Rightarrow>
            let n = \<lparr>pn_active = a, pn_pending = m, pn_cursor = ap_cursor x\<rparr> in
            if snapshot_is_live h n then Some n else None)"

section \<open>Lemmas\<close>

definition same_request :: "permission_request \<Rightarrow> permission_request \<Rightarrow> bool" where
  "same_request a b \<longleftrightarrow> pr_id a = pr_id b \<and> pr_session_id a = pr_session_id b
     \<and> pr_session_incarnation_id a = pr_session_incarnation_id b \<and> pr_turn_id a = pr_turn_id b"

text \<open>
  While a scope is open, exactly the requests with its identifiers are answered, with the pending message
  and the position the scope was opened with.
\<close>

lemma snapshot_in_scope:
  assumes "permission_scope_open request cursor pending False h = (a, h')" and "ph_messages h pending = Some m"
  shows "permission_invocation_snapshot h' other =
    (if same_request request other then Some \<lparr>pn_active = a, pn_pending = m, pn_cursor = cursor\<rparr> else None)"
  using assms
  by (auto simp: permission_scope_open_def permission_invocation_snapshot_def snapshot_is_live_def same_request_def Let_def)

text \<open>An answer is about the request that is being authorized, and live when it is given.\<close>

lemma snapshot_exact:
  assumes "permission_invocation_snapshot h request = Some n"
  shows "ph_current h = Some (pn_active n)" "snapshot_is_live h n"
    "ap_request_id (ph_actives h (pn_active n)) = pr_id request"
    "pn_cursor n = ap_cursor (ph_actives h (pn_active n))"
    "ph_messages h (ap_pending (ph_actives h (pn_active n))) = Some (pn_pending n)"
  using assms by (auto simp: permission_invocation_snapshot_def Let_def split: option.splits if_splits)

text \<open>After the scope is gone, or its turn was cancelled, nothing is answered and earlier snapshots are not live.\<close>

lemma snapshot_after_scope:
  "\<not> snapshot_is_live (permission_scope_drop (pn_active n) h) n"
  "\<not> snapshot_is_live (permission_cancel (pn_active n) h) n"
  "ph_current h = Some a \<Longrightarrow> permission_invocation_snapshot (permission_scope_drop a h) request = None"
  "ph_current h = Some a \<Longrightarrow> permission_invocation_snapshot (permission_cancel a h) request = None"
  by (simp_all add: snapshot_is_live_def permission_scope_drop_def permission_cancel_def
      permission_invocation_snapshot_def Let_def)

text \<open>The late drop of an older scope does not end the current observation.\<close>

lemma older_scope_drop:
  assumes "ph_current h = Some b" and "a \<noteq> b"
  shows "permission_invocation_snapshot (permission_scope_drop a h) request = permission_invocation_snapshot h request"
  using assms
  by (simp add: permission_scope_drop_def permission_invocation_snapshot_def snapshot_is_live_def Let_def split: option.split)

end
