(* ===== verification/Json_Decode.thy ===== *)
theory Json_Decode
  imports Errors Json_Bounds "HOL-Library.List_Lexorder" "HOL-Library.Char_ord"
begin

text \<open>
  Lossless decoding of JSON values (\<open>Seed\<close>, \<open>deserialize\<close> and \<open>from_str\<close> of
  \<open>crates/machine-god-core/src/json.rs\<close>).

  The parser of \<open>serde_json\<close> is not part of the repository. It hands the visitor the value in source
  order, numbers as their source token and objects with every member as written, so its result is a
  \<open>json\<close> value whose objects may be unsorted and may repeat a member. The visitor bounds the
  nesting, rejects or overwrites repeated members, and builds objects as sorted maps. The errors keep
  their kind; the source position that \<open>serde_json\<close> appends to the message is left out.
\<close>

section \<open>The visitor\<close>

definition MAX_DOCUMENT_DEPTH :: usize where
  "MAX_DOCUMENT_DEPTH = 128"

datatype decode_error = DepthLimitExceeded | DuplicateObjectKey

fun seed_decode :: "usize \<Rightarrow> usize \<Rightarrow> bool \<Rightarrow> json \<Rightarrow> (decode_error, json) result"
  and seed_visit_seq :: "usize \<Rightarrow> usize \<Rightarrow> bool \<Rightarrow> json list \<Rightarrow> (decode_error, json list) result"
  and seed_visit_map :: "usize \<Rightarrow> usize \<Rightarrow> bool \<Rightarrow> (string \<times> json) list \<Rightarrow> (string, json) btree
     \<Rightarrow> (decode_error, (string, json) btree) result"
where
  "seed_decode depth max_depth reject_duplicates v =
     (if depth > max_depth then Inl DepthLimitExceeded
      else case v of
        JArray xs \<Rightarrow>
          if depth \<ge> max_depth then Inl DepthLimitExceeded
          else bind_res (seed_visit_seq (depth + 1) max_depth reject_duplicates xs) (\<lambda>values. Inr (JArray values))
      | JObject kvs \<Rightarrow>
          if depth \<ge> max_depth then Inl DepthLimitExceeded
          else bind_res (seed_visit_map (depth + 1) max_depth reject_duplicates kvs []) (\<lambda>values. Inr (JObject values))
      | _ \<Rightarrow> Inr v)"
| "seed_visit_seq depth max_depth reject_duplicates [] = Inr []"
| "seed_visit_seq depth max_depth reject_duplicates (x # xs) =
     bind_res (seed_decode depth max_depth reject_duplicates x) (\<lambda>y.
     bind_res (seed_visit_seq depth max_depth reject_duplicates xs) (\<lambda>ys. Inr (y # ys)))"
| "seed_visit_map depth max_depth reject_duplicates [] values = Inr values"
| "seed_visit_map depth max_depth reject_duplicates ((key, x) # kvs) values =
     (if reject_duplicates \<and> bt_lookup values key \<noteq> None then Inl DuplicateObjectKey
      else bind_res (seed_decode depth max_depth reject_duplicates x) (\<lambda>y.
        seed_visit_map depth max_depth reject_duplicates kvs (bt_insert key y values)))"

declare seed_decode.simps [simp del]

definition json_deserialize :: "json \<Rightarrow> (decode_error, json) result" where
  "json_deserialize v = seed_decode 0 MAX_SAFE_JSON_DEPTH False v"

text \<open>\<open>parse\<close> is the JSON parser: the value of a complete well-formed document, or nothing.\<close>

definition json_from_str :: "(string \<Rightarrow> json option) \<Rightarrow> string \<Rightarrow> json option" where
  "json_from_str parse text =
     (if \<not> check_container_depth text MAX_DOCUMENT_DEPTH then None
      else case parse text of
        None \<Rightarrow> None
      | Some v \<Rightarrow> (case seed_decode 0 MAX_DOCUMENT_DEPTH True v of Inl _ \<Rightarrow> None | Inr w \<Rightarrow> Some w))"

section \<open>What is accepted\<close>

text \<open>No object of the value, at any depth, names a member twice; every object is sorted.\<close>

fun unique_keys :: "json \<Rightarrow> bool" where
  "unique_keys (JArray xs) = list_all unique_keys xs"
| "unique_keys (JObject kvs) = (distinct (map fst kvs) \<and> list_all (\<lambda>kv. unique_keys (snd kv)) kvs)"
| "unique_keys _ = True"

fun sorted_objects :: "json \<Rightarrow> bool" where
  "sorted_objects (JArray xs) = list_all sorted_objects xs"
| "sorted_objects (JObject kvs) = (bt_invar kvs \<and> list_all (\<lambda>kv. sorted_objects (snd kv)) kvs)"
| "sorted_objects _ = True"

definition fits :: "usize \<Rightarrow> usize \<Rightarrow> json \<Rightarrow> bool" where
  "fits depth max_depth v \<longleftrightarrow> depth \<le> max_depth \<and> json_depth v \<le> max_depth - depth"

lemma fits_scalar [simp]:
  "fits d m JNull \<longleftrightarrow> d \<le> m" "fits d m (JBool b) \<longleftrightarrow> d \<le> m"
  "fits d m (JNumber s) \<longleftrightarrow> d \<le> m" "fits d m (JString s) \<longleftrightarrow> d \<le> m"
  by (simp_all add: fits_def)

lemma fits_container [simp]:
  "fits d m (JArray xs) \<longleftrightarrow> d < m \<and> list_all (fits (d + 1) m) xs"
  "fits d m (JObject kvs) \<longleftrightarrow> d < m \<and> list_all (\<lambda>kv. fits (d + 1) m (snd kv)) kvs"
  using json_depth_le_iff [of "JArray xs" "m - d"] json_depth_le_iff [of "JObject kvs" "m - d"]
  by (auto simp: fits_def list_all_iff simp del: json_depth.simps)

lemma bt_invar_empty [simp]: "bt_invar []"
  by (simp add: bt_invar_def)

lemma bt_lookup_empty [simp]: "bt_lookup [] k = None"
  by (simp add: bt_lookup_def)

lemma seed_accepts:
  "(\<exists>w. seed_decode d m r v = Inr w) \<longleftrightarrow> fits d m v \<and> (r \<longrightarrow> unique_keys v)"
  "(\<exists>ws. seed_visit_seq d m r xs = Inr ws) \<longleftrightarrow> list_all (fits d m) xs \<and> (r \<longrightarrow> list_all unique_keys xs)"
  "bt_invar acc \<Longrightarrow> (\<exists>ws. seed_visit_map d m r kvs acc = Inr ws) \<longleftrightarrow>
     list_all (\<lambda>kv. fits d m (snd kv)) kvs \<and>
     (r \<longrightarrow> list_all (\<lambda>kv. unique_keys (snd kv)) kvs \<and> distinct (map fst kvs) \<and>
        (\<forall>k \<in> fst ` set kvs. bt_lookup acc k = None))"
proof (induction d m r v and d m r xs and d m r kvs acc rule: seed_decode_seed_visit_seq_seed_visit_map.induct)
  case (1 d m r v)
  then show ?case by (cases v) (auto simp: seed_decode.simps simp del: One_nat_def)
next
  case (3 d m r x xs)
  then show ?case by (cases "seed_decode d m r x") auto
next
  case (5 d m r key x kvs acc)
  show ?case
  proof (cases "r \<and> bt_lookup acc key \<noteq> None")
    case True
    then have "\<not> (\<forall>k \<in> fst ` set ((key, x) # kvs). bt_lookup acc k = None)" by auto
    with True show ?thesis by simp
  next
    case False
    note x = 5(1) [OF False]
    show ?thesis
    proof (cases "seed_decode d m r x")
      case (Inl e)
      then have "\<not> (fits d m x \<and> (r \<longrightarrow> unique_keys x))" using x by simp
      with Inl False show ?thesis by auto
    next
      case (Inr y)
      have rest: "(\<exists>ws. seed_visit_map d m r kvs (bt_insert key y acc) = Inr ws) \<longleftrightarrow>
          list_all (\<lambda>kv. fits d m (snd kv)) kvs \<and>
          (r \<longrightarrow> list_all (\<lambda>kv. unique_keys (snd kv)) kvs \<and> distinct (map fst kvs) \<and>
            (\<forall>k \<in> fst ` set kvs. (if k = key then Some y else bt_lookup acc k) = None))"
        using 5(2) [OF False bt_invar_insert [OF 5(3)]] by (simp only: bt_lookup_insert [OF 5(3)])
      have step: "seed_visit_map d m r ((key, x) # kvs) acc = seed_visit_map d m r kvs (bt_insert key y acc)"
        using False Inr by (simp only: seed_visit_map.simps if_False bind_res_simps)
      have fx: "fits d m x \<and> (r \<longrightarrow> unique_keys x)" using x Inr by blast
      have keys: "(\<forall>k \<in> fst ` set kvs. (if k = key then Some y else bt_lookup acc k) = None) \<longleftrightarrow>
          key \<notin> fst ` set kvs \<and> (\<forall>k \<in> fst ` set kvs. bt_lookup acc k = None)"
        by (auto split: if_splits)
      show ?thesis unfolding step rest keys using fx False by (cases r) auto
    qed
  qed
qed simp_all

text \<open>Decoding is the identity on values whose objects are already sorted maps.\<close>

lemma bt_insert_last: "bt_invar (acc @ [(k, w)]) \<Longrightarrow> bt_insert k v acc = acc @ [(k, v)]"
  by (induction acc) (auto simp: bt_invar_def)

lemma seed_identity:
  "fits d m v \<Longrightarrow> sorted_objects v \<Longrightarrow> seed_decode d m r v = Inr v"
  "list_all (fits d m) xs \<Longrightarrow> list_all sorted_objects xs \<Longrightarrow> seed_visit_seq d m r xs = Inr xs"
  "list_all (\<lambda>kv. fits d m (snd kv)) kvs \<Longrightarrow> list_all (\<lambda>kv. sorted_objects (snd kv)) kvs \<Longrightarrow> bt_invar (acc @ kvs)
     \<Longrightarrow> seed_visit_map d m r kvs acc = Inr (acc @ kvs)"
proof (induction d m r v and d m r xs and d m r kvs acc rule: seed_decode_seed_visit_seq_seed_visit_map.induct)
  case (1 d m r v)
  then show ?case by (cases v) (auto simp: seed_decode.simps simp del: One_nat_def)
next
  case (5 d m r key x kvs acc)
  have new: "bt_lookup acc key = None"
    using 5(5) by (auto simp: bt_lookup_def bt_invar_def sorted_wrt_append map_of_eq_None_iff)
  have "bt_invar (acc @ [(key, x)])" using 5(5) by (auto simp: bt_invar_def sorted_wrt_append)
  then have ins: "bt_insert key x acc = acc @ [(key, x)]" by (rule bt_insert_last)
  have ok: "\<not> (r \<and> bt_lookup acc key \<noteq> None)" using new by simp
  have x: "seed_decode d m r x = Inr x" by (rule 5(1) [OF ok]) (use 5(3,4) in simp_all)
  have "seed_visit_map d m r kvs (bt_insert key x acc) = Inr (bt_insert key x acc @ kvs)"
    by (rule 5(2) [OF ok]) (use 5(3-5) in \<open>simp_all add: ins\<close>)
  then have "seed_visit_map d m r kvs (bt_insert key x acc) = Inr ((acc @ [(key, x)]) @ kvs)" by (simp only: ins)
  then show ?case using new x by simp
qed simp_all

text \<open>Whatever is decoded is within the bound and its objects are sorted maps.\<close>

lemma list_all_conj: "list_all (\<lambda>x. P x \<and> Q x) xs \<longleftrightarrow> list_all P xs \<and> list_all Q xs"
  by (auto simp: list_all_iff)

lemma bt_insert_all: "list_all (\<lambda>kv. P (snd kv)) m \<Longrightarrow> P v \<Longrightarrow> list_all (\<lambda>kv. P (snd kv)) (bt_insert k v m)"
  by (induction k v m rule: bt_insert.induct) auto

lemma seed_sorted:
  "seed_decode d m r v = Inr w \<Longrightarrow> fits d m w \<and> sorted_objects w"
  "seed_visit_seq d m r xs = Inr ws \<Longrightarrow> list_all (fits d m) ws \<and> list_all sorted_objects ws"
  "seed_visit_map d m r kvs acc = Inr ms \<Longrightarrow> bt_invar acc
     \<Longrightarrow> list_all (\<lambda>kv. fits d m (snd kv) \<and> sorted_objects (snd kv)) acc
     \<Longrightarrow> bt_invar ms \<and> list_all (\<lambda>kv. fits d m (snd kv) \<and> sorted_objects (snd kv)) ms"
proof (induction d m r v and d m r xs and d m r kvs acc arbitrary: w and ws and ms
    rule: seed_decode_seed_visit_seq_seed_visit_map.induct)
  case (1 d m r v)
  then show ?case
    by (cases v) (auto simp: seed_decode.simps list_all_conj split: if_splits simp del: One_nat_def)
next
  case (3 d m r x xs)
  then show ?case by auto
next
  case (5 d m r key x kvs acc)
  from 5(3) obtain y where ok: "\<not> (r \<and> bt_lookup acc key \<noteq> None)"
    and y: "seed_decode d m r x = Inr y" and rest: "seed_visit_map d m r kvs (bt_insert key y acc) = Inr ms"
    by (auto split: if_splits)
  have sy: "fits d m y \<and> sorted_objects y" by (rule 5(1) [OF ok y])
  show ?case
    by (rule 5(2) [OF ok rest bt_invar_insert [OF 5(4)]]) (rule bt_insert_all [where P = "\<lambda>v. fits d m v \<and> sorted_objects v", OF 5(5) sy])
qed simp_all

section \<open>The decoders\<close>

text \<open>
  A document is accepted exactly when it passes the lexical preflight, is well formed, nests at most 128
  containers and repeats no member.
\<close>

lemma json_from_str_accepts:
  "(\<exists>w. json_from_str parse text = Some w) \<longleftrightarrow>
     check_container_depth text MAX_DOCUMENT_DEPTH \<and>
     (\<exists>v. parse text = Some v \<and> json_depth v \<le> MAX_DOCUMENT_DEPTH \<and> unique_keys v)"
proof (cases "parse text")
  case (Some v)
  have "(\<exists>w. seed_decode 0 MAX_DOCUMENT_DEPTH True v = Inr w) \<longleftrightarrow> json_depth v \<le> MAX_DOCUMENT_DEPTH \<and> unique_keys v"
    unfolding seed_accepts(1) by (simp add: fits_def)
  with Some show ?thesis
    by (cases "seed_decode 0 MAX_DOCUMENT_DEPTH True v") (simp_all add: json_from_str_def)
qed (simp add: json_from_str_def)

text \<open>
  A value that was decoded once, printed and parsed back exactly, is decoded to itself.
\<close>

lemma json_from_str_roundtrip:
  assumes "json_from_str parse text = Some w" "parse (print w) = Some w"
    "check_container_depth (print w) MAX_DOCUMENT_DEPTH"
  shows "json_from_str parse (print w) = Some w"
proof -
  obtain v where "seed_decode 0 MAX_DOCUMENT_DEPTH True v = Inr w"
    using assms(1) by (auto simp: json_from_str_def split: if_splits option.splits sum.splits)
  then have "fits 0 MAX_DOCUMENT_DEPTH w \<and> sorted_objects w" by (rule seed_sorted(1))
  then have "seed_decode 0 MAX_DOCUMENT_DEPTH True w = Inr w" by (simp add: seed_identity(1))
  then show ?thesis using assms(2,3) by (simp add: json_from_str_def)
qed

lemma json_deserialize_accepts:
  "(\<exists>w. json_deserialize v = Inr w) \<longleftrightarrow> json_depth v \<le> MAX_SAFE_JSON_DEPTH"
  unfolding json_deserialize_def seed_accepts(1) by (simp add: fits_def)

text \<open>The exponent does not decide whether a number is zero: the digits of the mantissa do.\<close>

lemma number_is_zero_exponent:
  assumes "list_all (\<lambda>c. c \<noteq> CHR ''e'' \<and> c \<noteq> CHR ''E'') mantissa" "e = CHR ''e'' \<or> e = CHR ''E''"
  shows "number_is_zero (mantissa @ e # exponent) = number_is_zero mantissa"
proof -
  have all: "\<forall>c \<in> set mantissa. c \<noteq> CHR ''e'' \<and> c \<noteq> CHR ''E''" using assms(1) by (simp only: list_all_iff)
  have "takeWhile (\<lambda>c. c \<noteq> CHR ''e'' \<and> c \<noteq> CHR ''E'') (mantissa @ e # exponent) = mantissa"
    using all assms(2) by (subst takeWhile_append2) auto
  moreover have "takeWhile (\<lambda>c. c \<noteq> CHR ''e'' \<and> c \<noteq> CHR ''E'') mantissa = mantissa"
    using all by (simp only: takeWhile_eq_all_conv)
  ultimately show ?thesis by (simp only: number_is_zero_def)
qed

end
