(* ===== verification/Spec2Isabelle.thy ===== *)
theory Spec2Isabelle
  imports Demo_Turn Turn_Delivery Metadata_Edit Call_Scope Engine_Core Permission_Context Json_Decode
begin

text \<open>
  Verification of the core engine of \<open>machine-god\<close> (the crate \<open>crates/machine-god-core\<close>).

  \<^bold>\<open>The program.\<close> An engine is built from host components: a model provider, a session store, a permission
  handler, an optional event sink and tools. Sessions are opened on it; every handle of a session shares one
  state. A prompt reserves a turn durably and starts a workflow. The workflow asks the provider for output in
  rounds. The calls of a round are first saved with placeholder results, then prepared, permitted and executed
  one by one, and each placeholder is replaced by its result. The consumer polls the turn as a stream of
  numbered events and may cancel it. Other tasks may edit the session's metadata meanwhile.

  \<^bold>\<open>Foundations.\<close>
  \<^item> \<open>MG_Prelude\<close>: machine integers, results, the effect monad with its weakest preconditions, bounded
    retry loops, the locale \<open>step_relation\<close> for relations kept by operations, and sorted maps
    (\<open>BTreeMap\<close>, locale \<open>ordered_map\<close>).
  \<^item> \<open>Ids\<close> (\<open>id.rs\<close>), \<open>Errors\<close> (\<open>error.rs\<close>), \<open>Model_Types\<close> (\<open>model.rs\<close>, \<open>permission.rs\<close>, \<open>tool.rs\<close>,
    \<open>event.rs\<close> and the records of \<open>session.rs\<close>): the data. Generated turn identifiers are valid and distinct.
  \<^item> \<open>Json_Bounds\<close> (\<open>json_bounds.rs\<close>, the preflight of \<open>json.rs\<close>): the iterative validator, measure and
    destructor of JSON trees agree with structural recursion. \<open>Json_Decode\<close> (\<open>Seed\<close> of \<open>json.rs\<close>): which
    values are decoded, that decoded objects are sorted maps, and that decoding them again changes nothing.
  \<^item> \<open>Engine_Limits\<close> (\<open>EngineLimits\<close> in \<open>engine.rs\<close>, the validators at the end of \<open>session.rs\<close>): records
    and prepared calls pass exactly when they fit; denial reasons are cut at a character boundary.

  \<^bold>\<open>Sessions.\<close>
  \<^item> \<open>Session_State\<close> (\<open>SessionState\<close>): the shared record cell and lease. \<open>canon_step\<close> and \<open>rely\<close> say what
    any user of the session may do to it; every operation is shown to keep them, for every environment that
    does (locale \<open>session_env\<close>).
  \<^item> \<open>Awaiting\<close> (\<open>await_cancellable\<close> and its relatives): waiting on a host future under cancellation.
  \<^item> \<open>Session_Ops\<close> (\<open>Session\<close>, \<open>SessionOperation\<close>): metadata edits, revision checks, reconciliation of an
    uncertain save, reservation of turns. \<open>Session_Context\<close> (\<open>session_context.rs\<close>): what of the history the
    provider is sent, and when such a history is closed.
  \<^item> \<open>Session_Registry\<close> and \<open>Engine_Core\<close> (\<open>engine.rs\<close>): one live state for each session in every interleaving;
    what is built and what is loaded.

  \<^bold>\<open>Turns.\<close>
  \<^item> \<open>Transcript\<close> (\<open>commit_messages\<close>, \<open>replace_message\<close>), \<open>Turn_Catalog\<close> (\<open>TurnToolCatalog\<close>) and
    \<open>Turn_Workflow\<close> (\<open>run_turn\<close>, \<open>run_turn_inner\<close>, \<open>await_tool_execution\<close>): the workflow.
  \<^item> \<open>Turn_Safety\<close>: each effect in the log of a turn is justified by those before it. \<open>Turn_Outcome\<close>: how turns
    end. \<open>Demo_Turn\<close>: a concrete turn, for the witnesses.
  \<^item> \<open>Cancel_Token\<close> (\<open>cancel.rs\<close>): no wakeup is lost in any interleaving. \<open>Turn_Stream\<close> and \<open>Turn_Delivery\<close>
    (\<open>Turn\<close>, \<open>EmissionGate\<close>, \<open>EmitFuture\<close> in \<open>session.rs\<close>): the order, delivery and end of the events.
  \<^item> \<open>Turn_Metadata\<close> and \<open>Metadata_Edit\<close> (\<open>session/turn_metadata.rs\<close>): editors beside a running turn.
    \<open>Call_Scope\<close> (\<open>tool/invocation.rs\<close>): a call is claimed at most once. \<open>Permission_Context\<close>
    (\<open>session/permission_context.rs\<close>): what a policy may observe, and for how long.

  This theory holds the properties of whole turns and of the operations of a session.

  \<^bold>\<open>Host and concurrency.\<close> Host traits are records of functions over a world of arbitrary type: a future is what one
  poll of it returns. Their answers are unconstrained; where a theorem needs more (the sink takes
  the start event, say) that is a hypothesis. \<open>sh_yield\<close> transforms the shared state wherever another thread
  can run, and \<open>env_rely\<close> restricts it to what the session's own operations do. \<open>Arc\<close> pointers are
  numbers that are not reused while a weak reference exists. A dropped future stops its operation where it was
  pending. Serialized sizes and the hash of permission requests are parameters. Interleavings are at the
  granularity of lock acquisitions and atomic operations, and these are sequentially consistent.

  \<^bold>\<open>Bounds and fuel.\<close> The retry loops have the bounds of the source (32 attempts for commits, reservations and
  metadata entries, \<open>MAX_RECONCILE_RETRIES\<close> for reconciliation). The two loops of a turn run with fuel one above
  the configured rounds and events, and \<open>turn_loops_end\<close> shows that more changes nothing. \<open>sh_polls\<close>, how
  often an executor polls a future before dropping it, is chosen by the host and arbitrary. The other loops
  (identifier search, text boundary, JSON stacks, stream polls) are proved to terminate. \<open>usize\<close> arithmetic
  is checked as in the source; \<open>u64\<close> is a 64-bit word, and theorems say where a counter must not wrap.

  \<^bold>\<open>Not modelled.\<close>
  \<^item> Of the modelled files: \<open>Debug\<close> output, plain accessors, the builder's setters, the wrappers that only box a
    modelled operation, and of \<open>json.rs\<close> the code that drives \<open>serde\<close> (raw tokens, tagged enums,
    \<open>to_value\<close>, \<open>from_slice\<close>, \<open>deserialize_map\<close>). The parser itself is a third-party package.
  \<^item> \<open>background.rs\<close>, \<open>terminal.rs\<close>, \<open>terminal_action.rs\<close>, \<open>subagent.rs\<close>, \<open>model_catalog.rs\<close>: value types and
    host traits of other services, which no part of the turn engine calls.
  \<^item> The crates \<open>machine-god-native\<close>, \<open>machine-god-cli\<close> and \<open>machine-god-terminal-sys\<close>: files, processes,
    terminals, network and output. They reach the core through the host traits, over whose answers the theorems
    quantify. \<open>machine-god-testkit\<close> scripts such hosts for tests. Benchmarks and scripts are tooling.
  \<^item> Weak memory orderings, allocation failure, panics of host components and poisoned locks. Failed assertions of
    the event stream are modelled, as panics that end the poll.
\<close>

section \<open>What a turn may do\<close>

lemma tool_context_call_id: "tctx_call_id (tool_context_for st i) = i"
  by (simp add: tool_context_for_def)

text \<open>
  C1. A tool is executed only after it was prepared for exactly this call, with the prepared arguments,
  after the policy allowed the capability the preparation asks for and the admission that came with
  the decision succeeded, and after a save completed whose record holds the call and a placeholder
  for its result. This holds whatever the host answers and whatever other users of the session do in between.
\<close>

theorem executed_call_is_prepared_permitted_and_published:
  assumes "env_rely E" and "start_ok st" and "arc_wf s"
    and "i < length (turn_log C E st s)"
    and "turn_log C E st s ! i = Constructed (CallExecute tool ctx name args)"
  shows "\<exists>call p. Prepared tool ctx call p \<in> set (take i (turn_log C E st s))
      \<and> ctx = tool_context_for st (tc_id call) \<and> name = tc_name call \<and> args = pt_arguments p
      \<and> permitted st (take i (turn_log C E st s)) p
      \<and> published (take i (turn_log C E st s)) (tc_id call) (tc_name call)"
  using turn_log_justified [OF assms(1-4)] assms(5) by (simp add: justified_def) (metis tool_context_call_id)

theorem executed_call_is_prepared_permitted_and_published_witness:
  "\<exists>i < length demo_log.
     \<exists>call p. Prepared 7 (tool_context_for demo_start (ToolCallId ''c1'')) call p
         \<in> set (take i demo_log)
       \<and> permitted demo_start (take i demo_log) p
       \<and> published (take i demo_log) (tc_id call) (tc_name call)"
proof -
  obtain i where i: "i < length demo_log"
    "demo_log ! i =
       Constructed (CallExecute 7 (tool_context_for demo_start (ToolCallId ''c1'')) (ToolName ''echo'') JNull)"
    by (rule demo_log_exec)
  then show ?thesis
    using executed_call_is_prepared_permitted_and_published [OF demo_env demo_start_ok demo_wf i] by blast
qed

text \<open>
  C2. No call is executed twice in a turn, a turn executes at most \<open>max_tool_calls_per_turn\<close> calls, and it
  opens at most \<open>max_model_rounds\<close> provider streams.
\<close>

theorem turn_calls_bounded:
  assumes "env_rely E" and "start_ok st" and "arc_wf s"
  shows "distinct (exec_ids (turn_log C E st s))
    \<and> length (exec_ids (turn_log C E st s)) \<le> max_tool_calls_per_turn (ec_limits C)
    \<and> streams (turn_log C E st s) \<le> max_model_rounds (ec_limits C)"
proof -
  have safe: "turn_safe C st s (snd (run_turn C E st s))" by (rule run_turn_safe [OF assms])
  then have "safe (justified C st) (turn_log C E st s)"
    using assms(3) by (simp add: turn_safe_def guard_step_def turn_log_def)
  then have "distinct (exec_ids (turn_log C E st s))" by (rule safe_exec_ids_distinct)
  then show ?thesis using safe by (simp add: turn_safe_def turn_log_def distinct_card)
qed

theorem turn_calls_bounded_witness:
  "distinct (exec_ids demo_log)
   \<and> streams demo_log \<le> max_model_rounds (ec_limits demo_config)"
  using turn_calls_bounded [OF demo_env demo_start_ok demo_wf, of demo_config] by blast





text \<open>
  C19. The permission policy is asked about a call only after the call was prepared and published, and
  it is asked about exactly the capability and arguments of that preparation.
\<close>

theorem permission_asked_for_prepared_call:
  assumes "env_rely E" and "start_ok st" and "arc_wf s"
    and "i < length (turn_log C E st s)"
    and "turn_log C E st s ! i = Constructed (CallAuthorize req name call_id args)"
  shows "(\<exists>tool call p. Prepared tool (tool_context_for st call_id) call p \<in> set (take i (turn_log C E st s))
      \<and> tc_id call = call_id \<and> tc_name call = name
      \<and> pt_authorization p = PermissionRequired (pr_capability req) \<and> pt_arguments p = args)
    \<and> published (take i (turn_log C E st s)) call_id name"
  using turn_log_justified [OF assms(1-4)] assms(5) by (simp add: justified_def)

theorem permission_asked_for_prepared_call_witness:
  "\<exists>i req name call_id args. demo_log ! i = Constructed (CallAuthorize req name call_id args)
     \<and> published (take i demo_log) call_id name"
proof -
  obtain i req name call_id args where i: "i < length demo_log"
    "demo_log ! i = Constructed (CallAuthorize req name call_id args)" by (rule demo_log_authorize)
  then show ?thesis
    using permission_asked_for_prepared_call [OF demo_env demo_start_ok demo_wf i] by blast
qed



text \<open>
  C10. Both loops of a turn end on their own: more passes than the configured number of rounds (of
  provider events) change nothing, so the fuel of the model never decides a result.
\<close>

theorem turn_loops_end:
  "iterate (Suc (max_model_rounds (ec_limits C)) + n) (run_round C E st) tv s =
     iterate (Suc (max_model_rounds (ec_limits C))) (run_round C E st) tv s
   \<and> iterate (Suc (max_model_events_per_turn (ec_limits C)) + n) (model_event_step C E) (tv, rv) s =
     iterate (Suc (max_model_events_per_turn (ec_limits C))) (model_event_step C E) (tv, rv) s"
proof
  show "iterate (Suc (max_model_rounds (ec_limits C)) + n) (run_round C E st) tv s =
      iterate (Suc (max_model_rounds (ec_limits C))) (run_round C E st) tv s"
    by (rule iterate_fuel [OF run_round_decreases]) (simp_all add: rounds_left_def)
  show "iterate (Suc (max_model_events_per_turn (ec_limits C)) + n) (model_event_step C E) (tv, rv) s =
      iterate (Suc (max_model_events_per_turn (ec_limits C))) (model_event_step C E) (tv, rv) s"
    by (rule iterate_fuel [OF model_event_step_decreases]) (simp_all add: events_left_def)
qed



text \<open>
  C9. A turn whose cancellation was requested before it starts is cancelled or dropped; it opens no
  provider stream, executes nothing and saves nothing.
\<close>

theorem cancelled_turn_stops:
  assumes "env_rely E" and "arc_wf s" and "ss_cancelled s"
  shows "fst (run_turn C E st s) \<in> {None, Some ExitCancelled}
    \<and> streams (turn_log C E st s) = 0 \<and> exec_ids (turn_log C E st s) = []
    \<and> list_all is_emit (turn_log C E st s)"
proof -
  obtain e where e: "turn_step is_emit s (snd (run_turn C E st s)) \<and> (e = Error AbortCancelled \<or> e = Dropped)"
    "fst (run_turn C E st s) = (case e of Dropped \<Rightarrow> None | Error AbortCancelled \<Rightarrow> Some ExitCancelled
      | Error (AbortFailed f) \<Rightarrow> Some (ExitFailed f))"
    using run_turn_error [OF wp_run_turn_inner_cancelled [OF assms emit_dropped]] by blast
  then obtain new where "ss_log (snd (run_turn C E st s)) = ss_log s @ new" "list_all is_emit new"
    using turn_step_new [OF _ assms(2)] by blast
  then have "list_all is_emit (turn_log C E st s)" by (simp add: turn_log_def)
  then show ?thesis using e emit_only_log by auto
qed

theorem cancelled_turn_stops_witness:
  "streams (turn_log demo_config demo_host demo_start demo_cancelled) = 0"
  using cancelled_turn_stops [OF demo_env demo_cancelled_wf, of demo_config demo_start] by blast



section \<open>Starting turns and editing metadata\<close>



text \<open>
  C21. A turn that fails to start leaves no lease behind, and the session's record is the one before or a
  newer one of the same session.
\<close>

theorem failed_start_releases_lease:
  assumes "env_rely E" and "arc_wf s" and "ss_lease s \<noteq> Mine"
    and "start_turn C E prompt options preparation s = (Inl e, t)"
  shows "ss_lease t \<noteq> Mine \<and> canon_step s t"
  using wp_Inl [OF wp_start_turn [OF assms(1-3)] assms(4)] by (simp add: effects_step_def)

theorem failed_start_releases_lease_witness:
  "\<exists>e t. start_turn demo_config demo_host None (st_options demo_start) None demo_busy = (Inl e, t) \<and> ss_lease t \<noteq> Mine"
proof -
  have "result_of (start_turn demo_config demo_host None (st_options demo_start) None demo_busy) (\<lambda>_. ()) = None"
    by code_simp
  then obtain e t where "start_turn demo_config demo_host None (st_options demo_start) None demo_busy = (Inl e, t)"
    unfolding result_of_None by blast
  then show ?thesis using failed_start_releases_lease [OF demo_env demo_idle_ok(3,4)] by blast
qed



text \<open>
  C16. Adopting a loaded record never takes the session back: in every outcome the identity is unchanged and
  the revision and the turn sequence do not decrease, and on success the session holds exactly
  the loaded record and knows it to be stored.
\<close>

theorem reconcile_loaded_contract:
  assumes "env_canon E" and "arc_wf s"
  shows "canon_step s (snd (reconcile_loaded E r s))
    \<and> (fst (reconcile_loaded E r s) = Inr () \<longrightarrow>
        ss_record (snd (reconcile_loaded E r s)) = r \<and> ss_persisted (snd (reconcile_loaded E r s)))"
  using session_env.wp_reconcile_loaded [OF session_env_canon [OF assms(1)] assms(2), of r]
  by (auto simp: wp_def split: prod.splits sum.splits)

theorem reconcile_loaded_contract_witness:
  "\<exists>t. reconcile_loaded demo_host (sample_record\<lparr>sr_revision := 5\<rparr>) demo_state = (Inr (), t)
     \<and> sr_revision (ss_record t) = 5"
proof -
  have "result_of (reconcile_loaded demo_host (sample_record\<lparr>sr_revision := 5\<rparr>) demo_state) (\<lambda>u. u) = Some ()"
    by code_simp
  then obtain t where t: "reconcile_loaded demo_host (sample_record\<lparr>sr_revision := 5\<rparr>) demo_state = (Inr (), t)"
    unfolding result_of_Some by blast
  have "env_canon demo_host" by (simp add: env_canon_def demo_host_def canon_step_refl)
  then have "ss_record t = sample_record\<lparr>sr_revision := 5\<rparr>"
    using reconcile_loaded_contract [OF _ demo_wf, of demo_host "sample_record\<lparr>sr_revision := 5\<rparr>"] t by simp
  then show ?thesis using t by simp
qed

text \<open>
  C17. When messages are committed, a save of this commit completed whose record is the base history followed
  by exactly those messages; the returned record carries the revision the store gave, and the
  session holds it or a newer one.
\<close>

theorem commit_messages_stores:
  assumes "env_rely E" and "arc_wf s" and "commit_messages C E base ms mode s = (Inr r, t)"
  shows "sr_messages r = sr_messages base @ ms \<and> sr_id r = sr_id base
    \<and> sr_revision r \<le> sr_revision (ss_record t) \<and> (sr_revision (ss_record t) = sr_revision r \<longrightarrow> ss_record t = r)
    \<and> (\<exists>c. Saved c (sr_revision r) \<in> set (drop (length (ss_log s)) (ss_log t)) \<and> sr_revision c < sr_revision r
        \<and> r = c\<lparr>sr_revision := sr_revision r\<rparr>)"
proof -
  have "stored C base (sr_messages base @ ms) s r t"
    using wp_Inr [OF wp_commit_messages [OF assms(1,2)] assms(3)] by blast
  then show ?thesis using stored_sel [of C base _ s r t] unfolding stored_def by blast
qed

theorem commit_messages_stores_witness:
  "\<exists>r t. commit_messages demo_config demo_host sample_record [message_text User ''more''] CommitCancellable demo_state =
     (Inr r, t) \<and> sr_messages r = [message_text User ''hi'', message_text User ''more'']"
proof -
  obtain r t where r: "commit_messages demo_config demo_host sample_record [message_text User ''more''] CommitCancellable
      demo_state = (Inr r, t)"
    using demo_commit by blast
  then show ?thesis
    using commit_messages_stores [OF demo_env demo_wf r] by (simp add: sample_record_def)
qed



end
